(* ===== verification/Xv6_Prelude.thy ===== *)
theory Xv6_Prelude
  imports Main "HOL-Library.Word"
begin

text \<open>
  Shared vocabulary of the development.

  Code is modelled in a state-and-exception style: an operation is a function from
  the state to a result and the state it leaves behind. A result is a value the C
  function returns, or the reason why control never comes back to the caller:
  \<^item> \<open>Panic msg\<close>: the code called \<open>panic(msg)\<close>;
  \<^item> \<open>Fault msg\<close>: the code dereferenced a null pointer;
  \<^item> \<open>Spin\<close>: the code spins on a lock another CPU holds;
  \<^item> \<open>Switch\<close>: the code called \<open>swtch\<close> and the scheduler has the CPU;
  \<^item> \<open>Exit n\<close>, \<open>Replaced\<close>: a user program called \<open>exit(n)\<close>, or \<open>exec\<close> put another program in its place.
  The state is kept in every case, so what the code did before it stopped stays visible.

  \<open>wp\<close> is the weakest precondition of an operation for a postcondition on normal return
  and one on every other outcome; \<open>unch\<close> says that an operation leaves a part of the
  state alone whatever its outcome. \<open>unch_rules\<close> collects the rules for the latter.
\<close>

type_synonym u8 = "8 word"
type_synonym u16 = "16 word"
type_synonym u32 = "32 word"
type_synonym u64 = "64 word"

datatype exn = Panic string | Fault string | Spin | Switch | Exit int | Replaced

datatype 'a res = Ret 'a | Exc exn

type_synonym ('s, 'a) km = "'s \<Rightarrow> 'a res \<times> 's"

definition kret :: "'a \<Rightarrow> ('s, 'a) km" where
  "kret a = (\<lambda>s. (Ret a, s))"

definition kexc :: "exn \<Rightarrow> ('s, 'a) km" where
  "kexc e = (\<lambda>s. (Exc e, s))"

definition kget :: "('s \<Rightarrow> 'a) \<Rightarrow> ('s, 'a) km" where
  "kget f = (\<lambda>s. (Ret (f s), s))"

definition kmod :: "('s \<Rightarrow> 's) \<Rightarrow> ('s, unit) km" where
  "kmod f = (\<lambda>s. (Ret (), f s))"

definition kbind :: "('s, 'a) km \<Rightarrow> ('a \<Rightarrow> ('s, 'b) km) \<Rightarrow> ('s, 'b) km" where
  "kbind m f = (\<lambda>s. case m s of (Ret a, s') \<Rightarrow> f a s' | (Exc e, s') \<Rightarrow> (Exc e, s'))"

definition kthen :: "('s, 'a) km \<Rightarrow> ('s, 'b) km \<Rightarrow> ('s, 'b) km" where
  "kthen m n = kbind m (\<lambda>_. n)"

primrec kseq :: "('s, unit) km list \<Rightarrow> ('s, unit) km" where
  "kseq [] = kret ()"
| "kseq (m # ms) = kthen m (kseq ms)"

definition kwhen :: "bool \<Rightarrow> ('s, unit) km \<Rightarrow> ('s, unit) km" where
  "kwhen b m = (if b then m else kret ())"

definition kderef :: "'a option \<Rightarrow> ('s, 'a) km" where
  "kderef p = (case p of None \<Rightarrow> kexc (Fault ''null pointer'') | Some a \<Rightarrow> kret a)"

abbreviation kpanic :: "string \<Rightarrow> ('s, 'a) km" where
  "kpanic msg \<equiv> kexc (Panic msg)"

primrec kfor :: "'i list \<Rightarrow> ('i \<Rightarrow> ('s, unit) km) \<Rightarrow> ('s, unit) km" where
  "kfor [] f = kret ()"
| "kfor (i # is) f = kthen (f i) (kfor is f)"

definition wp :: "('s, 'a) km \<Rightarrow> ('a \<Rightarrow> 's \<Rightarrow> bool) \<Rightarrow> (exn \<Rightarrow> 's \<Rightarrow> bool) \<Rightarrow> 's \<Rightarrow> bool" where
  "wp m Q E s = (case m s of (Ret a, s') \<Rightarrow> Q a s' | (Exc e, s') \<Rightarrow> E e s')"

definition unch :: "('s \<Rightarrow> 'x) \<Rightarrow> ('s, 'a) km \<Rightarrow> bool" where
  "unch f m \<longleftrightarrow> (\<forall>s. f (snd (m s)) = f s)"

named_theorems unch_rules "operations that leave a part of the state unchanged"

section \<open>Functions\<close>

lemma fun_upd_bool_id [simp]: "\<not> f a \<Longrightarrow> f(a := False) = f" "f a \<Longrightarrow> f(a := True) = f"
  by (auto simp: fun_eq_iff)

section \<open>Words\<close>

lemma unat_lt64: "unat (a :: u64) < 18446744073709551616"
  using unsigned_less [of a, where 'a = nat] by simp

lemma unat_lt32: "unat (a :: u32) < 4294967296"
  using unsigned_less [of a, where 'a = nat] by simp

lemma unat_of_nat64 [simp]: "n < 18446744073709551616 \<Longrightarrow> unat (of_nat n :: u64) = n"
  by (simp add: unat_of_nat)

lemma unat_of_nat32 [simp]: "n < 4294967296 \<Longrightarrow> unat (of_nat n :: u32) = n"
  by (simp add: unat_of_nat)

lemma unat_add64: "unat (a + b :: u64) = (unat a + unat b) mod 18446744073709551616"
  by (simp add: unat_word_ariths)

lemma unat_ucast_32_64 [simp]: "unat (ucast (n :: u32) :: u64) = unat n"
proof -
  have "unat n < 2 ^ 64" using unat_lt32 [of n] by simp
  then show ?thesis by (simp add: unsigned_ucast_eq take_bit_eq_mod)
qed

section \<open>Running operations\<close>

lemma kret_apply [simp]: "kret a s = (Ret a, s)"
  by (simp add: kret_def)

lemma kexc_apply [simp]: "kexc e s = (Exc e, s)"
  by (simp add: kexc_def)

lemma kget_apply [simp]: "kget f s = (Ret (f s), s)"
  by (simp add: kget_def)

lemma kmod_apply [simp]: "kmod f s = (Ret (), f s)"
  by (simp add: kmod_def)

lemma kbind_Ret [simp]: "m s = (Ret a, s') \<Longrightarrow> kbind m f s = f a s'"
  by (simp add: kbind_def)

lemma kbind_Exc [simp]: "m s = (Exc e, s') \<Longrightarrow> kbind m f s = (Exc e, s')"
  by (simp add: kbind_def)

lemma kthen_Ret [simp]: "m s = (Ret a, s') \<Longrightarrow> kthen m n s = n s'"
  by (simp add: kthen_def)

lemma kthen_Exc [simp]: "m s = (Exc e, s') \<Longrightarrow> kthen m n s = (Exc e, s')"
  by (simp add: kthen_def)

lemma kbind_kbind [simp]: "kbind (kbind m f) g = kbind m (\<lambda>a. kbind (f a) g)"
  by (rule ext) (auto simp: kbind_def split: prod.splits res.splits)

lemma kbind_kthen [simp]: "kbind (kthen m n) f = kthen m (kbind n f)"
  by (simp add: kthen_def)

lemma kthen_kbind [simp]: "kthen (kbind m f) n = kbind m (\<lambda>a. kthen (f a) n)"
  by (simp add: kthen_def)

lemma kthen_kthen [simp]: "kthen (kthen a b) c = kthen a (kthen b c)"
  by (simp add: kthen_def)

lemma kbind_kret [simp]: "kbind (kret a) f = f a"
  by (simp add: kbind_def fun_eq_iff)

lemma kthen_kret [simp]: "kthen (kret a) n = n"
  by (simp add: kthen_def)

lemma kbind_kret_right [simp]: "kbind m kret = m"
  by (rule ext) (auto simp: kbind_def split: prod.splits res.splits)

lemma kbind_kget [simp]: "kbind (kget f) g s = g (f s) s"
  by (simp add: kbind_def)

lemma kbind_kexc [simp]: "kbind (kexc e) f = kexc e"
  by (simp add: kbind_def fun_eq_iff)

lemma kthen_kexc [simp]: "kthen (kexc e) n = kexc e"
  by (simp add: kthen_def)

lemma kthen_kget [simp]: "kthen (kget f) n s = n s"
  by (simp add: kthen_def)

lemma kthen_kmod [simp]: "kthen (kmod f) n s = n (f s)"
  by (simp add: kthen_def)

lemma kthen_if [simp]: "kthen (if b then m else n) k = (if b then kthen m k else kthen n k)"
  by simp

lemma kbind_if [simp]: "kbind (if b then m else n) f = (if b then kbind m f else kbind n f)"
  by simp

lemma kwhen_True [simp]: "kwhen True m = m" and kwhen_False [simp]: "kwhen False m = kret ()"
  by (simp_all add: kwhen_def)

lemma kderef_Some [simp]: "kderef (Some a) = kret a"
  by (simp add: kderef_def)

lemma kderef_None [simp]: "kderef None = kexc (Fault ''null pointer'')"
  by (simp add: kderef_def)

lemma kbind_RetD:
  assumes "kbind m f s = (Ret b, s'')"
  obtains a s' where "m s = (Ret a, s')" and "f a s' = (Ret b, s'')"
  using assms by (auto simp: kbind_def split: prod.splits res.splits)

lemma kthen_RetD:
  assumes "kthen m n s = (Ret b, s'')"
  obtains a s' where "m s = (Ret a, s')" and "n s' = (Ret b, s'')"
  using assms by (auto simp: kthen_def elim: kbind_RetD)

section \<open>Weakest preconditions\<close>

lemma wp_kret [simp]: "wp (kret a) Q E s = Q a s"
  by (simp add: wp_def)

lemma wp_kexc [simp]: "wp (kexc e) Q E s = E e s"
  by (simp add: wp_def)

lemma wp_kget [simp]: "wp (kget f) Q E s = Q (f s) s"
  by (simp add: wp_def)

lemma wp_kmod [simp]: "wp (kmod f) Q E s = Q () (f s)"
  by (simp add: wp_def)

lemma wp_kbind [simp]: "wp (kbind m f) Q E s = wp m (\<lambda>a. wp (f a) Q E) E s"
  by (auto simp: wp_def kbind_def split: prod.splits res.splits)

lemma wp_kthen [simp]: "wp (kthen m n) Q E s = wp m (\<lambda>_. wp n Q E) E s"
  by (simp add: kthen_def)

lemmas wp_kbindI = wp_kbind [THEN iffD2] and wp_kthenI = wp_kthen [THEN iffD2]
  and wp_kmodI = wp_kmod [THEN iffD2] and wp_kgetI = wp_kget [THEN iffD2] and wp_kretI = wp_kret [THEN iffD2]

lemma wp_if: "wp (if b then m else n) Q E s = (if b then wp m Q E s else wp n Q E s)"
  by simp

lemma wp_mono:
  "wp m Q E s \<Longrightarrow> (\<And>a s'. Q a s' \<Longrightarrow> Q' a s') \<Longrightarrow> (\<And>e s'. E e s' \<Longrightarrow> E' e s') \<Longrightarrow> wp m Q' E' s"
  by (auto simp: wp_def split: prod.splits res.splits)

lemma wp_conj: "wp m Q E s \<Longrightarrow> wp m Q' E' s \<Longrightarrow> wp m (\<lambda>a s. Q a s \<and> Q' a s) (\<lambda>e s. E e s \<and> E' e s) s"
  by (auto simp: wp_def split: prod.splits res.splits)

lemma wp_eqI: "m s = (Ret a, s') \<Longrightarrow> Q a s' \<Longrightarrow> wp m Q E s"
  by (simp add: wp_def)

section \<open>Frame rules\<close>

lemma unchD: "unch f m \<Longrightarrow> m s = (r, s') \<Longrightarrow> f s' = f s"
  by (metis snd_conv unch_def)

lemma unch_kret [unch_rules, intro!]: "unch f (kret a)"
  by (simp add: unch_def)

lemma unch_kexc [unch_rules, intro!]: "unch f (kexc e)"
  by (simp add: unch_def)

lemma unch_kget [unch_rules, intro!]: "unch f (kget g)"
  by (simp add: unch_def)

lemma unch_kmod [unch_rules]: "(\<And>s. f (g s) = f s) \<Longrightarrow> unch f (kmod g)"
  by (simp add: unch_def)

lemma unch_kbind [unch_rules]: "unch f m \<Longrightarrow> (\<And>a. unch f (g a)) \<Longrightarrow> unch f (kbind m g)"
  unfolding unch_def kbind_def
  by (auto split: prod.splits res.splits) (metis snd_conv)+

lemma unch_kthen [unch_rules]: "unch f m \<Longrightarrow> unch f n \<Longrightarrow> unch f (kthen m n)"
  by (simp add: kthen_def unch_kbind)

lemma unch_if [unch_rules]: "(b \<Longrightarrow> unch f m) \<Longrightarrow> (\<not> b \<Longrightarrow> unch f n) \<Longrightarrow> unch f (if b then m else n)"
  by simp

lemma unch_case_option [unch_rules]:
  "unch f m \<Longrightarrow> (\<And>a. unch f (n a)) \<Longrightarrow> unch f (case x of None \<Rightarrow> m | Some a \<Rightarrow> n a)"
  by (cases x) auto

lemma unch_case_prod [unch_rules]:
  "(\<And>a b. unch f (n a b)) \<Longrightarrow> unch f (case x of (a, b) \<Rightarrow> n a b)"
  by (cases x) auto

lemma unch_let [unch_rules]: "(\<And>x. unch f (m x)) \<Longrightarrow> unch f (let x = a in m x)"
  by simp

lemma unch_kwhen [unch_rules]: "unch f m \<Longrightarrow> unch f (kwhen b m)"
  by (cases b) auto

lemma unch_kderef [unch_rules, intro!]: "unch f (kderef p)"
  by (cases p) auto

lemma unch_kseq_Nil [unch_rules]: "unch f (kseq [])"
  by auto

lemma unch_kseq_Cons [unch_rules]: "unch f m \<Longrightarrow> unch f (kseq ms) \<Longrightarrow> unch f (kseq (m # ms))"
  by (auto intro: unch_kthen)

lemma unch_kfor [unch_rules]: "(\<And>i. unch f (g i)) \<Longrightarrow> unch f (kfor is g)"
  by (induction "is") (auto intro: unch_kthen)

lemma unch_pair: "unch f m \<Longrightarrow> unch g m \<Longrightarrow> unch (\<lambda>s. (f s, g s)) m"
  by (simp add: unch_def)

lemma unch_comp: "unch f m \<Longrightarrow> unch (\<lambda>s. h (f s)) m"
  by (simp add: unch_def)

section \<open>Operations that move along a relation\<close>

text \<open>
  \<open>moves R m\<close>: whatever its outcome, \<open>m\<close> leaves a state that \<open>R\<close> relates to the one it started
  from. For a reflexive and transitive \<open>R\<close> the rules below take an operation apart.
\<close>

definition moves :: "('s \<Rightarrow> 's \<Rightarrow> bool) \<Rightarrow> ('s, 'a) km \<Rightarrow> bool" where
  "moves R m \<longleftrightarrow> (\<forall>s. R s (snd (m s)))"

lemma movesD: "moves R m \<Longrightarrow> m s = (r, s') \<Longrightarrow> R s s'"
  by (metis moves_def snd_conv)

lemma moves_mono: "moves R m \<Longrightarrow> (\<And>s t. R s t \<Longrightarrow> R' s t) \<Longrightarrow> moves R' m"
  by (simp add: moves_def)

text \<open>
  \<open>lives R m\<close> asks the same of the outcomes after which the kernel goes on: a normal return, and
  a switch to the scheduler.
\<close>

definition live :: "'a res \<Rightarrow> bool" where
  "live r \<longleftrightarrow> (case r of Ret _ \<Rightarrow> True | Exc e \<Rightarrow> e = Switch)"

definition lives :: "('s \<Rightarrow> 's \<Rightarrow> bool) \<Rightarrow> ('s, 'a) km \<Rightarrow> bool" where
  "lives R m \<longleftrightarrow> (\<forall>s. live (fst (m s)) \<longrightarrow> R s (snd (m s)))"

lemma live_simps [simp]: "live (Ret a)" "live (Exc e) \<longleftrightarrow> e = Switch"
  by (simp_all add: live_def)

lemma lives_moves: "moves R m \<Longrightarrow> lives R m"
  by (simp add: moves_def lives_def)

lemma livesD: "lives R m \<Longrightarrow> m s = (r, t) \<Longrightarrow> live r \<Longrightarrow> R s t"
  unfolding lives_def by (metis fst_conv snd_conv)

lemma lives_wp:
  assumes "\<And>s. wp m (\<lambda>_ t. R s t) (\<lambda>e t. e = Switch \<longrightarrow> R s t) s"
  shows "lives R m"
  unfolding lives_def
proof (intro allI impI)
  fix s
  assume l: "live (fst (m s))"
  obtain r t where ms: "m s = (r, t)" by (cases "m s")
  then show "R s (snd (m s))" using assms [of s] l by (cases r) (simp_all add: wp_def)
qed

locale state_rel =
  fixes R :: "'s \<Rightarrow> 's \<Rightarrow> bool"
  assumes refl: "R s s"
    and trans: "R s t \<Longrightarrow> R t u \<Longrightarrow> R s u"
begin

lemma m_kret: "moves R (kret a)"
  by (simp add: moves_def refl)

lemma m_kexc: "moves R (kexc e)"
  by (simp add: moves_def refl)

lemma m_kget: "moves R (kget g)"
  by (simp add: moves_def refl)

lemma m_kmod: "(\<And>s. R s (g s)) \<Longrightarrow> moves R (kmod g)"
  by (simp add: moves_def)

lemma m_kbind: "moves R m \<Longrightarrow> (\<And>a. moves R (f a)) \<Longrightarrow> moves R (kbind m f)"
  unfolding moves_def kbind_def
  by (auto split: prod.splits res.splits) (metis snd_conv trans)+

lemma m_kthen: "moves R m \<Longrightarrow> moves R n \<Longrightarrow> moves R (kthen m n)"
  by (simp add: kthen_def m_kbind)

lemma m_if: "(b \<Longrightarrow> moves R m) \<Longrightarrow> (\<not> b \<Longrightarrow> moves R n) \<Longrightarrow> moves R (if b then m else n)"
  by simp

lemma m_case_option: "moves R m \<Longrightarrow> (\<And>a. moves R (n a)) \<Longrightarrow> moves R (case x of None \<Rightarrow> m | Some a \<Rightarrow> n a)"
  by (cases x) auto

lemma m_case_prod: "(\<And>a b. moves R (n a b)) \<Longrightarrow> moves R (case x of (a, b) \<Rightarrow> n a b)"
  by (cases x) auto

lemma m_case_list: "moves R m \<Longrightarrow> (\<And>a as. moves R (n a as)) \<Longrightarrow> moves R (case x of [] \<Rightarrow> m | a # as \<Rightarrow> n a as)"
  by (cases x) auto

lemma m_case_sum: "(\<And>a. moves R (m a)) \<Longrightarrow> (\<And>a. moves R (n a)) \<Longrightarrow> moves R (case x of Inl a \<Rightarrow> m a | Inr a \<Rightarrow> n a)"
  by (cases x) auto

lemma m_kwhen: "moves R m \<Longrightarrow> moves R (kwhen b m)"
  by (cases b) (auto intro: m_kret)

lemma m_kderef: "moves R (kderef p)"
  by (cases p) (auto intro: m_kret m_kexc simp del: kret_apply kexc_apply)

lemma m_kfor: "(\<And>i. moves R (g i)) \<Longrightarrow> moves R (kfor is g)"
  by (induction "is") (auto intro: m_kret m_kthen)

lemma m_kseq_Nil: "moves R (kseq [])"
  by (simp add: m_kret)

lemma m_kseq_Cons: "moves R m \<Longrightarrow> moves R (kseq ms) \<Longrightarrow> moves R (kseq (m # ms))"
  by (simp add: m_kthen)

lemma m_unch: "unch f m \<Longrightarrow> (\<And>s t. f t = f s \<Longrightarrow> R s t) \<Longrightarrow> moves R m"
  by (simp add: moves_def unch_def)

lemma l_kbind:
  assumes m: "lives R m" and f: "\<And>a. lives R (f a)"
  shows "lives R (kbind m f)"
  unfolding lives_def
proof (intro allI impI)
  fix s
  assume l: "live (fst (kbind m f s))"
  obtain r s' where ms: "m s = (r, s')" by (cases "m s")
  show "R s (snd (kbind m f s))"
  proof (cases r)
    case (Ret a)
    have "R s s'" using livesD [OF m ms] Ret by simp
    moreover obtain r' s'' where fs: "f a s' = (r', s'')" by (cases "f a s'")
    ultimately show ?thesis using livesD [OF f fs] l Ret ms trans by simp
  next
    case (Exc e)
    then show ?thesis using livesD [OF m ms] l ms by simp
  qed
qed

lemma l_kthen: "lives R m \<Longrightarrow> lives R n \<Longrightarrow> lives R (kthen m n)"
  by (simp add: kthen_def l_kbind)

lemma l_if: "(b \<Longrightarrow> lives R m) \<Longrightarrow> (\<not> b \<Longrightarrow> lives R n) \<Longrightarrow> lives R (if b then m else n)"
  by simp

lemma l_case_option: "lives R m \<Longrightarrow> (\<And>a. lives R (n a)) \<Longrightarrow> lives R (case x of None \<Rightarrow> m | Some a \<Rightarrow> n a)"
  by (cases x) auto

lemma l_case_prod: "(\<And>a b. lives R (n a b)) \<Longrightarrow> lives R (case x of (a, b) \<Rightarrow> n a b)"
  by (cases x) auto

lemma l_case_sum: "(\<And>a. lives R (m a)) \<Longrightarrow> (\<And>a. lives R (n a)) \<Longrightarrow> lives R (case x of Inl a \<Rightarrow> m a | Inr a \<Rightarrow> n a)"
  by (cases x) auto

lemma l_kwhen: "lives R m \<Longrightarrow> lives R (kwhen b m)"
  by (cases b) (auto intro: lives_moves m_kret)

lemma l_kfor: "(\<And>i. lives R (g i)) \<Longrightarrow> lives R (kfor is g)"
  by (induction "is") (auto intro: lives_moves m_kret l_kthen)

lemmas lives_rules = l_kbind l_kthen l_if l_case_option l_case_prod l_case_sum l_kwhen l_kfor
  lives_moves [OF m_kret] lives_moves [OF m_kexc] lives_moves [OF m_kget] lives_moves [OF m_kderef]

lemmas split_rules = m_kret m_kexc m_kget m_kbind m_kthen m_if m_case_option m_case_prod m_case_list m_case_sum
  m_kwhen m_kderef m_kfor m_kseq_Nil m_kseq_Cons

end

section \<open>Operations that do not give up the CPU\<close>

definition nosw :: "('s, 'a) km \<Rightarrow> bool" where
  "nosw m \<longleftrightarrow> (\<forall>s. fst (m s) \<noteq> Exc Switch)"

named_theorems nosw_rules "operations that never switch to the scheduler"

lemma nosw_kret: "nosw (kret a)" and nosw_kget: "nosw (kget g)" and nosw_kmod: "nosw (kmod h)"
  by (simp_all add: nosw_def)

lemma nosw_kexc: "e \<noteq> Switch \<Longrightarrow> nosw (kexc e)"
  by (simp add: nosw_def)

lemma nosw_kbind: "nosw m \<Longrightarrow> (\<And>a. nosw (f a)) \<Longrightarrow> nosw (kbind m f)"
  unfolding nosw_def kbind_def
  by (auto split: prod.splits res.splits) (metis fst_conv)+

lemma nosw_kthen: "nosw m \<Longrightarrow> nosw n \<Longrightarrow> nosw (kthen m n)"
  by (simp add: kthen_def nosw_kbind)

lemma nosw_if: "(b \<Longrightarrow> nosw m) \<Longrightarrow> (\<not> b \<Longrightarrow> nosw n) \<Longrightarrow> nosw (if b then m else n)"
  by simp

lemma nosw_case_option: "nosw m \<Longrightarrow> (\<And>a. nosw (n a)) \<Longrightarrow> nosw (case x of None \<Rightarrow> m | Some a \<Rightarrow> n a)"
  by (cases x) auto

lemma nosw_case_prod: "(\<And>a b. nosw (n a b)) \<Longrightarrow> nosw (case x of (a, b) \<Rightarrow> n a b)"
  by (cases x) auto

lemma nosw_kwhen: "nosw m \<Longrightarrow> nosw (kwhen b m)"
  by (cases b) (auto intro: nosw_kret)

lemma nosw_kderef: "nosw (kderef p)"
  by (cases p) (auto intro: nosw_kret nosw_kexc simp del: kret_apply kexc_apply)

lemma nosw_kfor: "(\<And>i. nosw (g i)) \<Longrightarrow> nosw (kfor is g)"
  by (induction "is") (auto intro: nosw_kret nosw_kthen)

lemmas nosw_split = nosw_kret nosw_kexc nosw_kget nosw_kmod nosw_kbind nosw_kthen nosw_if nosw_case_option nosw_case_prod
  nosw_kwhen nosw_kderef nosw_kfor

section \<open>Loops over an index range\<close>

lemma kthen_unit: "kthen m (kret ()) = m"
  by (rule ext) (auto simp: kthen_def kbind_def split: prod.splits res.splits)

lemma kfor_append: "kfor (xs @ ys) f = kthen (kfor xs f) (kfor ys f)"
  by (induction xs) simp_all

lemma kfor_upt_Suc: "kfor [0..<k] f s = (Ret (), t) \<Longrightarrow> kfor [0..<Suc k] f s = f k t"
  by (simp add: kfor_append kthen_unit)

end
