(* ===== verification/Xv6_Mem.thy ===== *)
theory Xv6_Mem
  imports Xv6_Params
begin

text \<open>
  Physical memory as a function from 64-bit addresses to bytes, little-endian loads and
  stores of words, and the routines of \<^verbatim>\<open>kernel/string.c\<close> as loops over that memory.

  The loops are the source's loops: \<open>memset\<close> and the two directions of \<open>memmove\<close> are folds
  over the index range in the order the code visits it, the string routines recurse on the
  remaining count. The lemmas give each of them its meaning without a loop: \<open>memmove\<close>
  is a simultaneous copy even where the ranges overlap, \<open>memcmp\<close> and \<open>strncmp\<close> compare
  lexicographically, \<open>strncpy\<close> and \<open>safestrcpy\<close> refine list functions on the buffers.
\<close>

type_synonym memory = "u64 \<Rightarrow> u8"

section \<open>Loads and stores\<close>

definition mem_bytes :: "memory \<Rightarrow> u64 \<Rightarrow> nat \<Rightarrow> u8 list" where
  "mem_bytes m a n = map (\<lambda>i. m (a + of_nat i)) [0..<n]"

definition store_bytes :: "memory \<Rightarrow> u64 \<Rightarrow> u8 list \<Rightarrow> memory" where
  "store_bytes m a bs = (\<lambda>x. if unat (x - a) < length bs then bs ! unat (x - a) else m x)"

definition le_word :: "u8 list \<Rightarrow> 'a::len word" where
  "le_word bs = foldr (\<lambda>b w. ucast b OR push_bit 8 w) bs 0"

definition le_bytes :: "nat \<Rightarrow> 'a::len word \<Rightarrow> u8 list" where
  "le_bytes n w = map (\<lambda>i. ucast (drop_bit (8 * i) w)) [0..<n]"

definition load64 :: "memory \<Rightarrow> u64 \<Rightarrow> u64" where
  "load64 m a = le_word (mem_bytes m a 8)"

definition store64 :: "memory \<Rightarrow> u64 \<Rightarrow> u64 \<Rightarrow> memory" where
  "store64 m a v = store_bytes m a (le_bytes 8 v)"

definition load32 :: "memory \<Rightarrow> u64 \<Rightarrow> u32" where
  "load32 m a = le_word (mem_bytes m a 4)"

definition store32 :: "memory \<Rightarrow> u64 \<Rightarrow> u32 \<Rightarrow> memory" where
  "store32 m a v = store_bytes m a (le_bytes 4 v)"

section \<open>string.c\<close>

definition memset :: "memory \<Rightarrow> u64 \<Rightarrow> int \<Rightarrow> u32 \<Rightarrow> memory" where
  "memset m dst c n = fold (\<lambda>i m. m(dst + of_nat i := word_of_int c)) [0..<unat n] m"

primrec memcmp_n :: "memory \<Rightarrow> u64 \<Rightarrow> u64 \<Rightarrow> nat \<Rightarrow> int" where
  "memcmp_n m s1 s2 0 = 0"
| "memcmp_n m s1 s2 (Suc n) =
     (if m s1 \<noteq> m s2 then uint (m s1) - uint (m s2) else memcmp_n m (s1 + 1) (s2 + 1) n)"

definition memcmp :: "memory \<Rightarrow> u64 \<Rightarrow> u64 \<Rightarrow> u32 \<Rightarrow> int" where
  "memcmp m v1 v2 n = memcmp_n m v1 v2 (unat n)"

definition copy_up :: "memory \<Rightarrow> u64 \<Rightarrow> u64 \<Rightarrow> nat \<Rightarrow> memory" where
  "copy_up m d s n = fold (\<lambda>i m. m(d + of_nat i := m (s + of_nat i))) [0..<n] m"

definition copy_down :: "memory \<Rightarrow> u64 \<Rightarrow> u64 \<Rightarrow> nat \<Rightarrow> memory" where
  "copy_down m d s n = fold (\<lambda>i m. m(d + of_nat i := m (s + of_nat i))) (rev [0..<n]) m"

definition memmove :: "memory \<Rightarrow> u64 \<Rightarrow> u64 \<Rightarrow> u32 \<Rightarrow> memory" where
  "memmove m d s n =
     (if n = 0 then m
      else if s < d \<and> s + ucast n > d then copy_down m d s (unat n)
      else copy_up m d s (unat n))"

definition memcpy :: "memory \<Rightarrow> u64 \<Rightarrow> u64 \<Rightarrow> u32 \<Rightarrow> memory" where
  "memcpy m dst src n = memmove m dst src n"

primrec strncmp_n :: "memory \<Rightarrow> u64 \<Rightarrow> u64 \<Rightarrow> nat \<Rightarrow> int" where
  "strncmp_n m p q 0 = 0"
| "strncmp_n m p q (Suc n) =
     (if m p \<noteq> 0 \<and> m p = m q then strncmp_n m (p + 1) (q + 1) n
      else uint (m p) - uint (m q))"

definition strncmp :: "memory \<Rightarrow> u64 \<Rightarrow> u64 \<Rightarrow> u32 \<Rightarrow> int" where
  "strncmp m p q n = strncmp_n m p q (unat n)"

primrec zero_fill :: "memory \<Rightarrow> u64 \<Rightarrow> nat \<Rightarrow> memory" where
  "zero_fill m s 0 = m"
| "zero_fill m s (Suc n) = zero_fill (m(s := 0)) (s + 1) n"

primrec strncpy_n :: "memory \<Rightarrow> u64 \<Rightarrow> u64 \<Rightarrow> nat \<Rightarrow> memory" where
  "strncpy_n m s t 0 = m"
| "strncpy_n m s t (Suc n) =
     (let c = m t; m' = m(s := c)
      in if c \<noteq> 0 then strncpy_n m' (s + 1) (t + 1) n else zero_fill m' (s + 1) n)"

definition strncpy :: "memory \<Rightarrow> u64 \<Rightarrow> u64 \<Rightarrow> int \<Rightarrow> memory" where
  "strncpy m s t n = strncpy_n m s t (nat n)"

primrec safestrcpy_n :: "memory \<Rightarrow> u64 \<Rightarrow> u64 \<Rightarrow> nat \<Rightarrow> memory" where
  "safestrcpy_n m s t 0 = m(s := 0)"
| "safestrcpy_n m s t (Suc n) =
     (let c = m t; m' = m(s := c)
      in if c \<noteq> 0 then safestrcpy_n m' (s + 1) (t + 1) n else m'(s + 1 := 0))"

definition safestrcpy :: "memory \<Rightarrow> u64 \<Rightarrow> u64 \<Rightarrow> int \<Rightarrow> memory" where
  "safestrcpy m s t n = (if n \<le> 0 then m else safestrcpy_n m s t (nat n - 1))"

partial_function (option) strlen_from :: "memory \<Rightarrow> u64 \<Rightarrow> nat \<Rightarrow> nat option" where
  "strlen_from m s n = (if m (s + of_nat n) \<noteq> 0 then strlen_from m s (Suc n) else Some n)"

definition strlen :: "memory \<Rightarrow> u64 \<Rightarrow> nat option" where
  "strlen m s = strlen_from m s 0"

text \<open>
  Lists as buffers: the part of a buffer before its first NUL, and \<open>safestrcpy\<close> and
  \<open>strncpy\<close> on buffers that are not in physical pages (struct fields and locals).
\<close>

definition cstr :: "u8 list \<Rightarrow> u8 list" where
  "cstr bs = takeWhile (\<lambda>b. b \<noteq> 0) bs"

fun safestrcpy_l :: "u8 list \<Rightarrow> u8 list \<Rightarrow> u8 list" where
  "safestrcpy_l [] src = []"
| "safestrcpy_l [d] src = [0]"
| "safestrcpy_l (d # d' # ds) [] = d # d' # ds"
| "safestrcpy_l (d # d' # ds) (c # cs) =
     (if c \<noteq> 0 then c # safestrcpy_l (d' # ds) cs else 0 # 0 # ds)"

definition strncpy_l :: "u8 list \<Rightarrow> nat \<Rightarrow> u8 list" where
  "strncpy_l src n = (let t = cstr (take n src) in t @ replicate (n - length t) 0)"

section \<open>Words and bytes\<close>

lemma length_mem_bytes [simp]: "length (mem_bytes m a n) = n"
  by (simp add: mem_bytes_def)

lemma length_le_bytes [simp]: "length (le_bytes n w) = n"
  by (simp add: le_bytes_def)

lemma nth_mem_bytes [simp]: "i < n \<Longrightarrow> mem_bytes m a n ! i = m (a + of_nat i)"
  by (simp add: mem_bytes_def)

lemma mem_bytes_cong:
  "(\<And>i. i < n \<Longrightarrow> m (a + of_nat i) = m' (b + of_nat i)) \<Longrightarrow> mem_bytes m a n = mem_bytes m' b n"
  by (simp add: mem_bytes_def)

lemma unat_offset: "i < n \<Longrightarrow> n \<le> 2 ^ 64 \<Longrightarrow> unat ((a :: u64) + of_nat i - a) = i"
  by simp

lemma mem_bytes_store_bytes_same [simp]:
  "length bs \<le> 2 ^ 64 \<Longrightarrow> mem_bytes (store_bytes m a bs) a (length bs) = bs"
  by (rule nth_equalityI) (simp_all add: store_bytes_def)

lemma bit_le_word:
  "bit (le_word bs :: 'a::len word) k \<longleftrightarrow> k < LENGTH('a) \<and> k div 8 < length bs \<and> bit (bs ! (k div 8)) (k mod 8)"
proof (induction bs arbitrary: k)
  case Nil
  then show ?case by (simp add: le_word_def)
next
  case (Cons b bs)
  have "le_word (b # bs) = (ucast b OR push_bit 8 (le_word bs) :: 'a word)"
    by (simp add: le_word_def)
  moreover have "k < 8 \<Longrightarrow> k div 8 = 0 \<and> k mod 8 = k" by simp
  moreover have "\<not> k < 8 \<Longrightarrow> k div 8 = Suc ((k - 8) div 8) \<and> k mod 8 = (k - 8) mod 8"
    by (simp add: le_div_geq le_mod_geq)
  ultimately show ?case
    using Cons.IH [of "k - 8"]
    by (cases "k < 8") (auto simp: bit_simps dest: bit_imp_le_length)
qed

lemma nth_le_bytes: "i < n \<Longrightarrow> le_bytes n w ! i = ucast (drop_bit (8 * i) w)"
  by (simp add: le_bytes_def)

lemma le_word_le_bytes: "LENGTH('a) \<le> 8 * n \<Longrightarrow> le_word (le_bytes n w) = (w :: 'a::len word)"
proof (rule bit_word_eqI)
  fix k assume n: "LENGTH('a) \<le> 8 * n" and k: "k < LENGTH('a)"
  then have "k div 8 < n" by auto
  moreover have "k mod 8 < Suc (Suc (Suc (Suc (Suc (Suc (Suc (Suc 0)))))))" by presburger
  moreover have "8 * (k div 8) + k mod 8 = k" by simp
  ultimately show "bit (le_word (le_bytes n w) :: 'a word) k = bit w k"
    using k by (simp add: bit_le_word nth_le_bytes bit_unsigned_iff bit_drop_bit_eq add.commute)
qed

lemma load64_store64 [simp]: "load64 (store64 m a v) a = v"
  using mem_bytes_store_bytes_same [of "le_bytes 8 v" m a]
  by (simp add: load64_def store64_def le_word_le_bytes)

lemma load32_store32 [simp]: "load32 (store32 m a v) a = v"
  using mem_bytes_store_bytes_same [of "le_bytes 4 v" m a]
  by (simp add: load32_def store32_def le_word_le_bytes)

lemma load64_cong: "(\<And>i. i < 8 \<Longrightarrow> m (a + of_nat i) = m' (a + of_nat i)) \<Longrightarrow> load64 m a = load64 m' a"
  unfolding load64_def by (rule arg_cong [of _ _ le_word], rule mem_bytes_cong) auto

lemma store64_apply: "store64 m a v x = (if unat (x - a) < 8 then le_bytes 8 v ! unat (x - a) else m x)"
  by (simp add: store64_def store_bytes_def)

text \<open>Two eight-byte cells at different aligned addresses do not overlap.\<close>

definition cell_aligned :: "u64 \<Rightarrow> bool" where
  "cell_aligned a \<longleftrightarrow> unat a mod 8 = 0"

lemma cell_disjoint:
  assumes "cell_aligned a" "cell_aligned b" "a \<noteq> b" "i < 8"
  shows "\<not> unat (b + of_nat i - a) < 8"
proof
  assume less: "unat (b + of_nat i - a) < 8"
  define j where "j = unat (b + of_nat i - a)"
  have "b + of_nat i = a + of_nat j"
    by (simp add: j_def)
  moreover have j: "j < 8" using less by (simp add: j_def)
  ultimately have "unat (b + of_nat i) = unat (a + of_nat j)" by simp
  moreover have "unat (b + of_nat i) = unat b + i"
  proof -
    have "unat b + i < 2 ^ 64"
      using assms(2,4) unat_lt64 [of b] by (simp add: cell_aligned_def) presburger
    then show ?thesis using assms(4) by (simp add: unat_add64)
  qed
  moreover have "unat (a + of_nat j) = unat a + j"
  proof -
    have "unat a + j < 2 ^ 64"
      using assms(1) j unat_lt64 [of a] by (simp add: cell_aligned_def) presburger
    then show ?thesis using j by (simp add: unat_add64)
  qed
  ultimately have "unat b + i = unat a + j" by simp
  then have "unat b = unat a"
    using assms(1,2,4) j unfolding cell_aligned_def by presburger
  with assms(3) show False by (simp add: word_unat_eq_iff)
qed

lemma load64_store64_other:
  "cell_aligned a \<Longrightarrow> cell_aligned b \<Longrightarrow> a \<noteq> b \<Longrightarrow> load64 (store64 m a v) b = load64 m b"
  by (rule load64_cong) (simp add: store64_apply cell_disjoint)

section \<open>memset and memmove\<close>

lemma memset_fold:
  "k \<le> 2 ^ 64 \<Longrightarrow>
   fold (\<lambda>i m. m(d + of_nat i := c)) [0..<k] m x = (if unat (x - d :: u64) < k then c else (m :: memory) x)"
proof (induction k)
  case 0
  then show ?case by simp
next
  case (Suc k)
  have "x = d + of_nat k \<longleftrightarrow> unat (x - d) = k"
    using Suc.prems by (auto simp: unat_of_nat64)
  with Suc show ?case by (auto simp: less_Suc_eq)
qed

lemma memset_apply: "memset m d c n x = (if unat (x - d) < unat n then word_of_int c else m x)"
  using unat_lt32 [of n] by (simp add: memset_def memset_fold)

lemma unat_x_minus:
  fixes d s x :: u64
  assumes "unat (x - d) = j" shows "x = d + of_nat j" and "s + (x - d) = s + of_nat j"
  using assms by auto

lemma copy_up_apply:
  assumes "unat d \<le> unat s \<or> unat s + n \<le> unat d" and "unat s + n \<le> 2 ^ 64" and "unat d + n \<le> 2 ^ 64"
  shows "copy_up m d s n x = (if unat (x - d) < n then m (s + (x - d)) else m x)"
proof -
  have "k \<le> n \<Longrightarrow> fold (\<lambda>i m. m(d + of_nat i := m (s + of_nat i))) [0..<k] m x
      = (if unat (x - d) < k then m (s + (x - d)) else m x)" for k x
  proof (induction k arbitrary: x)
    case 0
    then show ?case by simp
  next
    case (Suc k)
    have k: "k < 2 ^ 64" and kn: "k < n" using Suc.prems assms(2) by simp_all
    have "unat (s + of_nat k - d) \<ge> k"
      using assms k kn unat_lt64 [of d]
      by (auto simp: unat_sub_if_size unat_add64 word_size nat_less_le)
    then have "fold (\<lambda>i m. m(d + of_nat i := m (s + of_nat i))) [0..<k] m (s + of_nat k) = m (s + of_nat k)"
      using Suc.IH [of "s + of_nat k"] kn by (simp del: fun_upd_apply)
    moreover have "x = d + of_nat k \<longleftrightarrow> unat (x - d) = k"
      using k by (auto simp: unat_of_nat64)
    ultimately show ?case using Suc.IH [of x] kn by (auto simp: less_Suc_eq fun_upd_other fun_upd_same simp del: fun_upd_apply)
  qed
  then show ?thesis by (simp add: copy_up_def)
qed

lemma copy_down_apply:
  assumes "unat s < unat d" and "unat d + n \<le> 2 ^ 64"
  shows "copy_down m d s n x = (if unat (x - d) < n then m (s + (x - d)) else m x)"
  using assms(2)
proof (induction n arbitrary: m)
  case 0
  then show ?case by (simp add: copy_down_def)
next
  case (Suc n)
  let ?m = "m(d + of_nat n := m (s + of_nat n))"
  have n: "n < 2 ^ 64" and bound: "unat d + n < 2 ^ 64" using Suc.prems by simp_all
  have "copy_down m d s (Suc n) x = copy_down ?m d s n x"
    by (simp add: copy_down_def)
  also have "\<dots> = (if unat (x - d) < n then ?m (s + (x - d)) else ?m x)"
    using Suc by simp
  also have "\<dots> = (if unat (x - d) < Suc n then m (s + (x - d)) else m x)"
  proof -
    have x: "x = d + of_nat n \<longleftrightarrow> unat (x - d) = n"
      using n by (auto simp: unat_of_nat64)
    have "s + (x - d) \<noteq> d + of_nat n" if "unat (x - d) < n"
    proof
      assume eq: "s + (x - d) = d + of_nat n"
      have "unat (s + (x - d)) = unat s + unat (x - d)"
        using that assms(1) bound by (simp add: unat_add64)
      moreover have "unat (d + of_nat n) = unat d + n"
        using n bound by (simp add: unat_add64)
      ultimately show False using eq that assms(1) by simp
    qed
    with x show ?thesis by (auto simp: less_Suc_eq)
  qed
  finally show ?case .
qed

lemma memmove_apply:
  assumes "unat s + unat n < 2 ^ 64" and "unat d + unat n < 2 ^ 64"
  shows "memmove m d s n x = (if unat (x - d) < unat n then m (s + (x - d)) else m x)"
proof -
  have sum: "unat (s + ucast n) = unat s + unat n"
    using assms(1) by (simp add: unat_add64)
  show ?thesis
  proof (cases "s < d \<and> s + ucast n > d")
    case True
    then show ?thesis
      using assms by (auto simp: memmove_def copy_down_apply word_less_nat_alt)
  next
    case False
    then have "unat d \<le> unat s \<or> unat s + unat n \<le> unat d"
      using sum by (auto simp: word_less_nat_alt)
    then show ?thesis
      using False assms by (auto simp: memmove_def copy_up_apply)
  qed
qed

section \<open>Comparing and copying strings\<close>

lemma mem_bytes_Suc: "mem_bytes m a (Suc n) = m a # mem_bytes m (a + 1) n"
  by (simp add: mem_bytes_def upt_conv_Cons map_Suc_upt [symmetric] comp_def add.assoc del: upt_Suc)

lemma mem_bytes_0 [simp]: "mem_bytes m a 0 = []"
  by (simp add: mem_bytes_def)

lemma memcmp_n_zero: "memcmp_n m p q n = 0 \<longleftrightarrow> mem_bytes m p n = mem_bytes m q n"
  by (induction n arbitrary: p q) (auto simp: mem_bytes_Suc word_uint_eq_iff)

lemma strncmp_n_zero: "strncmp_n m p q n = 0 \<longleftrightarrow> cstr (mem_bytes m p n) = cstr (mem_bytes m q n)"
  by (induction n arbitrary: p q) (auto simp: mem_bytes_Suc cstr_def word_uint_eq_iff)

text \<open>\<open>outside a n x\<close>: the address \<open>x\<close> is not among the \<open>n\<close> bytes from \<open>a\<close> on.\<close>

definition outside :: "u64 \<Rightarrow> nat \<Rightarrow> u64 \<Rightarrow> bool" where
  "outside a n x \<longleftrightarrow> n \<le> unat (x - a)"

lemma outside_Suc: "outside a (Suc n) x \<Longrightarrow> x \<noteq> a \<and> outside (a + 1) n x"
proof -
  assume out: "outside a (Suc n) x"
  then have "x \<noteq> a" by (auto simp: outside_def)
  moreover have "unat (x - (a + 1)) = unat (x - a) - 1"
    using \<open>x \<noteq> a\<close> by (simp add: diff_diff_eq [symmetric] unat_minus_one)
  ultimately show ?thesis using out by (simp add: outside_def)
qed

lemma mem_bytes_upd_outside:
  "(\<And>i. i < n \<Longrightarrow> t + of_nat i \<noteq> s) \<Longrightarrow> mem_bytes (m(s := c)) t n = mem_bytes m t n"
  by (rule mem_bytes_cong) auto

lemma safestrcpy_n_frame: "outside s (Suc n) x \<Longrightarrow> safestrcpy_n m s t n x = m x"
  by (induction n arbitrary: m s t) (auto simp: Let_def dest: outside_Suc)

lemma zero_fill_frame: "outside s n x \<Longrightarrow> zero_fill m s n x = m x"
  by (induction n arbitrary: m s) (auto dest: outside_Suc)

lemma strncpy_n_frame: "outside s n x \<Longrightarrow> strncpy_n m s t n x = m x"
  by (induction n arbitrary: m s t) (auto simp: Let_def zero_fill_frame dest: outside_Suc)

lemma outside_self: "n < 2 ^ 64 \<Longrightarrow> outside (s + 1) n s"
proof -
  have "s - (s + 1) = (- 1 :: u64)" by simp
  then show "n < 2 ^ 64 \<Longrightarrow> outside (s + 1) n s"
    by (simp add: outside_def unsigned_minus_1_eq_mask mask_eq_exp_minus_1)
qed

lemma mem_bytes_outside_cong:
  "(\<And>i. i < n \<Longrightarrow> m' (t + of_nat i) = m (t + of_nat i)) \<Longrightarrow> mem_bytes m' t n = mem_bytes m t n"
  by (rule mem_bytes_cong) auto

lemma zero_fill_bytes: "n < 2 ^ 64 \<Longrightarrow> mem_bytes (zero_fill m s n) s n = replicate n 0"
proof (induction n arbitrary: m s)
  case 0
  then show ?case by simp
next
  case (Suc n)
  then show ?case
    by (simp add: mem_bytes_Suc zero_fill_frame outside_self)
qed

text \<open>\<open>apart s n t k\<close>: the \<open>k\<close> bytes from \<open>t\<close> on avoid the \<open>n\<close> bytes from \<open>s\<close> on.\<close>

definition apart :: "u64 \<Rightarrow> nat \<Rightarrow> u64 \<Rightarrow> nat \<Rightarrow> bool" where
  "apart s n t k \<longleftrightarrow> (\<forall>i<k. outside s n (t + of_nat i))"

lemma apart_Suc:
  assumes "apart s (Suc n) t (Suc k)"
  shows "t \<noteq> s" and "apart (s + 1) n (t + 1) k" and "\<And>i. i < k \<Longrightarrow> t + 1 + of_nat i \<noteq> s"
proof -
  have out: "outside s (Suc n) (t + of_nat i)" if "i < Suc k" for i
    using assms that by (simp add: apart_def)
  show "t \<noteq> s" using out [of 0] by (auto dest: outside_Suc)
  have "t + 1 + of_nat i \<noteq> s \<and> outside (s + 1) n (t + 1 + of_nat i)" if "i < k" for i
    using out [of "Suc i"] that by (auto dest: outside_Suc simp: add.assoc)
  then show "apart (s + 1) n (t + 1) k" and "\<And>i. i < k \<Longrightarrow> t + 1 + of_nat i \<noteq> s"
    by (auto simp: apart_def)
qed

lemma safestrcpy_n_bytes:
  "apart s (Suc n) t n \<Longrightarrow> Suc n < 2 ^ 64 \<Longrightarrow>
   mem_bytes (safestrcpy_n m s t n) s (Suc n) = safestrcpy_l (mem_bytes m s (Suc n)) (mem_bytes m t n)"
proof (induction n arbitrary: m s t)
  case 0
  then show ?case by (simp add: mem_bytes_Suc)
next
  case (Suc n)
  note ap = apart_Suc [OF Suc.prems(1)]
  let ?m = "m(s := m t)"
  have t: "mem_bytes ?m (t + 1) n = mem_bytes m (t + 1) n"
    using ap(3) by (intro mem_bytes_upd_outside) auto
  have s': "s + 1 + of_nat i \<noteq> s" if "i < Suc n" for i
  proof
    assume "s + 1 + of_nat i = s"
    then have "of_nat (Suc i) = (0 :: u64)" by (simp add: add.assoc)
    with that Suc.prems(2) unat_of_nat64 [of "Suc i"] show False by (simp del: of_nat_Suc)
  qed
  then have s: "mem_bytes ?m (s + 1) (Suc n) = mem_bytes m (s + 1) (Suc n)"
    by (intro mem_bytes_upd_outside) auto
  show ?case
  proof (cases "m t = 0")
    case True
    have "s + 1 + 1 + of_nat i \<noteq> s + 1" if "i < n" for i
      using s' [of i] that by (auto simp: algebra_simps)
    moreover have "s + 1 + 1 + of_nat i \<noteq> s" if "i < n" for i
      using s' [of "Suc i"] that by (auto simp: algebra_simps)
    ultimately have "mem_bytes (?m(s + 1 := 0)) (s + 1 + 1) n = mem_bytes m (s + 1 + 1) n"
      by (intro mem_bytes_cong) auto
    then show ?thesis
      using True s' [of 0] by (simp add: mem_bytes_Suc fun_upd_def)
  next
    case False
    have "safestrcpy_n ?m (s + 1) (t + 1) n s = m t"
      using Suc.prems(2) by (subst safestrcpy_n_frame) (auto intro: outside_self)
    moreover have "mem_bytes (safestrcpy_n ?m (s + 1) (t + 1) n) (s + 1) (Suc n)
        = safestrcpy_l (mem_bytes m (s + 1) (Suc n)) (mem_bytes m (t + 1) n)"
      using Suc.IH [of "s + 1" "t + 1" ?m] ap(2) Suc.prems(2) by (simp add: s t del: fun_upd_apply)
    ultimately show ?thesis
      using False by (simp add: mem_bytes_Suc)
  qed
qed

lemma cstr_safestrcpy_l:
  "length dst \<le> Suc (length src) \<Longrightarrow> dst \<noteq> [] \<Longrightarrow> cstr (safestrcpy_l dst src) = take (length dst - 1) (cstr src)"
  by (induction dst src rule: safestrcpy_l.induct) (auto simp: cstr_def)

lemma length_safestrcpy_l [simp]: "length (safestrcpy_l dst src) = length dst"
  by (induction dst src rule: safestrcpy_l.induct) auto

lemma strlen_from_Some:
  "m (s + of_nat (n + k)) = 0 \<Longrightarrow> (\<And>i. i < k \<Longrightarrow> m (s + of_nat (n + i)) \<noteq> 0) \<Longrightarrow> strlen_from m s n = Some (n + k)"
proof (induction k arbitrary: n)
  case 0
  then show ?case by (simp add: strlen_from.simps)
next
  case (Suc k)
  have "strlen_from m s (Suc n) = Some (Suc n + k)"
    using Suc.prems(1) Suc.prems(2) [of "Suc _"] by (intro Suc.IH) auto
  with Suc.prems(2) [of 0] show ?case by (simp add: strlen_from.simps [of m s n])
qed

end
