(* ===== verification/Xv6_State.thy ===== *)
theory Xv6_State
  imports Xv6_Mem
begin

text \<open>
  The data of the kernel: one record per C struct, and the record \<open>kstate\<close> of the
  kernel's global variables.

  Static tables (\<open>proc[NPROC]\<close>, \<open>namespaces[NUMNS]\<close>, \<open>ftable.file[NFILE]\<close>, and so on) are
  functions from indices; a pointer into a table is an index, and \<open>NULL\<close> is \<open>None\<close>. Pages
  obtained from \<open>kalloc\<close> are 64-bit physical addresses into \<open>mem\<close>, with 0 for \<open>NULL\<close>; the
  page tables, the trapframes and user memory live there as bytes. A \<open>struct pipe\<close> occupies a
  page of its own and is reached through its address in \<open>pipes\<close>. The registers of the interrupt
  controller, of the UART's configuration and of the virtio interface are the bytes of \<open>mem\<close> at
  their addresses.

  \<open>lockst\<close> groups what \<^verbatim>\<open>spinlock.c\<close> works on: the hart that executes (\<open>tp\<close>), the per-CPU
  records, each hart's interrupt-enable bit and every spinlock of the kernel. The symbols the
  linker script defines (\<open>end\<close>, \<open>etext\<close>, \<open>trampoline\<close>, the address of \<open>forkret\<close>) are fields
  that no operation changes, and so are the bytes that follow each of the state names of
  \<open>ps_info\<close> in the kernel image (\<open>state_tail\<close>).

  C \<open>int\<close>s are modelled as \<open>int\<close> (signed overflow is undefined in C), unsigned integers as
  words of their width.
\<close>

section \<open>Locks and CPUs\<close>

datatype slkid = Slk_buf nat | Slk_inode nat

datatype lockid =
    L_pid | L_wait | L_ns | L_kmem | L_ticks | L_ftable | L_itable | L_bcache | L_log
  | L_cons | L_uart | L_vdisk | L_pr
  | L_proc nat | L_namespace nat | L_pipe u64 | L_slk slkid

datatype chan =
    Chan_proc nat | Chan_ticks | Chan_log | Chan_buf nat | Chan_pipe_nread u64
  | Chan_pipe_nwrite u64 | Chan_cons | Chan_uart | Chan_slk slkid | Chan_disk_free

record spinlock =
  locked :: u32
  lk_name :: string
  lk_cpu :: "nat option"

record cpu =
  c_proc :: "nat option"
  noff :: int
  intena :: bool

record lockst =
  tp :: nat
  cpus :: "nat \<Rightarrow> cpu"
  sie :: "nat \<Rightarrow> bool"
  locks :: "lockid \<Rightarrow> spinlock"

record sleeplock =
  sl_locked :: u32
  sl_name :: string
  sl_pid :: int

section \<open>Processes and namespaces (proc.h)\<close>

datatype procstate = UNUSED | USED | SLEEPING | RUNNABLE | RUNNING | ZOMBIE

record kcontext =
  ctx_ra :: u64
  ctx_sp :: u64
  ctx_s :: "u64 list"

record namespace =
  ns_parent :: "nat option"
  ns_head :: "nat option"
  ns_id :: int
  ns_depth :: nat
  ns_used :: int
  next_ns_pid :: int
  num_proc :: int

record proc =
  p_state :: procstate
  p_chan :: "chan option"
  p_killed :: int
  p_xstate :: int
  p_pid :: int
  p_parent :: "nat option"
  p_kstack :: u64
  p_sz :: u64
  p_pagetable :: u64
  p_trapframe :: u64
  p_context :: kcontext
  p_ofile :: "nat \<Rightarrow> nat option"
  p_cwd :: "nat option"
  p_name :: "u8 list"
  p_init_ticks :: u32
  p_run_time :: u32
  p_last_run_start :: u32
  p_last_runnable :: u32
  p_context_switches :: u32
  p_kernel_time :: u32
  p_last_kernel_time :: u32
  p_waiting_time :: u32
  p_is_kernel :: int
  p_read_b :: u32
  p_write_b :: u32
  p_heap_pages :: u32
  p_ns :: "nat option"
  p_pids :: "nat \<Rightarrow> int"

section \<open>Files, inodes, buffers, the log (file.h, fs.h, buf.h, log.c, pipe.c)\<close>

datatype ftype = FD_NONE | FD_PIPE | FD_INODE | FD_DEVICE

record kfile =
  f_type :: ftype
  f_ref :: int
  f_readable :: bool
  f_writable :: bool
  f_pipe :: u64
  f_ip :: "nat option"
  f_off :: u32
  f_major :: int

record pipe =
  pi_data :: "u8 list"
  pi_nread :: u32
  pi_nwrite :: u32
  pi_readopen :: bool
  pi_writeopen :: bool

record inode =
  i_dev :: u32
  i_inum :: u32
  i_ref :: int
  i_valid :: bool
  i_type :: int
  i_major :: int
  i_minor :: int
  i_nlink :: int
  i_size :: u32
  i_addrs :: "nat \<Rightarrow> u32"

record superblock =
  sb_magic :: u32
  sb_size :: u32
  sb_nblocks :: u32
  sb_ninodes :: u32
  sb_nlog :: u32
  sb_logstart :: u32
  sb_inodestart :: u32
  sb_bmapstart :: u32

record buf =
  b_valid :: bool
  b_disk :: bool
  b_dev :: u32
  b_blockno :: u32
  b_refcnt :: u32
  b_prev :: nat
  b_next :: nat
  b_data :: "u8 list"

record logheader =
  lh_n :: int
  lh_block :: "nat \<Rightarrow> u32"

record logst =
  log_start :: u32
  log_size :: int
  log_outstanding :: int
  log_committing :: bool
  log_dev :: u32
  log_lh :: logheader

section \<open>Devices (console.c, uart.c, file.c)\<close>

record console =
  cons_buf :: "u8 list"
  cons_r :: u32
  cons_w :: u32
  cons_e :: u32

text \<open>
  The transmit ring of \<^verbatim>\<open>uart.c\<close>. The device itself is outside the kernel: \<open>uart_in\<close> are the
  bytes it has received and the kernel has not read, \<open>uart_room\<close> is how many bytes its
  transmitter takes before the line status register reports it busy.
\<close>

record uartst =
  tx_buf :: "u8 list"
  tx_w :: u64
  tx_r :: u64
  uart_in :: "u8 list"
  uart_room :: nat

datatype devops = Console_ops

text \<open>
  The supervisor registers of a hart that trap handling reads and writes. The SIE bit of
  \<open>sstatus\<close> is kept in \<open>lockst\<close>.
\<close>

record csrs =
  csr_spp :: bool
  csr_spie :: bool
  csr_sepc :: u64
  csr_scause :: u64
  csr_stval :: u64
  csr_stvec :: u64
  csr_satp :: u64
  csr_sip :: u64

text \<open>
  The descriptor table and the two rings that \<^verbatim>\<open>virtio_disk.c\<close> shares with the disk, and the
  driver's own book-keeping. What a descriptor points to is a request header, the data of a
  buffer, or a status byte.
\<close>

datatype dptr = D_null | D_op nat | D_data nat | D_status nat

record vdesc =
  d_addr :: dptr
  d_len :: u32
  d_flags :: u16
  d_next :: u16

record vdisk =
  vd_desc :: "nat \<Rightarrow> vdesc"
  vd_avail_idx :: u16
  vd_avail_ring :: "nat \<Rightarrow> nat"
  vd_dev_used_idx :: u16
  vd_used_ring :: "nat \<Rightarrow> nat"
  vd_free :: "nat \<Rightarrow> bool"
  vd_used_idx :: u16
  vd_info_b :: "nat \<Rightarrow> nat option"
  vd_status :: "nat \<Rightarrow> u8"
  vd_op_type :: "nat \<Rightarrow> u32"
  vd_op_sector :: "nat \<Rightarrow> u64"

section \<open>The kernel state\<close>

record kstate =
  lk :: lockst
  mem :: memory
  sym_end :: u64
  sym_trampoline :: u64
  sym_forkret :: u64
  sym_etext :: u64
  sym_kernelvec :: u64
  sym_uservec :: u64
  sym_userret :: u64
  sym_usertrap :: u64
  state_tail :: "procstate \<Rightarrow> u8 list"
  kernel_pagetable :: u64
  freelist :: u64
  procs :: "nat \<Rightarrow> proc"
  initproc :: "nat option"
  nextpid :: int
  namespaces :: "nat \<Rightarrow> namespace"
  initnamespace :: "nat option"
  nextnamespace :: int
  ticks :: u32
  slks :: "slkid \<Rightarrow> sleeplock"
  files :: "nat \<Rightarrow> kfile"
  pipes :: "u64 \<Rightarrow> pipe"
  inodes :: "nat \<Rightarrow> inode"
  sb :: superblock
  bufs :: "nat \<Rightarrow> buf"
  logs :: logst
  disk :: "u32 \<Rightarrow> u8 list"
  conout :: "u8 list"
  cons :: console
  uart :: uartst
  devsw :: "int \<Rightarrow> devops option"
  panicked :: bool
  pr_locking :: bool
  forkret_first :: bool
  csr :: "nat \<Rightarrow> csrs"
  started :: bool
  vd :: vdisk

type_synonym 'a op = "(kstate, 'a) km"

definition upd_proc :: "nat \<Rightarrow> (proc \<Rightarrow> proc) \<Rightarrow> kstate \<Rightarrow> kstate" where
  "upd_proc i f s = s\<lparr>procs := (procs s)(i := f (procs s i))\<rparr>"

definition upd_ns :: "nat \<Rightarrow> (namespace \<Rightarrow> namespace) \<Rightarrow> kstate \<Rightarrow> kstate" where
  "upd_ns n f s = s\<lparr>namespaces := (namespaces s)(n := f (namespaces s n))\<rparr>"

abbreviation modp :: "nat \<Rightarrow> (proc \<Rightarrow> proc) \<Rightarrow> unit op" where
  "modp i f \<equiv> kmod (upd_proc i f)"

abbreviation modns :: "nat \<Rightarrow> (namespace \<Rightarrow> namespace) \<Rightarrow> unit op" where
  "modns n f \<equiv> kmod (upd_ns n f)"

abbreviation getp :: "nat \<Rightarrow> (proc \<Rightarrow> 'a) \<Rightarrow> 'a op" where
  "getp i f \<equiv> kget (\<lambda>s. f (procs s i))"

abbreviation getns :: "nat \<Rightarrow> (namespace \<Rightarrow> 'a) \<Rightarrow> 'a op" where
  "getns n f \<equiv> kget (\<lambda>s. f (namespaces s n))"

text \<open>The zeroed memory the kernel image starts from (\<open>.bss\<close>).\<close>

definition zero_lock :: spinlock where
  "zero_lock = \<lparr>locked = 0, lk_name = [], lk_cpu = None\<rparr>"

definition zero_cpu :: cpu where
  "zero_cpu = \<lparr>c_proc = None, noff = 0, intena = False\<rparr>"

definition zero_context :: kcontext where
  "zero_context = \<lparr>ctx_ra = 0, ctx_sp = 0, ctx_s = replicate 12 0\<rparr>"

definition zero_proc :: proc where
  "zero_proc = \<lparr>p_state = UNUSED, p_chan = None, p_killed = 0, p_xstate = 0, p_pid = 0,
     p_parent = None, p_kstack = 0, p_sz = 0, p_pagetable = 0, p_trapframe = 0,
     p_context = zero_context, p_ofile = (\<lambda>_. None), p_cwd = None, p_name = replicate 16 0,
     p_init_ticks = 0, p_run_time = 0, p_last_run_start = 0, p_last_runnable = 0,
     p_context_switches = 0, p_kernel_time = 0, p_last_kernel_time = 0, p_waiting_time = 0,
     p_is_kernel = 0, p_read_b = 0, p_write_b = 0, p_heap_pages = 0, p_ns = None,
     p_pids = (\<lambda>_. 0)\<rparr>"

definition zero_namespace :: namespace where
  "zero_namespace = \<lparr>ns_parent = None, ns_head = None, ns_id = 0, ns_depth = 0, ns_used = 0,
     next_ns_pid = 0, num_proc = 0\<rparr>"

definition zero_file :: kfile where
  "zero_file = \<lparr>f_type = FD_NONE, f_ref = 0, f_readable = False, f_writable = False, f_pipe = 0,
     f_ip = None, f_off = 0, f_major = 0\<rparr>"

definition zero_pipe :: pipe where
  "zero_pipe = \<lparr>pi_data = replicate 512 0, pi_nread = 0, pi_nwrite = 0, pi_readopen = False,
     pi_writeopen = False\<rparr>"

definition zero_inode :: inode where
  "zero_inode = \<lparr>i_dev = 0, i_inum = 0, i_ref = 0, i_valid = False, i_type = 0, i_major = 0,
     i_minor = 0, i_nlink = 0, i_size = 0, i_addrs = (\<lambda>_. 0)\<rparr>"

definition zero_superblock :: superblock where
  "zero_superblock = \<lparr>sb_magic = 0, sb_size = 0, sb_nblocks = 0, sb_ninodes = 0, sb_nlog = 0,
     sb_logstart = 0, sb_inodestart = 0, sb_bmapstart = 0\<rparr>"

definition zero_buf :: buf where
  "zero_buf = \<lparr>b_valid = False, b_disk = False, b_dev = 0, b_blockno = 0, b_refcnt = 0,
     b_prev = 0, b_next = 0, b_data = replicate 1024 0\<rparr>"

definition zero_log :: logst where
  "zero_log = \<lparr>log_start = 0, log_size = 0, log_outstanding = 0, log_committing = False,
     log_dev = 0, log_lh = \<lparr>lh_n = 0, lh_block = (\<lambda>_. 0)\<rparr>\<rparr>"

definition zero_csrs :: csrs where
  "zero_csrs = \<lparr>csr_spp = False, csr_spie = False, csr_sepc = 0, csr_scause = 0, csr_stval = 0,
     csr_stvec = 0, csr_satp = 0, csr_sip = 0\<rparr>"

definition zero_vdisk :: vdisk where
  "zero_vdisk = \<lparr>vd_desc = (\<lambda>_. \<lparr>d_addr = D_null, d_len = 0, d_flags = 0, d_next = 0\<rparr>), vd_avail_idx = 0,
     vd_avail_ring = (\<lambda>_. 0), vd_dev_used_idx = 0, vd_used_ring = (\<lambda>_. 0), vd_free = (\<lambda>_. False),
     vd_used_idx = 0, vd_info_b = (\<lambda>_. None), vd_status = (\<lambda>_. 0), vd_op_type = (\<lambda>_. 0),
     vd_op_sector = (\<lambda>_. 0)\<rparr>"

definition zero_state :: kstate where
  "zero_state = \<lparr>lk = \<lparr>tp = 0, cpus = (\<lambda>_. zero_cpu), sie = (\<lambda>_. False), locks = (\<lambda>_. zero_lock)\<rparr>,
     mem = (\<lambda>_. 0), sym_end = 0x80021000, sym_trampoline = 0x80007000, sym_forkret = 0x80001a00,
     sym_etext = 0x80008000, sym_kernelvec = 0x80005000, sym_uservec = 0x80007000,
     sym_userret = 0x80007090, sym_usertrap = 0x80002000, state_tail = (\<lambda>_. replicate 16 0),
     kernel_pagetable = 0, freelist = 0, procs = (\<lambda>_. zero_proc), initproc = None, nextpid = 1,
     namespaces = (\<lambda>_. zero_namespace), initnamespace = None, nextnamespace = 1, ticks = 0,
     slks = (\<lambda>_. \<lparr>sl_locked = 0, sl_name = [], sl_pid = 0\<rparr>), files = (\<lambda>_. zero_file),
     pipes = (\<lambda>_. zero_pipe), inodes = (\<lambda>_. zero_inode), sb = zero_superblock,
     bufs = (\<lambda>_. zero_buf), logs = zero_log, disk = (\<lambda>_. replicate 1024 0), conout = [],
     cons = \<lparr>cons_buf = replicate 128 0, cons_r = 0, cons_w = 0, cons_e = 0\<rparr>,
     uart = \<lparr>tx_buf = replicate 32 0, tx_w = 0, tx_r = 0, uart_in = [], uart_room = 0\<rparr>,
     devsw = (\<lambda>_. None), panicked = False, pr_locking = False, forkret_first = True, csr = (\<lambda>_. zero_csrs),
     started = False, vd = zero_vdisk\<rparr>"

lemmas zero_defs = zero_lock_def zero_cpu_def zero_context_def zero_proc_def zero_namespace_def
  zero_file_def zero_pipe_def zero_inode_def zero_superblock_def zero_buf_def zero_log_def
  zero_csrs_def zero_vdisk_def zero_state_def

section \<open>Updates of one table entry\<close>

lemma procs_upd_proc [simp]: "procs (upd_proc i f s) j = (if j = i then f (procs s i) else procs s j)"
  by (simp add: upd_proc_def)

lemma namespaces_upd_ns [simp]:
  "namespaces (upd_ns i f s) j = (if j = i then f (namespaces s i) else namespaces s j)"
  by (simp add: upd_ns_def)

lemma upd_proc_frame [simp]:
  "lk (upd_proc i f s) = lk s" "mem (upd_proc i f s) = mem s" "freelist (upd_proc i f s) = freelist s"
  "sym_end (upd_proc i f s) = sym_end s" "sym_trampoline (upd_proc i f s) = sym_trampoline s"
  "sym_forkret (upd_proc i f s) = sym_forkret s" "initproc (upd_proc i f s) = initproc s"
  "nextpid (upd_proc i f s) = nextpid s" "namespaces (upd_proc i f s) = namespaces s"
  "initnamespace (upd_proc i f s) = initnamespace s" "nextnamespace (upd_proc i f s) = nextnamespace s"
  "ticks (upd_proc i f s) = ticks s" "slks (upd_proc i f s) = slks s" "files (upd_proc i f s) = files s"
  "pipes (upd_proc i f s) = pipes s" "inodes (upd_proc i f s) = inodes s" "sb (upd_proc i f s) = sb s"
  "bufs (upd_proc i f s) = bufs s" "logs (upd_proc i f s) = logs s" "disk (upd_proc i f s) = disk s"
  "conout (upd_proc i f s) = conout s" "cons (upd_proc i f s) = cons s" "uart (upd_proc i f s) = uart s"
  "devsw (upd_proc i f s) = devsw s" "panicked (upd_proc i f s) = panicked s" "sym_etext (upd_proc i f s) = sym_etext s"
  "kernel_pagetable (upd_proc i f s) = kernel_pagetable s" "pr_locking (upd_proc i f s) = pr_locking s"
  "state_tail (upd_proc i f s) = state_tail s"
  "forkret_first (upd_proc i f s) = forkret_first s"
  "csr (upd_proc i f s) = csr s"
  "started (upd_proc i f s) = started s"
  "vd (upd_proc i f s) = vd s"
  "sym_kernelvec (upd_proc i f s) = sym_kernelvec s"
  "sym_uservec (upd_proc i f s) = sym_uservec s"
  "sym_userret (upd_proc i f s) = sym_userret s"
  "sym_usertrap (upd_proc i f s) = sym_usertrap s"
  by (simp_all add: upd_proc_def)

lemma upd_ns_frame [simp]:
  "lk (upd_ns i f s) = lk s" "mem (upd_ns i f s) = mem s" "freelist (upd_ns i f s) = freelist s"
  "sym_end (upd_ns i f s) = sym_end s" "sym_trampoline (upd_ns i f s) = sym_trampoline s"
  "sym_forkret (upd_ns i f s) = sym_forkret s" "initproc (upd_ns i f s) = initproc s"
  "nextpid (upd_ns i f s) = nextpid s" "procs (upd_ns i f s) = procs s"
  "initnamespace (upd_ns i f s) = initnamespace s" "nextnamespace (upd_ns i f s) = nextnamespace s"
  "ticks (upd_ns i f s) = ticks s" "slks (upd_ns i f s) = slks s" "files (upd_ns i f s) = files s"
  "pipes (upd_ns i f s) = pipes s" "inodes (upd_ns i f s) = inodes s" "sb (upd_ns i f s) = sb s"
  "bufs (upd_ns i f s) = bufs s" "logs (upd_ns i f s) = logs s" "disk (upd_ns i f s) = disk s"
  "conout (upd_ns i f s) = conout s" "cons (upd_ns i f s) = cons s" "uart (upd_ns i f s) = uart s"
  "devsw (upd_ns i f s) = devsw s" "panicked (upd_ns i f s) = panicked s" "sym_etext (upd_ns i f s) = sym_etext s"
  "kernel_pagetable (upd_ns i f s) = kernel_pagetable s" "pr_locking (upd_ns i f s) = pr_locking s"
  "state_tail (upd_ns i f s) = state_tail s"
  "forkret_first (upd_ns i f s) = forkret_first s"
  "csr (upd_ns i f s) = csr s"
  "started (upd_ns i f s) = started s"
  "vd (upd_ns i f s) = vd s"
  "sym_kernelvec (upd_ns i f s) = sym_kernelvec s"
  "sym_uservec (upd_ns i f s) = sym_uservec s"
  "sym_userret (upd_ns i f s) = sym_userret s"
  "sym_usertrap (upd_ns i f s) = sym_usertrap s"
  by (simp_all add: upd_ns_def)

lemma lk_update_upd_proc [simp]:
  "(upd_proc i f s)\<lparr>lk := k\<rparr> = upd_proc i f (s\<lparr>lk := k\<rparr>)"
  by (simp add: upd_proc_def)

lemma lk_update_upd_ns [simp]:
  "(upd_ns i f s)\<lparr>lk := k\<rparr> = upd_ns i f (s\<lparr>lk := k\<rparr>)"
  by (simp add: upd_ns_def)

end
