(* ===== verification/Xv6_Spinlock.thy ===== *)
theory Xv6_Spinlock
  imports Xv6_State
begin

text \<open>
  \<^verbatim>\<open>kernel/spinlock.c\<close>, with \<open>cpuid\<close>, \<open>mycpu\<close> and \<open>myproc\<close> of \<^verbatim>\<open>kernel/proc.c\<close>.

  The operations run on behalf of the hart \<open>tp\<close>. A lock that another hart holds is not given
  up while the operation runs, so the swap loop of \<open>acquire\<close> either succeeds at once or spins.
  Every handler of the development calls \<open>acquire\<close> and \<open>release\<close> where the source does.

  \<open>cpu_ok\<close> is the invariant of \<open>push_off\<close>/\<open>pop_off\<close>. Under it \<open>acquire\<close> of a free lock is
  \<open>lock1\<close> and \<open>release\<close> undoes it; the simp rules at the end execute nested critical sections
  symbolically. The last section refines the view to single memory operations by any number
  of harts and proves mutual exclusion.
\<close>

section \<open>The code\<close>

abbreviation modlk :: "(lockst \<Rightarrow> lockst) \<Rightarrow> unit op" where
  "modlk f \<equiv> kmod (\<lambda>s. s\<lparr>lk := f (lk s)\<rparr>)"

definition intr_get :: "bool op" where
  "intr_get = kget (\<lambda>s. sie (lk s) (tp (lk s)))"

definition intr_off :: "unit op" where
  "intr_off = modlk (\<lambda>k. k\<lparr>sie := (sie k)(tp k := False)\<rparr>)"

definition intr_on :: "unit op" where
  "intr_on = modlk (\<lambda>k. k\<lparr>sie := (sie k)(tp k := True)\<rparr>)"

definition cpuid :: "nat op" where
  "cpuid = kget (\<lambda>s. tp (lk s))"

definition mycpu :: "nat op" where
  "mycpu = cpuid"

definition getcpu :: "nat \<Rightarrow> (cpu \<Rightarrow> 'a) \<Rightarrow> 'a op" where
  "getcpu c f = kget (\<lambda>s. f (cpus (lk s) c))"

definition modcpu :: "nat \<Rightarrow> (cpu \<Rightarrow> cpu) \<Rightarrow> unit op" where
  "modcpu c f = modlk (\<lambda>k. k\<lparr>cpus := (cpus k)(c := f (cpus k c))\<rparr>)"

definition modlock :: "lockid \<Rightarrow> (spinlock \<Rightarrow> spinlock) \<Rightarrow> unit op" where
  "modlock l f = modlk (\<lambda>k. k\<lparr>locks := (locks k)(l := f (locks k l))\<rparr>)"

definition initlock :: "lockid \<Rightarrow> string \<Rightarrow> unit op" where
  "initlock l nm = modlock l (\<lambda>x. x\<lparr>lk_name := nm, locked := 0, lk_cpu := None\<rparr>)"

definition holding :: "lockid \<Rightarrow> bool op" where
  "holding l = kbind mycpu (\<lambda>c. kget (\<lambda>s. locked (locks (lk s) l) \<noteq> 0 \<and> lk_cpu (locks (lk s) l) = Some c))"

definition push_off :: "unit op" where
  "push_off =
     kbind intr_get (\<lambda>old.
     kthen intr_off (
     kbind mycpu (\<lambda>c.
     kbind (getcpu c noff) (\<lambda>n.
     kthen (kwhen (n = 0) (modcpu c (\<lambda>x. x\<lparr>intena := old\<rparr>)))
     (modcpu c (\<lambda>x. x\<lparr>noff := noff x + 1\<rparr>))))))"

definition pop_off :: "unit op" where
  "pop_off =
     kbind mycpu (\<lambda>c.
     kbind intr_get (\<lambda>i.
     if i then kpanic ''pop_off - interruptible'' else
     kbind (getcpu c noff) (\<lambda>n.
     if n < 1 then kpanic ''pop_off'' else
     kthen (modcpu c (\<lambda>x. x\<lparr>noff := noff x - 1\<rparr>)) (
     kbind (getcpu c (\<lambda>x. noff x = 0 \<and> intena x)) (\<lambda>on.
     kwhen on intr_on)))))"

definition lock_test_and_set :: "lockid \<Rightarrow> u32 op" where
  "lock_test_and_set l =
     kbind (kget (\<lambda>s. locked (locks (lk s) l))) (\<lambda>old.
     kthen (modlock l (\<lambda>x. x\<lparr>locked := 1\<rparr>)) (kret old))"

definition acquire :: "lockid \<Rightarrow> unit op" where
  "acquire l =
     kthen push_off (
     kbind (holding l) (\<lambda>h.
     if h then kpanic ''acquire'' else
     kbind (lock_test_and_set l) (\<lambda>old.
     if old \<noteq> 0 then kexc Spin else
     kbind mycpu (\<lambda>c. modlock l (\<lambda>x. x\<lparr>lk_cpu := Some c\<rparr>)))))"

definition release :: "lockid \<Rightarrow> unit op" where
  "release l =
     kbind (holding l) (\<lambda>h.
     if \<not> h then kpanic ''release'' else
     kthen (modlock l (\<lambda>x. x\<lparr>lk_cpu := None\<rparr>)) (
     kthen (modlock l (\<lambda>x. x\<lparr>locked := 0\<rparr>)) pop_off))"

definition myproc :: "nat option op" where
  "myproc =
     kthen push_off (
     kbind mycpu (\<lambda>c.
     kbind (getcpu c c_proc) (\<lambda>p.
     kthen pop_off (kret p))))"

text \<open>
  The same code at the grain of single memory operations, for any number of harts: where a
  hart is between entering \<open>acquire\<close> and leaving \<open>release\<close>, and one rule per memory access.
\<close>

datatype lpc = LP_out | LP_spinning | LP_swapped | LP_critical | LP_leaving

record spinsys =
  sp_lock :: spinlock
  sp_pc :: "nat \<Rightarrow> lpc"

inductive spin_step :: "spinsys \<Rightarrow> spinsys \<Rightarrow> bool" where
  enter: "sp_pc s c = LP_out \<Longrightarrow> spin_step s (s\<lparr>sp_pc := (sp_pc s)(c := LP_spinning)\<rparr>)"
| swap_fails: "sp_pc s c = LP_spinning \<Longrightarrow> locked (sp_lock s) \<noteq> 0 \<Longrightarrow>
     spin_step s (s\<lparr>sp_lock := (sp_lock s)\<lparr>locked := 1\<rparr>\<rparr>)"
| swap_succeeds: "sp_pc s c = LP_spinning \<Longrightarrow> locked (sp_lock s) = 0 \<Longrightarrow>
     spin_step s (s\<lparr>sp_lock := (sp_lock s)\<lparr>locked := 1\<rparr>, sp_pc := (sp_pc s)(c := LP_swapped)\<rparr>)"
| set_cpu: "sp_pc s c = LP_swapped \<Longrightarrow>
     spin_step s (s\<lparr>sp_lock := (sp_lock s)\<lparr>lk_cpu := Some c\<rparr>, sp_pc := (sp_pc s)(c := LP_critical)\<rparr>)"
| clear_cpu: "sp_pc s c = LP_critical \<Longrightarrow>
     spin_step s (s\<lparr>sp_lock := (sp_lock s)\<lparr>lk_cpu := None\<rparr>, sp_pc := (sp_pc s)(c := LP_leaving)\<rparr>)"
| unlock: "sp_pc s c = LP_leaving \<Longrightarrow>
     spin_step s (s\<lparr>sp_lock := (sp_lock s)\<lparr>locked := 0\<rparr>, sp_pc := (sp_pc s)(c := LP_out)\<rparr>)"

definition spin_init :: spinsys where
  "spin_init = \<lparr>sp_lock = zero_lock, sp_pc = (\<lambda>_. LP_out)\<rparr>"

inductive spin_reachable :: "spinsys \<Rightarrow> bool" where
  start: "spin_reachable spin_init"
| step: "spin_reachable s \<Longrightarrow> spin_step s t \<Longrightarrow> spin_reachable t"

lemmas spinlock_defs = intr_get_def intr_off_def intr_on_def cpuid_def mycpu_def getcpu_def
  modcpu_def modlock_def holding_def push_off_def pop_off_def lock_test_and_set_def

section \<open>The closed form of critical sections\<close>

definition mycpu_of :: "lockst \<Rightarrow> cpu" where
  "mycpu_of k = cpus k (tp k)"

definition cpu_ok :: "lockst \<Rightarrow> bool" where
  "cpu_ok k \<longleftrightarrow> 0 \<le> noff (mycpu_of k)
     \<and> (noff (mycpu_of k) = 0 \<longrightarrow> intena (mycpu_of k) = sie k (tp k))
     \<and> (0 < noff (mycpu_of k) \<longrightarrow> \<not> sie k (tp k))"

definition lk_free :: "lockid \<Rightarrow> lockst \<Rightarrow> bool" where
  "lk_free l k \<longleftrightarrow> locked (locks k l) = 0 \<and> lk_cpu (locks k l) = None"

definition lk_held :: "lockid \<Rightarrow> lockst \<Rightarrow> bool" where
  "lk_held l k \<longleftrightarrow> locked (locks k l) \<noteq> 0 \<and> lk_cpu (locks k l) = Some (tp k)"

definition off1 :: "lockst \<Rightarrow> lockst" where
  "off1 k = k\<lparr>sie := (sie k)(tp k := False),
              cpus := (cpus k)(tp k := (cpus k (tp k))\<lparr>noff := noff (cpus k (tp k)) + 1\<rparr>)\<rparr>"

definition on1 :: "lockst \<Rightarrow> lockst" where
  "on1 k = k\<lparr>cpus := (cpus k)(tp k := (cpus k (tp k))\<lparr>noff := noff (cpus k (tp k)) - 1\<rparr>),
             sie := (sie k)(tp k := (noff (cpus k (tp k)) = 1 \<and> intena (cpus k (tp k))))\<rparr>"

definition lock1 :: "lockid \<Rightarrow> lockst \<Rightarrow> lockst" where
  "lock1 l k = (off1 k)\<lparr>locks := (locks k)(l := (locks k l)\<lparr>locked := 1, lk_cpu := Some (tp k)\<rparr>)\<rparr>"

definition unlock1 :: "lockid \<Rightarrow> lockst \<Rightarrow> lockst" where
  "unlock1 l k = on1 (k\<lparr>locks := (locks k)(l := (locks k l)\<lparr>lk_cpu := None, locked := 0\<rparr>)\<rparr>)"

lemma intena_update_id [simp]: "intena c = b \<Longrightarrow> c\<lparr>intena := b\<rparr> = c"
  by (cases c) simp

lemma push_off_eq: "cpu_ok (lk s) \<Longrightarrow> push_off s = (Ret (), s\<lparr>lk := off1 (lk s)\<rparr>)"
  by (auto simp: spinlock_defs off1_def cpu_ok_def mycpu_of_def kwhen_def)

lemma pop_off_eq:
  "\<not> sie (lk s) (tp (lk s)) \<Longrightarrow> 1 \<le> noff (cpus (lk s) (tp (lk s))) \<Longrightarrow>
   pop_off s = (Ret (), s\<lparr>lk := on1 (lk s)\<rparr>)"
  by (auto simp: spinlock_defs on1_def kwhen_def fun_upd_idem)

lemma acquire_eq:
  assumes "cpu_ok (lk s)" and "lk_free l (lk s)"
  shows "acquire l s = (Ret (), s\<lparr>lk := lock1 l (lk s)\<rparr>)"
  using assms
  by (simp add: acquire_def push_off_eq holding_def mycpu_def cpuid_def lock_test_and_set_def
      modlock_def lk_free_def off1_def lock1_def)

lemma release_eq:
  assumes "lk_held l (lk s)" and "\<not> sie (lk s) (tp (lk s))" and "1 \<le> noff (cpus (lk s) (tp (lk s)))"
  shows "release l s = (Ret (), s\<lparr>lk := unlock1 l (lk s)\<rparr>)"
  using assms
  by (simp add: release_def holding_def mycpu_def cpuid_def modlock_def pop_off_eq lk_held_def
      on1_def unlock1_def)

text \<open>A lock the same hart already holds: the code panics.\<close>

lemma acquire_held:
  assumes "cpu_ok (lk s)" and "lk_held l (lk s)"
  shows "acquire l s = (Exc (Panic ''acquire''), s\<lparr>lk := off1 (lk s)\<rparr>)"
  using assms
  by (simp add: acquire_def push_off_eq holding_def mycpu_def cpuid_def lk_held_def off1_def)

text \<open>A lock another hart holds: the code spins.\<close>

lemma acquire_spin:
  assumes "cpu_ok (lk s)" and "locked (locks (lk s) l) \<noteq> 0" and "\<not> lk_held l (lk s)"
  shows "fst (acquire l s) = Exc Spin"
  using assms
  by (auto simp: acquire_def push_off_eq holding_def mycpu_def cpuid_def lk_held_def off1_def
      lock_test_and_set_def modlock_def)

section \<open>Symbolic execution of nested critical sections\<close>

text \<open>
  \<open>busy k\<close>: at least one \<open>push_off\<close> is pending, so interrupts are off. It holds from the first
  \<open>acquire\<close> to the last \<open>release\<close>.
\<close>

definition busy :: "lockst \<Rightarrow> bool" where
  "busy k \<longleftrightarrow> cpu_ok k \<and> 1 \<le> noff (mycpu_of k)"

named_theorems lock_simps "symbolic execution of acquire and release"

lemma tp_lock1 [lock_simps, simp]: "tp (lock1 l k) = tp k"
  by (simp add: lock1_def off1_def)

lemma tp_unlock1 [lock_simps, simp]: "tp (unlock1 l k) = tp k"
  by (simp add: unlock1_def on1_def)

lemma tp_off1 [simp]: "tp (off1 k) = tp k" and tp_on1 [simp]: "tp (on1 k) = tp k"
  by (simp_all add: off1_def on1_def)

lemma c_proc_lock1 [lock_simps, simp]: "c_proc (cpus (lock1 l k) c) = c_proc (cpus k c)"
  by (simp add: lock1_def off1_def)

lemma c_proc_unlock1 [lock_simps, simp]: "c_proc (cpus (unlock1 l k) c) = c_proc (cpus k c)"
  by (simp add: unlock1_def on1_def)

lemma cpu_ok_lock1 [lock_simps, simp]: "cpu_ok k \<Longrightarrow> cpu_ok (lock1 l k)"
  by (auto simp: cpu_ok_def lock1_def off1_def mycpu_of_def)

lemma busy_lock1 [lock_simps, simp]: "cpu_ok k \<Longrightarrow> busy (lock1 l k)"
  by (auto simp: busy_def cpu_ok_def lock1_def off1_def mycpu_of_def)

lemma busy_cpu_ok [simp]: "busy k \<Longrightarrow> cpu_ok k"
  by (simp add: busy_def)

lemma lk_free_lock1 [lock_simps, simp]: "lk_free l (lock1 m k) \<longleftrightarrow> l \<noteq> m \<and> lk_free l k"
  by (auto simp: lk_free_def lock1_def off1_def)

lemma lk_held_lock1 [lock_simps, simp]: "lk_held l (lock1 m k) \<longleftrightarrow> l = m \<or> lk_held l k"
  by (auto simp: lk_held_def lock1_def off1_def)

lemma lk_held_not_free: "lk_held l k \<Longrightarrow> \<not> lk_free l k"
  by (simp add: lk_held_def lk_free_def)

lemma release_busy:
  "lk_held l (lk s) \<Longrightarrow> busy (lk s) \<Longrightarrow> release l s = (Ret (), s\<lparr>lk := unlock1 l (lk s)\<rparr>)"
  by (rule release_eq) (auto simp: busy_def cpu_ok_def mycpu_of_def)

lemma lockst_eqI:
  "tp k = tp k' \<Longrightarrow> cpus k = cpus k' \<Longrightarrow> sie k = sie k' \<Longrightarrow> locks k = locks k' \<Longrightarrow> k = (k' :: lockst)"
  by (cases k; cases k') simp

lemma spinlock_update_id:
  "locked x = a \<Longrightarrow> lk_cpu x = b \<Longrightarrow> x\<lparr>locked := c, lk_cpu := b, locked := a\<rparr> = x"
  by (cases x) simp

lemma cpu_noff_id: "noff c = n \<Longrightarrow> c\<lparr>noff := n\<rparr> = c"
  by (cases c) simp

lemma unlock1_lock1 [lock_simps, simp]:
  assumes "cpu_ok k" and "lk_free l k"
  shows "unlock1 l (lock1 l k) = k"
proof (rule lockst_eqI)
  show "sie (unlock1 l (lock1 l k)) = sie k"
    using assms by (auto simp: unlock1_def lock1_def on1_def off1_def cpu_ok_def mycpu_of_def)
  show "cpus (unlock1 l (lock1 l k)) = cpus k"
    by (simp add: unlock1_def lock1_def on1_def off1_def cpu_noff_id)
  show "locks (unlock1 l (lock1 l k)) = locks k"
    using assms by (simp add: unlock1_def lock1_def on1_def off1_def lk_free_def spinlock_update_id)
qed simp

text \<open>Releasing an outer lock first (hand-over-hand, as \<open>exit\<close> does).\<close>

lemma lock1_commute:
  assumes "l \<noteq> m" shows "lock1 l (lock1 m k) = lock1 m (lock1 l k)"
  using assms by (auto intro!: lockst_eqI simp: lock1_def off1_def fun_upd_twist)

lemma unlock1_lock1_other [lock_simps, simp]:
  assumes "cpu_ok k" and "lk_free l k" and "l \<noteq> m"
  shows "unlock1 l (lock1 m (lock1 l k)) = lock1 m k"
proof -
  have "unlock1 l (lock1 m (lock1 l k)) = unlock1 l (lock1 l (lock1 m k))"
    using assms(3) by (simp add: lock1_commute)
  also have "\<dots> = lock1 m k"
    using assms by (intro unlock1_lock1) auto
  finally show ?thesis .
qed

lemma lk_update_id [simp]: "lk s = k \<Longrightarrow> s\<lparr>lk := k\<rparr> = s"
  by (cases s) simp

lemma acquire_lock [simp]:
  "cpu_ok (lk s) \<Longrightarrow> lk_free l (lk s) \<Longrightarrow> acquire l s = (Ret (), s\<lparr>lk := lock1 l (lk s)\<rparr>)"
  by (rule acquire_eq)

lemma release_lock [simp]:
  "lk_held l (lk s) \<Longrightarrow> busy (lk s) \<Longrightarrow> release l s = (Ret (), s\<lparr>lk := unlock1 l (lk s)\<rparr>)"
  by (rule release_busy)

lemma on1_off1: "cpu_ok k \<Longrightarrow> on1 (off1 k) = k"
  by (intro lockst_eqI) (auto simp: on1_def off1_def cpu_ok_def mycpu_of_def cpu_noff_id)

lemma myproc_eq [simp]: "cpu_ok (lk s) \<Longrightarrow> myproc s = (Ret (c_proc (mycpu_of (lk s))), s)"
proof -
  assume ok: "cpu_ok (lk s)"
  then have "pop_off (s\<lparr>lk := off1 (lk s)\<rparr>) = (Ret (), s)"
    by (subst pop_off_eq) (auto simp: off1_def cpu_ok_def mycpu_of_def on1_off1 [OF ok, unfolded off1_def])
  with ok show ?thesis
    by (simp add: myproc_def push_off_eq mycpu_def cpuid_def getcpu_def off1_def mycpu_of_def)
qed

lemma mycpu_of_lock1 [simp]: "c_proc (mycpu_of (lock1 l k)) = c_proc (mycpu_of k)"
  by (simp add: mycpu_of_def)

section \<open>Frame rules\<close>

lemma unch_lk_ops:
  assumes "\<And>s k. f (s\<lparr>lk := k\<rparr>) = f s"
  shows "unch f (modlk g)" "unch f push_off" "unch f pop_off" "unch f (holding l)"
    "unch f (acquire l)" "unch f (release l)" "unch f myproc" "unch f mycpu" "unch f (initlock l nm)"
  unfolding acquire_def release_def myproc_def spinlock_defs initlock_def
  by (simp_all add: unch_rules assms)

lemma unch_tp:
  "unch (\<lambda>s. tp (lk s)) push_off" "unch (\<lambda>s. tp (lk s)) pop_off" "unch (\<lambda>s. tp (lk s)) (acquire l)"
  "unch (\<lambda>s. tp (lk s)) (release l)" "unch (\<lambda>s. tp (lk s)) myproc"
  unfolding acquire_def release_def myproc_def spinlock_defs
  by (simp_all add: unch_rules)

section \<open>Nesting of push_off and pop_off\<close>

definition nest_ok :: "lockst \<Rightarrow> bool" where
  "nest_ok k \<longleftrightarrow> 0 \<le> noff (mycpu_of k) \<and> (0 < noff (mycpu_of k) \<longrightarrow> \<not> sie k (tp k))"

text \<open>What the last \<open>pop_off\<close> has to restore the interrupt bit to.\<close>

definition saved_sie :: "lockst \<Rightarrow> bool" where
  "saved_sie k = (if noff (mycpu_of k) = 0 then sie k (tp k) else intena (mycpu_of k))"

definition push1 :: "lockst \<Rightarrow> lockst" where
  "push1 k = k\<lparr>sie := (sie k)(tp k := False),
     cpus := (cpus k)(tp k := (cpus k (tp k))\<lparr>intena := saved_sie k, noff := noff (cpus k (tp k)) + 1\<rparr>)\<rparr>"

lemma push_off_push1: "push_off s = (Ret (), s\<lparr>lk := push1 (lk s)\<rparr>)"
  by (simp add: spinlock_defs push1_def kwhen_def saved_sie_def mycpu_of_def)

lemma push1_nest:
  assumes "nest_ok k"
  shows "nest_ok (push1 k)" "tp (push1 k) = tp k" "saved_sie (push1 k) = saved_sie k"
    "noff (mycpu_of (push1 k)) = noff (mycpu_of k) + 1"
  using assms by (auto simp: push1_def nest_ok_def mycpu_of_def saved_sie_def)

lemma on1_nest:
  assumes "nest_ok k" and "1 \<le> noff (mycpu_of k)"
  shows "nest_ok (on1 k)" "saved_sie (on1 k) = saved_sie k" "noff (mycpu_of (on1 k)) = noff (mycpu_of k) - 1"
  using assms by (auto simp: on1_def nest_ok_def mycpu_of_def saved_sie_def)

lemma pop_off_on1:
  assumes "nest_ok (lk s)" and "1 \<le> noff (mycpu_of (lk s))"
  shows "pop_off s = (Ret (), s\<lparr>lk := on1 (lk s)\<rparr>)"
  using assms by (intro pop_off_eq) (auto simp: nest_ok_def mycpu_of_def)

lemma pushes_nest:
  assumes "nest_ok (lk s)"
  shows "\<exists>k. kfor xs (\<lambda>_. push_off) s = (Ret (), s\<lparr>lk := k\<rparr>) \<and> nest_ok k \<and> tp k = tp (lk s)
     \<and> saved_sie k = saved_sie (lk s) \<and> noff (mycpu_of k) = noff (mycpu_of (lk s)) + int (length xs)"
  using assms
proof (induction xs arbitrary: s)
  case Nil
  then show ?case by (intro exI [of _ "lk s"]) simp
next
  case (Cons x xs)
  let ?s = "s\<lparr>lk := push1 (lk s)\<rparr>"
  have "nest_ok (lk ?s)" using push1_nest [OF Cons.prems] by simp
  from Cons.IH [OF this] obtain k where
    k: "kfor xs (\<lambda>_. push_off) ?s = (Ret (), ?s\<lparr>lk := k\<rparr>)" "nest_ok k" "tp k = tp (lk ?s)"
      "saved_sie k = saved_sie (lk ?s)" "noff (mycpu_of k) = noff (mycpu_of (lk ?s)) + int (length xs)"
    by blast
  then show ?case
    using push1_nest [OF Cons.prems] by (intro exI [of _ k]) (simp add: push_off_push1 [of s])
qed

lemma pops_nest:
  assumes "nest_ok (lk s)" and "int (length xs) \<le> noff (mycpu_of (lk s))"
  shows "\<exists>k. kfor xs (\<lambda>_. pop_off) s = (Ret (), s\<lparr>lk := k\<rparr>) \<and> nest_ok k \<and> tp k = tp (lk s)
     \<and> saved_sie k = saved_sie (lk s) \<and> noff (mycpu_of k) = noff (mycpu_of (lk s)) - int (length xs)"
  using assms
proof (induction xs arbitrary: s)
  case Nil
  then show ?case by (intro exI [of _ "lk s"]) simp
next
  case (Cons x xs)
  let ?s = "s\<lparr>lk := on1 (lk s)\<rparr>"
  have pre: "nest_ok (lk s)" "1 \<le> noff (mycpu_of (lk s))" using Cons.prems by simp_all
  have "nest_ok (lk ?s)" "int (length xs) \<le> noff (mycpu_of (lk ?s))"
    using on1_nest [OF pre] Cons.prems by simp_all
  from Cons.IH [OF this] obtain k where
    k: "kfor xs (\<lambda>_. pop_off) ?s = (Ret (), ?s\<lparr>lk := k\<rparr>)" "nest_ok k" "tp k = tp (lk ?s)"
      "saved_sie k = saved_sie (lk ?s)" "noff (mycpu_of k) = noff (mycpu_of (lk ?s)) - int (length xs)"
    by blast
  then show ?case
    using on1_nest [OF pre] by (intro exI [of _ k]) (simp add: pop_off_on1 [OF pre])
qed

section \<open>Mutual exclusion\<close>

definition inside :: "lpc \<Rightarrow> bool" where
  "inside pc \<longleftrightarrow> pc \<in> {LP_swapped, LP_critical, LP_leaving}"

definition spin_inv :: "spinsys \<Rightarrow> bool" where
  "spin_inv s \<longleftrightarrow> (\<exists>h.
     (locked (sp_lock s) \<noteq> 0 \<longleftrightarrow> h \<noteq> None) \<and>
     (\<forall>c. inside (sp_pc s c) \<longleftrightarrow> h = Some c) \<and>
     (\<forall>c. lk_cpu (sp_lock s) = Some c \<longleftrightarrow> sp_pc s c = LP_critical))"

lemma inside_simps [simp]:
  "inside LP_swapped" "inside LP_critical" "inside LP_leaving" "\<not> inside LP_out" "\<not> inside LP_spinning"
  by (simp_all add: inside_def)

lemma spin_inv_init: "spin_inv spin_init"
  by (simp add: spin_inv_def spin_init_def zero_lock_def)

lemma spin_invI:
  "(locked (sp_lock s) \<noteq> 0 \<longleftrightarrow> h \<noteq> None) \<Longrightarrow> (\<And>c. inside (sp_pc s c) \<longleftrightarrow> h = Some c) \<Longrightarrow>
   (\<And>c. lk_cpu (sp_lock s) = Some c \<longleftrightarrow> sp_pc s c = LP_critical) \<Longrightarrow> spin_inv s"
  unfolding spin_inv_def by blast

lemma spin_step_inv:
  assumes "spin_step s t" and "spin_inv s" shows "spin_inv t"
proof -
  from assms(2) obtain h where
    h: "locked (sp_lock s) \<noteq> 0 \<longleftrightarrow> h \<noteq> None" "\<And>c. inside (sp_pc s c) \<longleftrightarrow> h = Some c"
       "\<And>c. lk_cpu (sp_lock s) = Some c \<longleftrightarrow> sp_pc s c = LP_critical"
    unfolding spin_inv_def by blast
  have crit: "sp_pc s d = LP_critical \<Longrightarrow> h = Some d" for d
    using h(2) [of d] by simp
  from assms(1) show ?thesis
  proof cases
    case (enter c)
    with h(2) [of c] have "h \<noteq> Some c" by simp
    with enter show ?thesis by (intro spin_invI [where h = h]) (simp_all add: h)
  next
    case (swap_fails c)
    then show ?thesis using h(1) by (intro spin_invI [where h = h]) (simp_all add: h(2,3))
  next
    case (swap_succeeds c)
    with h(1) have "h = None" by simp
    with swap_succeeds show ?thesis by (intro spin_invI [where h = "Some c"]) (auto simp: h(2,3))
  next
    case (set_cpu c)
    with h(2) [of c] have hc: "h = Some c" by simp
    then have "sp_pc s d \<noteq> LP_critical" if "d \<noteq> c" for d
      using crit [of d] that by auto
    then show ?thesis
      using set_cpu(1) h(1) by (intro spin_invI [where h = h]) (auto simp: h(2) hc)
  next
    case (clear_cpu c)
    with h(2) [of c] have hc: "h = Some c" by simp
    then have "sp_pc s d \<noteq> LP_critical" if "d \<noteq> c" for d
      using crit [of d] that by auto
    then show ?thesis
      using clear_cpu(1) h(1) by (intro spin_invI [where h = h]) (auto simp: h(2) hc)
  next
    case (unlock c)
    with h(2) [of c] have hc: "h = Some c" by simp
    have no: "sp_pc s d \<noteq> LP_critical" for d
      using crit [of d] hc unlock by auto
    then have "lk_cpu (sp_lock s) = None" using h(3) by (metis option.exhaust)
    then show ?thesis
      using unlock(1) no by (intro spin_invI [where h = None]) (auto simp: h(2) hc)
  qed
qed

lemma spin_reachable_inv: "spin_reachable s \<Longrightarrow> spin_inv s"
proof (induction rule: spin_reachable.induct)
  case start
  show ?case by (rule spin_inv_init)
next
  case (step s t)
  from step(2,3) show ?case by (rule spin_step_inv)
qed

section \<open>Properties\<close>

text \<open>
  C6. Mutual exclusion of spinlocks. In every state any number of harts can reach by
  interleaving the memory operations of \<open>acquire\<close> and \<open>release\<close> on one lock, at most one
  hart is between its successful swap and its unlocking store, and \<open>holding\<close> is true of
  exactly the hart in its critical section.
\<close>

theorem spin_mutual_exclusion:
  assumes "spin_reachable s"
  shows "(inside (sp_pc s c) \<and> inside (sp_pc s d) \<longrightarrow> c = d)
    \<and> ((locked (sp_lock s) \<noteq> 0 \<and> lk_cpu (sp_lock s) = Some c) \<longleftrightarrow> sp_pc s c = LP_critical)"
proof -
  from spin_reachable_inv [OF assms] obtain h where
    h: "locked (sp_lock s) \<noteq> 0 \<longleftrightarrow> h \<noteq> None" "\<And>c. inside (sp_pc s c) \<longleftrightarrow> h = Some c"
       "\<And>c. lk_cpu (sp_lock s) = Some c \<longleftrightarrow> sp_pc s c = LP_critical"
    unfolding spin_inv_def by blast
  have "sp_pc s c = LP_critical \<Longrightarrow> locked (sp_lock s) \<noteq> 0"
    using h(1) h(2) [of c] by simp
  with h show ?thesis by auto
qed

theorem spin_mutual_exclusion_witness:
  "\<exists>s. spin_reachable s \<and> sp_pc s 0 = LP_critical \<and> sp_pc s 1 = LP_spinning \<and> \<not> inside (sp_pc s 1)"
proof -
  let ?s1 = "spin_init\<lparr>sp_pc := (sp_pc spin_init)(0 := LP_spinning)\<rparr>"
  let ?s2 = "?s1\<lparr>sp_lock := (sp_lock ?s1)\<lparr>locked := 1\<rparr>, sp_pc := (sp_pc ?s1)(0 := LP_swapped)\<rparr>"
  let ?s3 = "?s2\<lparr>sp_lock := (sp_lock ?s2)\<lparr>lk_cpu := Some 0\<rparr>, sp_pc := (sp_pc ?s2)(0 := LP_critical)\<rparr>"
  let ?s4 = "?s3\<lparr>sp_pc := (sp_pc ?s3)(1 := LP_spinning)\<rparr>"
  have "spin_reachable ?s1"
    by (rule spin_reachable.step [OF spin_reachable.start]) (rule spin_step.enter, simp add: spin_init_def)
  then have "spin_reachable ?s2"
    by (rule spin_reachable.step) (rule spin_step.swap_succeeds, simp_all add: spin_init_def zero_lock_def)
  then have "spin_reachable ?s3"
    by (rule spin_reachable.step) (rule spin_step.set_cpu, simp)
  then have r: "spin_reachable ?s4"
    by (rule spin_reachable.step) (rule spin_step.enter, simp add: spin_init_def)
  with spin_mutual_exclusion [OF r, of 0 1] show ?thesis by (intro exI [of _ ?s4]) simp
qed

text \<open>
  C38. \<open>push_off\<close> and \<open>pop_off\<close> are matched: after any number of \<open>push_off\<close>s and as many
  \<open>pop_off\<close>s the nesting depth is what it was, no panic occurred, nothing outside the lock
  state changed, and the interrupt-enable bit of the hart is what it was before the first
  \<open>push_off\<close>.
\<close>

theorem push_pop_matched:
  assumes "nest_ok (lk s)"
  shows "\<exists>k. kthen (kfor [0..<n] (\<lambda>_. push_off)) (kfor [0..<n] (\<lambda>_. pop_off)) s = (Ret (), s\<lparr>lk := k\<rparr>)
     \<and> noff (mycpu_of k) = noff (mycpu_of (lk s)) \<and> sie k (tp k) = sie (lk s) (tp (lk s)) \<and> nest_ok k"
proof -
  from pushes_nest [OF assms, of "[0..<n]"] obtain k1 where
    k1: "kfor [0..<n] (\<lambda>_. push_off) s = (Ret (), s\<lparr>lk := k1\<rparr>)" "nest_ok k1" "tp k1 = tp (lk s)"
      "saved_sie k1 = saved_sie (lk s)" "noff (mycpu_of k1) = noff (mycpu_of (lk s)) + int n"
    by auto
  have "int (length [0..<n]) \<le> noff (mycpu_of (lk (s\<lparr>lk := k1\<rparr>)))"
    using k1(5) assms by (simp add: nest_ok_def)
  from pops_nest [OF _ this] k1 obtain k2 where
    k2: "kfor [0..<n] (\<lambda>_. pop_off) (s\<lparr>lk := k1\<rparr>) = (Ret (), s\<lparr>lk := k2\<rparr>)" "nest_ok k2" "tp k2 = tp (lk s)"
      "saved_sie k2 = saved_sie (lk s)" "noff (mycpu_of k2) = noff (mycpu_of (lk s))"
    by auto
  have "sie k2 (tp k2) = sie (lk s) (tp (lk s))"
    using k2 assms by (auto simp: saved_sie_def nest_ok_def split: if_splits)
  with k1 k2 show ?thesis by (intro exI [of _ k2]) simp
qed

theorem push_pop_matched_witness:
  "nest_ok (lk zero_state) \<and> (\<exists>k. kthen (kfor [0..<3] (\<lambda>_. push_off)) (kfor [0..<3] (\<lambda>_. pop_off)) zero_state
     = (Ret (), zero_state\<lparr>lk := k\<rparr>) \<and> \<not> sie k (tp k))"
proof -
  have ok: "nest_ok (lk zero_state)"
    by (simp add: zero_defs nest_ok_def mycpu_of_def)
  moreover have "\<not> sie (lk zero_state) (tp (lk zero_state))"
    by (simp add: zero_defs)
  ultimately show ?thesis using push_pop_matched [OF ok, of 3] by auto
qed

end
