(* ===== verification/Xv6_Kalloc.thy ===== *)
theory Xv6_Kalloc
  imports Xv6_Spinlock
begin

text \<open>
  \<^verbatim>\<open>kernel/kalloc.c\<close>: the allocator of physical pages. The free list is the linked list the C
  code keeps inside the free pages themselves: \<open>freelist\<close> is \<open>kmem.freelist\<close>, and the link
  \<open>r->next\<close> is the 64-bit word at the start of page \<open>r\<close>.

  \<open>free_pages s xs\<close> relates a state to the stack \<open>xs\<close> of free pages. The locale
  \<open>page_allocator\<close> is what the rest of the kernel relies on; \<open>kalloc\<close>/\<open>kfree\<close> interpret it.
\<close>

section \<open>The code\<close>

definition kfree :: "u64 \<Rightarrow> unit op" where
  "kfree pa =
     kbind (kget sym_end) (\<lambda>e.
     if pa mod PGSIZE \<noteq> 0 \<or> pa < e \<or> PHYSTOP \<le> pa then kpanic ''kfree'' else
     kthen (kmod (\<lambda>s. s\<lparr>mem := memset (mem s) pa 1 4096\<rparr>)) (
     kthen (acquire L_kmem) (
     kthen (kmod (\<lambda>s. s\<lparr>mem := store64 (mem s) pa (freelist s)\<rparr>)) (
     kthen (kmod (\<lambda>s. s\<lparr>freelist := pa\<rparr>))
     (release L_kmem)))))"

definition kalloc :: "u64 op" where
  "kalloc =
     kthen (acquire L_kmem) (
     kbind (kget freelist) (\<lambda>r.
     kthen (kwhen (r \<noteq> 0) (kmod (\<lambda>s. s\<lparr>freelist := load64 (mem s) r\<rparr>))) (
     kthen (release L_kmem) (
     kthen (kwhen (r \<noteq> 0) (kmod (\<lambda>s. s\<lparr>mem := memset (mem s) r 5 4096\<rparr>)))
     (kret r)))))"

text \<open>The loop of \<open>freerange\<close>; pointer addition does not wrap around in C.\<close>

function freerange_loop :: "u64 \<Rightarrow> u64 \<Rightarrow> unit op" where
  "freerange_loop p pa_end =
     (if unat p + 4096 \<le> unat pa_end then kthen (kfree p) (freerange_loop (p + PGSIZE) pa_end)
      else kret ())"
  by auto
termination
proof (relation "measure (\<lambda>(p, pa_end). unat pa_end - unat p)", goal_cases)
  case (2 p pa_end)
  then have "unat p + 4096 < 18446744073709551616" using unat_lt64 [of pa_end] by simp
  then have "unat (p + PGSIZE) = unat p + 4096" by (simp add: unat_add64 PGSIZE_def)
  with 2 show ?case by simp
qed simp

definition freerange :: "u64 \<Rightarrow> u64 \<Rightarrow> unit op" where
  "freerange pa_start pa_end = freerange_loop (PGROUNDUP pa_start) pa_end"

definition kinit :: "unit op" where
  "kinit = kthen (initlock L_kmem ''kmem'') (kbind (kget sym_end) (\<lambda>e. freerange e PHYSTOP))"

declare freerange_loop.simps [simp del]

section \<open>The interface\<close>

text \<open>
  A stack of free pages: \<open>inv s xs\<close> holds when \<open>xs\<close> are the free pages of \<open>s\<close> in the order
  in which they are handed out, \<open>legal s p\<close> when \<open>p\<close> is a page the allocator may be given.
\<close>

locale page_allocator =
  fixes alloc :: "('s, 'p) km" and dealloc :: "'p \<Rightarrow> ('s, unit) km"
    and inv :: "'s \<Rightarrow> 'p list \<Rightarrow> bool" and legal :: "'s \<Rightarrow> 'p \<Rightarrow> bool" and null :: 'p
  assumes inv_distinct: "inv s xs \<Longrightarrow> distinct xs"
    and inv_legal: "inv s xs \<Longrightarrow> x \<in> set xs \<Longrightarrow> legal s x"
    and null_illegal: "inv s xs \<Longrightarrow> \<not> legal s null"
    and alloc_none: "inv s [] \<Longrightarrow> alloc s = (Ret null, s)"
    and alloc_some: "inv s (x # xs) \<Longrightarrow> \<exists>t. alloc s = (Ret x, t) \<and> inv t xs \<and> legal t = legal s"
    and dealloc_ok: "inv s xs \<Longrightarrow> legal s x \<Longrightarrow> x \<notin> set xs \<Longrightarrow>
      \<exists>t. dealloc x s = (Ret (), t) \<and> inv t (x # xs) \<and> legal t = legal s"
begin

primrec alloc_n :: "nat \<Rightarrow> ('s, 'p list) km" where
  "alloc_n 0 = kret []"
| "alloc_n (Suc n) = kbind alloc (\<lambda>p. if p = null then kret [] else kbind (alloc_n n) (\<lambda>ps. kret (p # ps)))"

lemma alloc_n_gives:
  "inv s xs \<Longrightarrow> \<exists>t. alloc_n n s = (Ret (take n xs), t) \<and> inv t (drop n xs) \<and> legal t = legal s"
proof (induction n arbitrary: s xs)
  case 0
  then show ?case by simp
next
  case (Suc n)
  show ?case
  proof (cases xs)
    case Nil
    with Suc.prems show ?thesis by (simp add: alloc_none)
  next
    case (Cons x ys)
    then obtain t where t: "alloc s = (Ret x, t)" "inv t ys" "legal t = legal s"
      using alloc_some Suc.prems by blast
    have "x \<noteq> null" using null_illegal inv_legal Suc.prems Cons by (metis list.set_intros(1))
    moreover from Suc.IH [OF t(2)] obtain u where
      "alloc_n n t = (Ret (take n ys), u)" "inv u (drop n ys)" "legal u = legal t" by blast
    ultimately show ?thesis using t Cons by simp
  qed
qed

lemma free_all:
  "inv s xs \<Longrightarrow> distinct ps \<Longrightarrow> (\<forall>p\<in>set ps. legal s p) \<Longrightarrow> set ps \<inter> set xs = {} \<Longrightarrow>
   \<exists>t. kfor ps dealloc s = (Ret (), t) \<and> inv t (rev ps @ xs) \<and> legal t = legal s"
proof (induction ps arbitrary: s xs)
  case Nil
  then show ?case by simp
next
  case (Cons p ps)
  then obtain t where t: "dealloc p s = (Ret (), t)" "inv t (p # xs)" "legal t = legal s"
    using dealloc_ok [of s xs p] by auto
  from Cons.IH [OF t(2)] Cons.prems t(3) obtain u where
    "kfor ps dealloc t = (Ret (), u)" "inv u (rev ps @ p # xs)" "legal u = legal t" by auto
  with t show ?case by auto
qed

lemma alloc_free_restores:
  assumes "inv s xs"
  shows "\<exists>t. kbind (alloc_n n) (\<lambda>ps. kfor (rev ps) dealloc) s = (Ret (), t) \<and> inv t xs \<and> legal t = legal s"
proof -
  from alloc_n_gives [OF assms, of n] obtain t where
    t: "alloc_n n s = (Ret (take n xs), t)" "inv t (drop n xs)" "legal t = legal s" by blast
  have d: "distinct (take n xs)" "set (take n xs) \<inter> set (drop n xs) = {}"
    using inv_distinct [OF assms] by (simp_all add: set_take_disj_set_drop_if_distinct)
  have "\<forall>p\<in>set (rev (take n xs)). legal t p"
    using inv_legal [OF assms] t(3) by (auto dest: in_set_takeD)
  with free_all [OF t(2), of "rev (take n xs)"] d t show ?thesis by auto
qed

end

section \<open>The free list is a stack of pages\<close>

primrec free_chain :: "memory \<Rightarrow> u64 \<Rightarrow> u64 list \<Rightarrow> bool" where
  "free_chain m a [] \<longleftrightarrow> a = 0"
| "free_chain m a (x # xs) \<longleftrightarrow> a = x \<and> x \<noteq> 0 \<and> free_chain m (load64 m x) xs"

definition legal_page :: "kstate \<Rightarrow> u64 \<Rightarrow> bool" where
  "legal_page s pa \<longleftrightarrow> pa mod PGSIZE = 0 \<and> sym_end s \<le> pa \<and> pa < PHYSTOP"

definition free_pages :: "kstate \<Rightarrow> u64 list \<Rightarrow> bool" where
  "free_pages s xs \<longleftrightarrow> 0 < sym_end s \<and> distinct xs \<and> (\<forall>x\<in>set xs. legal_page s x)
     \<and> free_chain (mem s) (freelist s) xs"

definition kmem_ok :: "kstate \<Rightarrow> u64 list \<Rightarrow> bool" where
  "kmem_ok s xs \<longleftrightarrow> free_pages s xs \<and> cpu_ok (lk s) \<and> lk_free L_kmem (lk s)"

definition in_page :: "u64 \<Rightarrow> u64 \<Rightarrow> bool" where
  "in_page pa x \<longleftrightarrow> unat (x - pa) < 4096"

lemma page_unat: "pa mod PGSIZE = 0 \<longleftrightarrow> unat pa mod 4096 = 0"
  by (simp add: PGSIZE_def word_unat_eq_iff unat_mod_distrib)

lemma in_block_iff:
  assumes "4096 * k \<le> (n :: nat)" shows "n - 4096 * k < 4096 \<longleftrightarrow> n div 4096 = k"
proof -
  obtain d where n: "n = 4096 * k + d" using assms by (metis le_Suc_ex)
  then have "n div 4096 = k + d div 4096" by simp
  then show ?thesis using n by (auto simp: div_eq_0_iff)
qed

lemma unat_minus_wrap:
  assumes "unat (x :: u64) < unat p"
  shows "unat (x - p) = unat x + (18446744073709551616 - unat p)"
  using assms unat_lt64 [of p] by (simp add: unat_sub_if_size word_size)

lemma in_page_iff:
  assumes "unat pa mod 4096 = 0"
  shows "in_page pa x \<longleftrightarrow> unat x div 4096 = unat pa div 4096"
proof -
  obtain k where k: "unat pa = 4096 * k" using assms by (auto simp: mod_eq_0_iff_dvd)
  show ?thesis
  proof (cases "unat pa \<le> unat x")
    case True
    then have "unat (x - pa) = unat x - unat pa" by (simp add: unat_sub word_le_nat_alt)
    with in_block_iff [of k "unat x"] True k show ?thesis by (simp add: in_page_def)
  next
    case False
    have "4096 * k < 4096 * 4503599627370496" using unat_lt64 [of pa] k by simp
    then have "k \<le> 4503599627370495" by simp
    then have "unat (x - pa) \<ge> 4096" using unat_minus_wrap [of x pa] False k by simp
    moreover have "unat x div 4096 < k" using False k by (simp add: less_mult_imp_div_less mult.commute)
    ultimately show ?thesis using k by (simp add: in_page_def)
  qed
qed

lemma in_page_self [simp]: "in_page pa pa"
  by (simp add: in_page_def)

lemma in_page_offset: "n < 4096 \<Longrightarrow> in_page pa (pa + of_nat n)"
  by (simp add: in_page_def)

lemma in_page_disjoint:
  assumes "pa mod PGSIZE = 0" "pb mod PGSIZE = 0" "pa \<noteq> pb" "in_page pa x"
  shows "\<not> in_page pb x"
proof
  assume "in_page pb x"
  with assms have "unat pa div 4096 = unat pb div 4096" by (simp add: in_page_iff page_unat)
  moreover have "unat pa = unat pa div 4096 * 4096" "unat pb = unat pb div 4096 * 4096"
    using assms(1,2) div_mult_mod_eq [of "unat pa" 4096] div_mult_mod_eq [of "unat pb" 4096]
    by (simp_all add: page_unat)
  ultimately have "unat pa = unat pb" by simp
  with assms(3) show False by (simp add: word_unat_eq_iff)
qed

lemma legal_page_nonzero: "0 < sym_end s \<Longrightarrow> legal_page s x \<Longrightarrow> x \<noteq> 0"
  by (auto simp: legal_page_def)

lemma free_chain_frame:
  assumes "\<And>x y. x \<in> set xs \<Longrightarrow> in_page x y \<Longrightarrow> m' y = m y"
  shows "free_chain m' a xs = free_chain m a xs"
  using assms
proof (induction xs arbitrary: a)
  case (Cons x xs)
  have "load64 m' x = load64 m x"
  proof (rule load64_cong)
    fix i :: nat assume "i < 8"
    then show "m' (x + of_nat i) = m (x + of_nat i)"
      by (intro Cons.prems [of x]) (simp_all add: in_page_offset)
  qed
  moreover have "free_chain m' (load64 m x) xs = free_chain m (load64 m x) xs"
    by (rule Cons.IH, rule Cons.prems) simp_all
  ultimately show ?case by simp
qed simp

lemma free_pages_disjoint:
  assumes "free_pages s xs" "legal_page s x" "x \<notin> set xs" "z \<in> set xs" "in_page z y"
  shows "\<not> in_page x y"
proof (rule in_page_disjoint [of z x])
  show "z mod PGSIZE = 0" "x mod PGSIZE = 0" using assms by (auto simp: free_pages_def legal_page_def)
qed (use assms in auto)

lemma free_pages_tl:
  assumes "free_pages s (x # xs)"
  shows "free_pages (s\<lparr>freelist := load64 (mem s) x\<rparr>) xs" "legal_page s x" "x \<notin> set xs"
    "freelist s = x" "x \<noteq> 0"
  using assms by (auto simp: free_pages_def legal_page_def)

lemma load64_page_frame:
  assumes "\<And>y. in_page pa y \<Longrightarrow> m' y = m y"
  shows "load64 m' pa = load64 m pa"
  using assms by (intro load64_cong) (simp add: in_page_offset)

lemma memset_page: "memset m pa c 4096 x = (if in_page pa x then word_of_int c else m x)"
  by (simp add: memset_apply in_page_def)

lemma store64_outside: "\<not> in_page pa x \<Longrightarrow> store64 m pa v x = m x"
  by (simp add: store64_apply in_page_def)

lemma kfree_eq:
  assumes "cpu_ok (lk s)" "lk_free L_kmem (lk s)" "legal_page s pa"
  shows "kfree pa s = (Ret (), s\<lparr>mem := store64 (memset (mem s) pa 1 4096) pa (freelist s), freelist := pa\<rparr>)"
  using assms by (simp add: kfree_def legal_page_def not_less not_le)

lemma kfree_illegal: "\<not> legal_page s pa \<Longrightarrow> kfree pa s = (Exc (Panic ''kfree''), s)"
  by (auto simp: kfree_def legal_page_def not_less not_le)

lemma kalloc_eq:
  assumes "cpu_ok (lk s)" "lk_free L_kmem (lk s)"
  shows "kalloc s = (Ret (freelist s), if freelist s = 0 then s else
     s\<lparr>freelist := load64 (mem s) (freelist s), mem := memset (mem s) (freelist s) 5 4096\<rparr>)"
  using assms by (simp add: kalloc_def kwhen_def)

lemma kfree_pushes:
  assumes ok: "kmem_ok s xs" and x: "legal_page s x" "x \<notin> set xs"
  shows "\<exists>t. kfree x s = (Ret (), t) \<and> kmem_ok t (x # xs) \<and> (\<forall>y. \<not> in_page x y \<longrightarrow> mem t y = mem s y)
     \<and> t\<lparr>mem := mem s, freelist := freelist s\<rparr> = s"
proof -
  let ?t = "s\<lparr>mem := store64 (memset (mem s) x 1 4096) x (freelist s), freelist := x\<rparr>"
  have out: "\<not> in_page x y \<Longrightarrow> mem ?t y = mem s y" for y
    by (simp add: store64_outside memset_page)
  have "free_chain (mem ?t) (freelist s) xs = free_chain (mem s) (freelist s) xs"
  proof (rule free_chain_frame)
    fix z y assume "z \<in> set xs" "in_page z y"
    then show "mem ?t y = mem s y"
      using ok x by (intro out) (rule free_pages_disjoint, auto simp: kmem_ok_def)
  qed
  then have "kmem_ok ?t (x # xs)"
    using ok x by (auto simp: kmem_ok_def free_pages_def legal_page_def)
  moreover have "kfree x s = (Ret (), ?t)"
    using ok x by (intro kfree_eq) (auto simp: kmem_ok_def)
  ultimately show ?thesis using out by (intro exI [of _ ?t]) simp
qed

lemma kalloc_pops:
  assumes ok: "kmem_ok s (x # xs)"
  shows "\<exists>t. kalloc s = (Ret x, t) \<and> kmem_ok t xs \<and> (\<forall>y. mem t y = (if in_page x y then 5 else mem s y))
     \<and> t\<lparr>mem := mem s, freelist := freelist s\<rparr> = s"
proof -
  have "free_pages s (x # xs)" using ok by (simp add: kmem_ok_def)
  note tl = free_pages_tl [OF this]
  note x = tl(4,5)
  let ?t = "s\<lparr>freelist := load64 (mem s) x, mem := memset (mem s) x 5 4096\<rparr>"
  have "free_chain (mem ?t) (load64 (mem s) x) xs = free_chain (mem s) (load64 (mem s) x) xs"
  proof (rule free_chain_frame)
    fix z y assume "z \<in> set xs" "in_page z y"
    then have "\<not> in_page x y"
      using free_pages_disjoint [OF tl(1), of x z y] tl by (simp add: legal_page_def)
    then show "mem ?t y = mem s y" by (simp add: memset_page)
  qed
  then have "kmem_ok ?t xs"
    using ok x by (auto simp: kmem_ok_def free_pages_def legal_page_def)
  moreover have "kalloc s = (Ret x, ?t)"
    using ok x by (subst kalloc_eq) (auto simp: kmem_ok_def)
  ultimately show ?thesis by (intro exI [of _ ?t]) (simp add: memset_page)
qed

lemma kalloc_empty: "kmem_ok s [] \<Longrightarrow> kalloc s = (Ret 0, s)"
  by (subst kalloc_eq) (auto simp: kmem_ok_def free_pages_def)

lemma kstate_page_frame:
  assumes "t\<lparr>mem := mem s, freelist := freelist s\<rparr> = s"
  shows "legal_page t = legal_page s"
proof -
  have "sym_end (t\<lparr>mem := mem s, freelist := freelist s\<rparr>) = sym_end s" by (simp only: assms)
  then have "sym_end t = sym_end s" by simp
  then show ?thesis by (auto simp: legal_page_def fun_eq_iff)
qed

interpretation pages: page_allocator kalloc kfree kmem_ok legal_page 0
proof
  fix s xs x
  show "kmem_ok s xs \<Longrightarrow> distinct xs" by (simp add: kmem_ok_def free_pages_def)
  show "kmem_ok s xs \<Longrightarrow> x \<in> set xs \<Longrightarrow> legal_page s x" by (simp add: kmem_ok_def free_pages_def)
  show "kmem_ok s xs \<Longrightarrow> \<not> legal_page s 0"
    by (auto simp: kmem_ok_def free_pages_def legal_page_def)
  show "kmem_ok s [] \<Longrightarrow> kalloc s = (Ret 0, s)" by (rule kalloc_empty)
  show "kmem_ok s (x # xs) \<Longrightarrow> \<exists>t. kalloc s = (Ret x, t) \<and> kmem_ok t xs \<and> legal_page t = legal_page s"
    using kalloc_pops [of s x xs] kstate_page_frame by blast
  show "kmem_ok s xs \<Longrightarrow> legal_page s x \<Longrightarrow> x \<notin> set xs \<Longrightarrow>
      \<exists>t. kfree x s = (Ret (), t) \<and> kmem_ok t (x # xs) \<and> legal_page t = legal_page s"
    using kfree_pushes [of s xs x] kstate_page_frame by blast
qed

section \<open>Initialisation\<close>

definition page_range :: "u64 \<Rightarrow> u64 \<Rightarrow> u64 list" where
  "page_range p e = map (\<lambda>i. p + of_nat (4096 * i)) [0..<(unat e - unat p) div 4096]"

lemma upt_Suc_shift: "[0..<Suc n] = 0 # map Suc [0..<n]"
  by (simp add: upt_conv_Cons map_Suc_upt del: upt_Suc)

lemma page_range_step:
  assumes "unat p + 4096 \<le> unat e"
  shows "page_range p e = p # page_range (p + PGSIZE) e"
proof -
  have "unat p + 4096 < 18446744073709551616" using assms unat_lt64 [of e] by simp
  then have p: "unat (p + PGSIZE) = unat p + 4096" by (simp add: unat_add64 PGSIZE_def)
  obtain d where d: "unat e - unat p = 4096 + d" using assms by (metis add_le_imp_le_diff add.commute le_iff_add)
  have "(unat e - unat p) div 4096 = Suc ((unat e - unat (p + PGSIZE)) div 4096)"
    using d p by simp
  then show ?thesis
    by (simp add: page_range_def upt_Suc_shift PGSIZE_def algebra_simps del: upt_Suc)
qed

lemma freerange_loop_kfor: "freerange_loop p e = kfor (page_range p e) kfree"
proof (induction p e rule: freerange_loop.induct)
  case (1 p e)
  show ?case
  proof (cases "unat p + 4096 \<le> unat e")
    case True
    with 1 show ?thesis by (simp add: freerange_loop.simps [of p e] page_range_step)
  next
    case False
    then have "(unat e - unat p) div 4096 = 0" by (simp add: div_eq_0_iff)
    with False show ?thesis by (simp add: freerange_loop.simps [of p e] page_range_def)
  qed
qed

lemma unat_page_range_nth:
  assumes "i < (unat (e :: u64) - unat (p :: u64)) div 4096"
  shows "unat (p + of_nat (4096 * i)) = unat p + 4096 * i" "unat p + 4096 * i + 4096 \<le> unat e"
proof -
  have "Suc i \<le> (unat e - unat p) div 4096" using assms by simp
  then have "4096 * Suc i \<le> unat e - unat p" by (simp add: less_eq_div_iff_mult_less_eq mult.commute)
  then show le: "unat p + 4096 * i + 4096 \<le> unat e" by simp
  with unat_lt64 [of e] have "unat p + 4096 * i < 18446744073709551616" by simp
  then show "unat (p + of_nat (4096 * i)) = unat p + 4096 * i"
    by (simp add: unat_add64 del: of_nat_mult)
qed

lemma distinct_page_range: "distinct (page_range p e)"
  unfolding page_range_def distinct_map
proof (intro conjI inj_onI)
  fix i j assume ij: "i \<in> set [0..<(unat e - unat p) div 4096]" "j \<in> set [0..<(unat e - unat p) div 4096]"
    and eq: "p + of_nat (4096 * i) = p + of_nat (4096 * j)"
  from eq have "unat (p + of_nat (4096 * i)) = unat (p + of_nat (4096 * j))" by (simp only:)
  then show "i = j" using ij unat_page_range_nth(1) [of i e p] unat_page_range_nth(1) [of j e p] by simp
qed simp

lemma set_page_range:
  assumes "unat p mod 4096 = 0" "unat e mod 4096 = 0"
  shows "x \<in> set (page_range p e) \<longleftrightarrow> unat x mod 4096 = 0 \<and> p \<le> x \<and> x < e"
proof
  assume "x \<in> set (page_range p e)"
  then obtain i where i: "i < (unat e - unat p) div 4096" "x = p + of_nat (4096 * i)"
    by (auto simp: page_range_def)
  with unat_page_range_nth [of i e p] show "unat x mod 4096 = 0 \<and> p \<le> x \<and> x < e"
    using assms by (simp add: word_le_nat_alt word_less_nat_alt)
next
  assume x: "unat x mod 4096 = 0 \<and> p \<le> x \<and> x < e"
  obtain a b c where abc: "unat p = 4096 * a" "unat e = 4096 * b" "unat x = 4096 * c"
    using assms x unfolding mod_eq_0_iff_dvd by (metis dvdE)
  with x have "a \<le> c" "c < b" by (auto simp: word_le_nat_alt word_less_nat_alt)
  have "unat e - unat p = 4096 * (b - a)" using abc by (simp add: right_diff_distrib')
  with \<open>a \<le> c\<close> \<open>c < b\<close> have i: "c - a < (unat e - unat p) div 4096" by simp
  have "unat (p + of_nat (4096 * (c - a))) = unat x"
    using unat_page_range_nth(1) [OF i] abc \<open>a \<le> c\<close> by simp
  then have "x = p + of_nat (4096 * (c - a))" by (simp add: word_unat_eq_iff)
  with i show "x \<in> set (page_range p e)" by (auto simp: page_range_def)
qed

lemma unat_PGROUNDUP:
  assumes "unat a \<le> 18446744073709547520"
  shows "unat (PGROUNDUP a) = (unat a + 4095) div 4096 * 4096"
proof -
  have "unat (a + 4095) = unat a + 4095" using assms by (simp add: unat_add64)
  then show ?thesis by (simp add: PGROUNDUP_as_down unat_PGROUNDDOWN minus_mod_eq_div_mult)
qed

lemma round_up_le_iff:
  assumes "(k :: nat) mod 4096 = 0"
  shows "(n + 4095) div 4096 * 4096 \<le> k \<longleftrightarrow> n \<le> k"
proof -
  obtain b where k: "k = 4096 * b" using assms by auto
  have "(n + 4095) div 4096 * 4096 \<le> k \<longleftrightarrow> (n + 4095) div 4096 < Suc b" using k by auto
  also have "\<dots> \<longleftrightarrow> n + 4095 < Suc b * 4096" by (rule div_less_iff_less_mult) simp
  finally show ?thesis using k by auto
qed

text \<open>The parts of the state that no operation on pages, page tables or user memory reaches.\<close>

definition mem_blind :: "(kstate \<Rightarrow> 'x) \<Rightarrow> bool" where
  "mem_blind f \<longleftrightarrow> (\<forall>s k. f (s\<lparr>lk := k\<rparr>) = f s) \<and> (\<forall>s m. f (s\<lparr>mem := m\<rparr>) = f s)
     \<and> (\<forall>s l. f (s\<lparr>freelist := l\<rparr>) = f s)"

lemma unch_kmem [unch_rules]:
  assumes "mem_blind f"
  shows "unch f (kfree pa)" "unch f kalloc"
  using assms unfolding kfree_def kalloc_def mem_blind_def
  by (simp_all add: unch_rules unch_lk_ops)

lemma initlock_kmem:
  assumes "cpu_ok (lk s)"
  obtains k where "initlock L_kmem nm s = (Ret (), s\<lparr>lk := k\<rparr>)" "cpu_ok k" "lk_free L_kmem k"
  using assms
  by (auto simp: initlock_def modlock_def cpu_ok_def lk_free_def mycpu_of_def)

lemma kernel_pages:
  assumes "sym_end s \<le> PHYSTOP"
  shows "pa \<in> set (page_range (PGROUNDUP (sym_end s)) PHYSTOP) \<longleftrightarrow> legal_page s pa"
proof -
  have "unat PHYSTOP = 2281701376" by (simp add: PHYSTOP_def KERNBASE_def)
  then have e: "unat PHYSTOP mod 4096 = 0" "unat (sym_end s) \<le> 18446744073709547520"
    using assms by (simp_all add: word_le_nat_alt)
  have "unat (PGROUNDUP (sym_end s)) mod 4096 = 0" using e(2) by (simp add: unat_PGROUNDUP)
  moreover have "PGROUNDUP (sym_end s) \<le> pa \<longleftrightarrow> sym_end s \<le> pa" if "unat pa mod 4096 = 0"
    using that e(2) by (simp add: word_le_nat_alt unat_PGROUNDUP round_up_le_iff)
  ultimately show ?thesis using e(1)
    by (auto simp: set_page_range legal_page_def page_unat)
qed

text \<open>
  C17. The page allocator is a stack of distinct free pages. \<open>kalloc\<close> returns null and changes
  nothing when no page is free, and otherwise pops the top page and fills that page, and only
  that page, with the byte 5. \<open>kfree\<close> of a page that is not free pushes it and touches only
  that page; of an address that is misaligned or outside \<open>[end, PHYSTOP)\<close> it panics. No other
  part of the kernel state changes, and the lock is free again.
\<close>

theorem kalloc_kfree_stack:
  assumes "kmem_ok s xs"
  shows "(xs = [] \<longrightarrow> kalloc s = (Ret 0, s))
    \<and> (\<forall>x ys. xs = x # ys \<longrightarrow> (\<exists>t. kalloc s = (Ret x, t) \<and> kmem_ok t ys
          \<and> (\<forall>y. mem t y = (if in_page x y then 5 else mem s y)) \<and> t\<lparr>mem := mem s, freelist := freelist s\<rparr> = s))
    \<and> (legal_page s p \<and> p \<notin> set xs \<longrightarrow> (\<exists>t. kfree p s = (Ret (), t) \<and> kmem_ok t (p # xs)
          \<and> (\<forall>y. \<not> in_page p y \<longrightarrow> mem t y = mem s y) \<and> t\<lparr>mem := mem s, freelist := freelist s\<rparr> = s))
    \<and> (\<not> legal_page s p \<longrightarrow> kfree p s = (Exc (Panic ''kfree''), s))"
  using assms kalloc_empty kalloc_pops kfree_pushes kfree_illegal by blast

theorem kalloc_kfree_stack_witness:
  "kmem_ok zero_state [] \<and> (\<exists>t. kfree 0x80022000 zero_state = (Ret (), t) \<and> kmem_ok t [0x80022000])
   \<and> kfree 0x80022001 zero_state = (Exc (Panic ''kfree''), zero_state) \<and> kalloc zero_state = (Ret 0, zero_state)"
proof -
  have ok: "kmem_ok zero_state []"
    by (simp add: kmem_ok_def free_pages_def zero_defs cpu_ok_def lk_free_def mycpu_of_def)
  moreover have "legal_page zero_state 0x80022000" "\<not> legal_page zero_state 0x80022001"
    by (simp_all add: legal_page_def zero_defs PGSIZE_def PHYSTOP_def KERNBASE_def)
  ultimately show ?thesis
    using kalloc_kfree_stack [OF ok, of "0x80022000"] kalloc_kfree_stack [OF ok, of "0x80022001"] by auto
qed

text \<open>
  C35. \<open>kinit\<close> terminates without a panic and hands every page of physical memory between the
  end of the kernel and \<open>PHYSTOP\<close> to the allocator, each once: the free list holds exactly the
  pages that \<open>kfree\<close> accepts.
\<close>

theorem kinit_frees_all:
  assumes "cpu_ok (lk s)" "freelist s = 0" "0 < sym_end s" "sym_end s \<le> PHYSTOP"
  shows "\<exists>t xs. kinit s = (Ret (), t) \<and> kmem_ok t xs \<and> distinct xs \<and> (\<forall>pa. pa \<in> set xs \<longleftrightarrow> legal_page t pa)"
proof -
  obtain k where k: "initlock L_kmem ''kmem'' s = (Ret (), s\<lparr>lk := k\<rparr>)" "cpu_ok k" "lk_free L_kmem k"
    using assms(1) by (rule initlock_kmem)
  let ?s = "s\<lparr>lk := k\<rparr>" and ?ps = "page_range (PGROUNDUP (sym_end s)) PHYSTOP"
  have ok: "kmem_ok ?s []" using k assms by (simp add: kmem_ok_def free_pages_def)
  have pg: "pa \<in> set ?ps \<longleftrightarrow> legal_page ?s pa" for pa
    using kernel_pages [of ?s] assms(4) by simp
  from pages.free_all [OF ok distinct_page_range, of "PGROUNDUP (sym_end s)" PHYSTOP] pg
  obtain t where t: "kfor ?ps kfree ?s = (Ret (), t)" "kmem_ok t (rev ?ps)" "legal_page t = legal_page ?s"
    by auto
  have "kinit s = (Ret (), t)"
    using k t(1) by (simp add: kinit_def freerange_def freerange_loop_kfor)
  with t pg show ?thesis
    by (intro exI [of _ t] exI [of _ "rev ?ps"]) (simp add: distinct_page_range)
qed

theorem kinit_frees_all_witness:
  "cpu_ok (lk zero_state) \<and> (\<exists>t xs. kinit zero_state = (Ret (), t) \<and> kmem_ok t xs \<and> distinct xs
     \<and> (\<forall>pa. pa \<in> set xs \<longleftrightarrow> legal_page t pa))"
proof -
  have "cpu_ok (lk zero_state)" by (simp add: zero_defs cpu_ok_def mycpu_of_def)
  moreover have "freelist zero_state = 0" "0 < sym_end zero_state" "sym_end zero_state \<le> PHYSTOP"
    by (simp_all add: zero_defs PHYSTOP_def KERNBASE_def)
  ultimately show ?thesis using kinit_frees_all [of zero_state] by simp
qed

end
