(* ===== verification/Xv6_Vm.thy ===== *)
theory Xv6_Vm
  imports Xv6_Kalloc
begin

text \<open>
  \<^verbatim>\<open>kernel/vm.c\<close>: Sv39 page tables, user memory and the copies between kernel and user space,
  with \<open>proc_mapstacks\<close> of \<^verbatim>\<open>kernel/proc.c\<close>, which \<open>kvmmake\<close> calls.

  A page table is the physical address of its root page; a \<open>pte_t *\<close> is the address of the
  entry, and 0 is \<open>NULL\<close>. The kernel side of a copy is a list of bytes: what \<open>copyout\<close> reads
  from \<open>src\<close>, and what \<open>copyin\<close> and \<open>copyinstr\<close> have written to \<open>dst\<close> when they return,
  on failure too.

  The addresses a loop steps through are page aligned in every call of the kernel. A loop whose
  bounds are not aligned could step over its end and run on; that case is the outcome \<open>Spin\<close>.
\<close>

section \<open>The code\<close>

definition QEMU_POWER :: u64 where "QEMU_POWER = 0x100000"
definition UART0 :: u64 where "UART0 = 0x10000000"
definition VIRTIO0 :: u64 where "VIRTIO0 = 0x10001000"
definition PLIC :: u64 where "PLIC = 0x0c000000"

abbreviation getmem :: "(memory \<Rightarrow> 'a) \<Rightarrow> 'a op" where
  "getmem f \<equiv> kget (\<lambda>s. f (mem s))"

abbreviation modmem :: "(memory \<Rightarrow> memory) \<Rightarrow> unit op" where
  "modmem f \<equiv> kmod (\<lambda>s. s\<lparr>mem := f (mem s)\<rparr>)"

definition pte_at :: "u64 \<Rightarrow> nat \<Rightarrow> u64 \<Rightarrow> u64" where
  "pte_at pagetable level va = pagetable + 8 * PX level va"

primrec walk_levels :: "nat list \<Rightarrow> u64 \<Rightarrow> u64 \<Rightarrow> bool \<Rightarrow> u64 option op" where
  "walk_levels [] pagetable va alloc = kret (Some pagetable)"
| "walk_levels (level # levels) pagetable va alloc =
     (let pte = pte_at pagetable level va in
      kbind (getmem (\<lambda>m. load64 m pte)) (\<lambda>v.
      if v AND PTE_V \<noteq> 0 then walk_levels levels (PTE2PA v) va alloc
      else if \<not> alloc then kret None
      else
        kbind kalloc (\<lambda>page.
        if page = 0 then kret None
        else
          kthen (modmem (\<lambda>m. memset m page 0 4096)) (
          kthen (modmem (\<lambda>m. store64 m pte (PA2PTE page OR PTE_V)))
          (walk_levels levels page va alloc)))))"

definition walk :: "u64 \<Rightarrow> u64 \<Rightarrow> bool \<Rightarrow> u64 op" where
  "walk pagetable va alloc =
     (if MAXVA \<le> va then kpanic ''walk'' else
      kbind (walk_levels [2, 1] pagetable va alloc) (\<lambda>pt.
      kret (case pt of None \<Rightarrow> 0 | Some pt \<Rightarrow> pte_at pt 0 va)))"

definition walkaddr :: "u64 \<Rightarrow> u64 \<Rightarrow> u64 op" where
  "walkaddr pagetable va =
     (if MAXVA \<le> va then kret 0 else
      kbind (walk pagetable va False) (\<lambda>pte.
      if pte = 0 then kret 0 else
      kbind (getmem (\<lambda>m. load64 m pte)) (\<lambda>v.
      if v AND PTE_V = 0 then kret 0 else
      if v AND PTE_U = 0 then kret 0 else
      kret (PTE2PA v))))"

function mappages_loop :: "u64 \<Rightarrow> u64 \<Rightarrow> u64 \<Rightarrow> u64 \<Rightarrow> u64 \<Rightarrow> int op" where
  "mappages_loop pagetable a lastp pa perm =
     kbind (walk pagetable a True) (\<lambda>pte.
     if pte = 0 then kret (- 1) else
     kbind (getmem (\<lambda>m. load64 m pte)) (\<lambda>v.
     if v AND PTE_V \<noteq> 0 then kpanic ''mappages: remap'' else
     kthen (modmem (\<lambda>m. store64 m pte (PA2PTE pa OR perm OR PTE_V))) (
     if a = lastp then kret 0 else
     if unat (lastp - a) < 4096 then kexc Spin else
     mappages_loop pagetable (a + PGSIZE) lastp (pa + PGSIZE) perm)))"
  by auto
termination
proof (relation "measure (\<lambda>(pagetable, a, lastp, pa, perm). unat (lastp - a))", goal_cases)
  case (2 pagetable a lastp pa perm)
  have "PGSIZE \<le> lastp - a" using 2 by (simp add: PGSIZE_def word_le_nat_alt)
  then have "unat (lastp - a - PGSIZE) = unat (lastp - a) - 4096"
    by (simp add: unat_sub PGSIZE_def)
  then have "unat (lastp - (a + PGSIZE)) = unat (lastp - a) - 4096" by (simp only: diff_diff_eq)
  then show ?case using 2 by simp
qed simp

definition mappages :: "u64 \<Rightarrow> u64 \<Rightarrow> u64 \<Rightarrow> u64 \<Rightarrow> u64 \<Rightarrow> int op" where
  "mappages pagetable va sz pa perm =
     (if sz = 0 then kpanic ''mappages: size'' else
      mappages_loop pagetable (PGROUNDDOWN va) (PGROUNDDOWN (va + sz - 1)) pa perm)"

definition kvmmap :: "u64 \<Rightarrow> u64 \<Rightarrow> u64 \<Rightarrow> u64 \<Rightarrow> u64 \<Rightarrow> unit op" where
  "kvmmap kpgtbl va pa sz perm =
     kbind (mappages kpgtbl va sz pa perm) (\<lambda>r. kwhen (r \<noteq> 0) (kpanic ''kvmmap''))"

definition proc_mapstacks :: "u64 \<Rightarrow> unit op" where
  "proc_mapstacks kpgtbl =
     kfor [0..<NPROC] (\<lambda>p.
       kbind kalloc (\<lambda>pa.
       kthen (kwhen (pa = 0) (kpanic ''kalloc''))
       (kvmmap kpgtbl (KSTACK p) pa PGSIZE (PTE_R OR PTE_W))))"

definition kvmmake :: "u64 op" where
  "kvmmake =
     kbind kalloc (\<lambda>kpgtbl.
     kthen (modmem (\<lambda>m. memset m kpgtbl 0 4096)) (
     kthen (kvmmap kpgtbl QEMU_POWER QEMU_POWER PGSIZE (PTE_R OR PTE_W)) (
     kthen (kvmmap kpgtbl UART0 UART0 PGSIZE (PTE_R OR PTE_W)) (
     kthen (kvmmap kpgtbl VIRTIO0 VIRTIO0 PGSIZE (PTE_R OR PTE_W)) (
     kthen (kvmmap kpgtbl PLIC PLIC 0x400000 (PTE_R OR PTE_W)) (
     kbind (kget sym_etext) (\<lambda>etext.
     kthen (kvmmap kpgtbl KERNBASE KERNBASE (etext - KERNBASE) (PTE_R OR PTE_X)) (
     kthen (kvmmap kpgtbl etext etext (PHYSTOP - etext) (PTE_R OR PTE_W)) (
     kbind (kget sym_trampoline) (\<lambda>trampoline.
     kthen (kvmmap kpgtbl TRAMPOLINE trampoline PGSIZE (PTE_R OR PTE_X)) (
     kthen (proc_mapstacks kpgtbl)
     (kret kpgtbl))))))))))))"

definition kvminit :: "unit op" where
  "kvminit = kbind kvmmake (\<lambda>pt. kmod (\<lambda>s. s\<lparr>kernel_pagetable := pt\<rparr>))"

function uvmunmap_loop :: "u64 \<Rightarrow> u64 \<Rightarrow> u64 \<Rightarrow> bool \<Rightarrow> unit op" where
  "uvmunmap_loop pagetable a lastp do_free =
     (if \<not> a < lastp then kret () else
      kbind (walk pagetable a False) (\<lambda>pte.
      if pte = 0 then kpanic ''uvmunmap: walk'' else
      kbind (getmem (\<lambda>m. load64 m pte)) (\<lambda>v.
      if v AND PTE_V = 0 then kpanic ''uvmunmap: not mapped'' else
      if PTE_FLAGS v = PTE_V then kpanic ''uvmunmap: not a leaf'' else
      kthen (kwhen do_free (kfree (PTE2PA v))) (
      kthen (modmem (\<lambda>m. store64 m pte 0)) (
      if a + PGSIZE \<le> a then kexc Spin else
      uvmunmap_loop pagetable (a + PGSIZE) lastp do_free)))))"
  by auto
termination
  by (relation "measure (\<lambda>(pagetable, a, lastp, do_free). unat lastp - unat a)")
    (auto simp: word_less_nat_alt word_le_nat_alt not_le intro!: diff_less_mono2)

definition uvmunmap :: "u64 \<Rightarrow> u64 \<Rightarrow> u64 \<Rightarrow> bool \<Rightarrow> unit op" where
  "uvmunmap pagetable va npages do_free =
     (if va mod PGSIZE \<noteq> 0 then kpanic ''uvmunmap: not aligned'' else
      uvmunmap_loop pagetable va (va + npages * PGSIZE) do_free)"

definition uvmcreate :: "u64 op" where
  "uvmcreate =
     kbind kalloc (\<lambda>pagetable.
     if pagetable = 0 then kret 0 else
     kthen (modmem (\<lambda>m. memset m pagetable 0 4096)) (kret pagetable))"

definition uvmfirst :: "u64 \<Rightarrow> u8 list \<Rightarrow> unit op" where
  "uvmfirst pagetable src =
     (if 4096 \<le> length src then kpanic ''uvmfirst: more than a page'' else
      kbind kalloc (\<lambda>page.
      kthen (modmem (\<lambda>m. memset m page 0 4096)) (
      kbind (mappages pagetable 0 PGSIZE page (PTE_W OR PTE_R OR PTE_X OR PTE_U)) (\<lambda>_.
      modmem (\<lambda>m. store_bytes m page src)))))"

definition uvmdealloc :: "u64 \<Rightarrow> u64 \<Rightarrow> u64 \<Rightarrow> u64 op" where
  "uvmdealloc pagetable oldsz newsz =
     (if oldsz \<le> newsz then kret oldsz else
      kthen (kwhen (PGROUNDUP newsz < PGROUNDUP oldsz)
        (let npages = (PGROUNDUP oldsz - PGROUNDUP newsz) div PGSIZE in
         uvmunmap pagetable (PGROUNDUP newsz) (scast (ucast npages :: u32)) True))
      (kret newsz))"

function uvmalloc_loop :: "u64 \<Rightarrow> u64 \<Rightarrow> u64 \<Rightarrow> u64 \<Rightarrow> u64 \<Rightarrow> u64 op" where
  "uvmalloc_loop pagetable a oldsz newsz xperm =
     (if \<not> a < newsz then kret newsz else
      kbind kalloc (\<lambda>page.
      if page = 0 then kbind (uvmdealloc pagetable a oldsz) (\<lambda>_. kret 0) else
      kbind myproc (\<lambda>mp.
      kbind (kderef mp) (\<lambda>p.
      kthen (acquire (L_proc p)) (
      kthen (modp p (\<lambda>x. x\<lparr>p_heap_pages := p_heap_pages x + 1\<rparr>)) (
      kthen (release (L_proc p)) (
      kthen (modmem (\<lambda>m. memset m page 0 4096)) (
      kbind (mappages pagetable a PGSIZE page (PTE_R OR PTE_U OR xperm)) (\<lambda>r.
      if r \<noteq> 0 then
        kthen (kfree page) (kbind (uvmdealloc pagetable a oldsz) (\<lambda>_. kret 0))
      else if a + PGSIZE \<le> a then kexc Spin
      else uvmalloc_loop pagetable (a + PGSIZE) oldsz newsz xperm)))))))))"
  by auto
termination
  by (relation "measure (\<lambda>(pagetable, a, oldsz, newsz, xperm). unat newsz - unat a)")
    (auto simp: word_less_nat_alt word_le_nat_alt not_le intro!: diff_less_mono2)

definition uvmalloc :: "u64 \<Rightarrow> u64 \<Rightarrow> u64 \<Rightarrow> u64 \<Rightarrow> u64 op" where
  "uvmalloc pagetable oldsz newsz xperm =
     (if newsz < oldsz then kret oldsz else
      uvmalloc_loop pagetable (PGROUNDUP oldsz) (PGROUNDUP oldsz) newsz xperm)"

text \<open>The recursion of \<open>freewalk\<close> is bounded by the number of levels that \<open>walk\<close> builds.\<close>

primrec freewalk_level :: "nat \<Rightarrow> u64 \<Rightarrow> unit op" where
  "freewalk_level 0 pagetable = kexc Spin"
| "freewalk_level (Suc n) pagetable =
     kthen (kfor [0..<512] (\<lambda>i.
       let pa = pagetable + of_nat (8 * i) in
       kbind (getmem (\<lambda>m. load64 m pa)) (\<lambda>pte.
       if pte AND PTE_V \<noteq> 0 \<and> pte AND (PTE_R OR PTE_W OR PTE_X) = 0 then
         kthen (freewalk_level n (PTE2PA pte)) (modmem (\<lambda>m. store64 m pa 0))
       else kwhen (pte AND PTE_V \<noteq> 0) (kpanic ''freewalk: leaf''))))
     (kfree pagetable)"

definition freewalk :: "u64 \<Rightarrow> unit op" where
  "freewalk pagetable = freewalk_level 3 pagetable"

definition uvmfree :: "u64 \<Rightarrow> u64 \<Rightarrow> unit op" where
  "uvmfree pagetable sz =
     kthen (kwhen (0 < sz) (uvmunmap pagetable 0 (PGROUNDUP sz div PGSIZE) True))
     (freewalk pagetable)"

function uvmcopy_loop :: "u64 \<Rightarrow> u64 \<Rightarrow> u64 \<Rightarrow> u64 \<Rightarrow> int op" where
  "uvmcopy_loop old new i sz =
     (if \<not> i < sz then kret 0 else
      kbind (walk old i False) (\<lambda>pte.
      if pte = 0 then kpanic ''uvmcopy: pte should exist'' else
      kbind (getmem (\<lambda>m. load64 m pte)) (\<lambda>v.
      if v AND PTE_V = 0 then kpanic ''uvmcopy: page not present'' else
      kbind kalloc (\<lambda>page.
      if page = 0 then kthen (uvmunmap new 0 (i div PGSIZE) True) (kret (- 1)) else
      kthen (modmem (\<lambda>m. memmove m page (PTE2PA v) 4096)) (
      kbind (mappages new i PGSIZE page (PTE_FLAGS v)) (\<lambda>r.
      if r \<noteq> 0 then
        kthen (kfree page) (kthen (uvmunmap new 0 (i div PGSIZE) True) (kret (- 1)))
      else if i + PGSIZE \<le> i then kexc Spin
      else uvmcopy_loop old new (i + PGSIZE) sz))))))"
  by auto
termination
  by (relation "measure (\<lambda>(old, new, i, sz). unat sz - unat i)")
    (auto simp: word_less_nat_alt word_le_nat_alt not_le intro!: diff_less_mono2)

definition uvmcopy :: "u64 \<Rightarrow> u64 \<Rightarrow> u64 \<Rightarrow> int op" where
  "uvmcopy old new sz = uvmcopy_loop old new 0 sz"

definition uvmclear :: "u64 \<Rightarrow> u64 \<Rightarrow> unit op" where
  "uvmclear pagetable va =
     kbind (walk pagetable va False) (\<lambda>pte.
     if pte = 0 then kpanic ''uvmclear'' else
     modmem (\<lambda>m. store64 m pte (load64 m pte AND NOT PTE_U)))"

text \<open>How much of \<open>len\<close> bytes at \<open>va\<close> lies in the first page.\<close>

definition page_chunk :: "u64 \<Rightarrow> nat \<Rightarrow> nat" where
  "page_chunk va len = min (unat (PGSIZE - (va - PGROUNDDOWN va))) len"

lemma page_off_lt: "unat (va - PGROUNDDOWN va) < 4096"
proof -
  have "unat (va - PGROUNDDOWN va) = unat va - unat (PGROUNDDOWN va)"
    by (simp add: unat_sub PGROUNDDOWN_le)
  then show ?thesis by (simp add: unat_PGROUNDDOWN)
qed

lemma page_chunk_pos: "0 < len \<Longrightarrow> 0 < page_chunk va len"
  using page_off_lt [of va]
  by (auto simp: page_chunk_def PGSIZE_def word_unat_eq_iff unat_sub_if_size)

function copyout :: "u64 \<Rightarrow> u64 \<Rightarrow> u8 list \<Rightarrow> int op" where
  "copyout pagetable dstva src =
     (if src = [] then kret 0 else
      let va0 = PGROUNDDOWN dstva in
      kbind (walkaddr pagetable va0) (\<lambda>pa0.
      if pa0 = 0 then kret (- 1) else
      let n = page_chunk dstva (length src) in
      kthen (modmem (\<lambda>m. store_bytes m (pa0 + (dstva - va0)) (take n src)))
      (copyout pagetable (va0 + PGSIZE) (drop n src))))"
  by auto
termination
  by (relation "measure (\<lambda>(pagetable, dstva, src). length src)") (auto simp: page_chunk_pos)

function copyin :: "u64 \<Rightarrow> u64 \<Rightarrow> nat \<Rightarrow> (int \<times> u8 list) op" where
  "copyin pagetable srcva len =
     (if len = 0 then kret (0, []) else
      let va0 = PGROUNDDOWN srcva in
      kbind (walkaddr pagetable va0) (\<lambda>pa0.
      if pa0 = 0 then kret (- 1, []) else
      let n = page_chunk srcva len in
      kbind (getmem (\<lambda>m. mem_bytes m (pa0 + (srcva - va0)) n)) (\<lambda>bs.
      kbind (copyin pagetable (va0 + PGSIZE) (len - n)) (\<lambda>(r, rest).
      kret (r, bs @ rest)))))"
  by auto
termination
  by (relation "measure (\<lambda>(pagetable, srcva, len). len)") (auto simp: page_chunk_pos)

text \<open>The inner loop of \<open>copyinstr\<close>: bytes up to and including a null, and whether there was one.\<close>

primrec copy_until_null :: "memory \<Rightarrow> u64 \<Rightarrow> nat \<Rightarrow> u8 list \<times> bool" where
  "copy_until_null m p 0 = ([], False)"
| "copy_until_null m p (Suc n) =
     (if m p = 0 then ([0], True)
      else let (bs, got_null) = copy_until_null m (p + 1) n in (m p # bs, got_null))"

function copyinstr :: "u64 \<Rightarrow> u64 \<Rightarrow> nat \<Rightarrow> (int \<times> u8 list) op" where
  "copyinstr pagetable srcva mx =
     (if mx = 0 then kret (- 1, []) else
      let va0 = PGROUNDDOWN srcva in
      kbind (walkaddr pagetable va0) (\<lambda>pa0.
      if pa0 = 0 then kret (- 1, []) else
      let n = page_chunk srcva mx in
      kbind (getmem (\<lambda>m. copy_until_null m (pa0 + (srcva - va0)) n)) (\<lambda>(bs, got_null).
      if got_null then kret (0, bs) else
      kbind (copyinstr pagetable (va0 + PGSIZE) (mx - n)) (\<lambda>(r, rest).
      kret (r, bs @ rest)))))"
  by auto
termination
  by (relation "measure (\<lambda>(pagetable, srcva, mx). mx)") (auto simp: page_chunk_pos)

declare mappages_loop.simps [simp del] uvmunmap_loop.simps [simp del] uvmalloc_loop.simps [simp del]
  uvmcopy_loop.simps [simp del] copyout.simps [simp del] copyin.simps [simp del] copyinstr.simps [simp del]

section \<open>Frame\<close>

lemma unch_modmem [unch_rules]: "mem_blind f \<Longrightarrow> unch f (modmem g)"
  by (simp add: unch_def mem_blind_def)

lemma unch_lock_blind:
  assumes "mem_blind f"
  shows "unch f (acquire l)" "unch f (release l)" "unch f myproc" "unch f push_off" "unch f pop_off"
  using assms by (auto simp: mem_blind_def intro: unch_lk_ops)

lemma unch_walk_levels: "mem_blind f \<Longrightarrow> unch f (walk_levels ls pt va alloc)"
  by (induction ls arbitrary: pt) (auto simp: Let_def intro!: unch_rules)

lemma unch_walk [unch_rules]: "mem_blind f \<Longrightarrow> unch f (walk pt va alloc)"
  by (auto simp: walk_def intro!: unch_rules unch_walk_levels)

lemma unch_walkaddr [unch_rules]: "mem_blind f \<Longrightarrow> unch f (walkaddr pt va)"
  by (auto simp: walkaddr_def intro!: unch_rules)

lemma unch_mappages_loop: "mem_blind f \<Longrightarrow> unch f (mappages_loop pt a l pa perm)"
  by (induction pt a l pa perm rule: mappages_loop.induct)
    (subst mappages_loop.simps, intro unch_rules, auto)

lemma unch_mappages [unch_rules]: "mem_blind f \<Longrightarrow> unch f (mappages pt va sz pa perm)"
  by (auto simp: mappages_def intro!: unch_rules unch_mappages_loop)

lemma unch_kvmmap [unch_rules]: "mem_blind f \<Longrightarrow> unch f (kvmmap pt va pa sz perm)"
  by (auto simp: kvmmap_def intro!: unch_rules)

lemma unch_uvmunmap_loop: "mem_blind f \<Longrightarrow> unch f (uvmunmap_loop pt a l df)"
  by (induction pt a l df rule: uvmunmap_loop.induct)
    (subst uvmunmap_loop.simps, intro unch_rules, auto)

lemma unch_uvmunmap [unch_rules]: "mem_blind f \<Longrightarrow> unch f (uvmunmap pt va n df)"
  by (auto simp: uvmunmap_def intro!: unch_rules unch_uvmunmap_loop)

lemma unch_uvmcreate [unch_rules]: "mem_blind f \<Longrightarrow> unch f uvmcreate"
  by (auto simp: uvmcreate_def intro!: unch_rules)

lemma unch_uvmfirst [unch_rules]: "mem_blind f \<Longrightarrow> unch f (uvmfirst pt src)"
  by (auto simp: uvmfirst_def intro!: unch_rules)

lemma unch_uvmdealloc [unch_rules]: "mem_blind f \<Longrightarrow> unch f (uvmdealloc pt a b)"
  by (auto simp: uvmdealloc_def Let_def intro!: unch_rules)

lemma unch_uvmcopy_loop: "mem_blind f \<Longrightarrow> unch f (uvmcopy_loop old new i sz)"
  by (induction old new i sz rule: uvmcopy_loop.induct)
    (subst uvmcopy_loop.simps, intro unch_rules, auto)

lemma unch_uvmcopy [unch_rules]: "mem_blind f \<Longrightarrow> unch f (uvmcopy old new sz)"
  by (simp add: uvmcopy_def unch_uvmcopy_loop)

lemma unch_freewalk_level: "mem_blind f \<Longrightarrow> unch f (freewalk_level n pt)"
  by (induction n arbitrary: pt) (auto simp: Let_def intro!: unch_rules)

lemma unch_freewalk [unch_rules]: "mem_blind f \<Longrightarrow> unch f (freewalk pt)"
  by (simp add: freewalk_def unch_freewalk_level)

lemma unch_uvmfree [unch_rules]: "mem_blind f \<Longrightarrow> unch f (uvmfree pt sz)"
  by (auto simp: uvmfree_def intro!: unch_rules)

lemma unch_uvmclear [unch_rules]: "mem_blind f \<Longrightarrow> unch f (uvmclear pt va)"
  by (auto simp: uvmclear_def intro!: unch_rules)

lemma unch_copyout [unch_rules]: "mem_blind f \<Longrightarrow> unch f (copyout pt va src)"
  by (induction pt va src rule: copyout.induct)
    (subst copyout.simps, unfold Let_def, intro unch_rules, auto)

lemma unch_copyin [unch_rules]: "mem_blind f \<Longrightarrow> unch f (copyin pt va len)"
  by (induction pt va len rule: copyin.induct)
    (subst copyin.simps, unfold Let_def, intro unch_rules, auto simp: unch_walkaddr)

lemma unch_copyinstr [unch_rules]: "mem_blind f \<Longrightarrow> unch f (copyinstr pt va len)"
  by (induction pt va len rule: copyinstr.induct)
    (subst copyinstr.simps, unfold Let_def, intro unch_rules, auto)

text \<open>\<open>uvmalloc\<close> also counts the pages of the calling process.\<close>

lemma unch_uvmalloc_loop:
  assumes "mem_blind f" "\<And>s p g. f (upd_proc p (\<lambda>x. x\<lparr>p_heap_pages := g x\<rparr>) s) = f s"
  shows "unch f (uvmalloc_loop pt a b c x)"
  using assms
  by (induction pt a b c x rule: uvmalloc_loop.induct)
    (subst uvmalloc_loop.simps, intro unch_rules unch_lock_blind, auto)

lemma unch_uvmalloc:
  assumes "mem_blind f" "\<And>s p g. f (upd_proc p (\<lambda>x. x\<lparr>p_heap_pages := g x\<rparr>) s) = f s"
  shows "unch f (uvmalloc pt b c x)"
  using assms by (auto simp: uvmalloc_def intro!: unch_rules unch_uvmalloc_loop)

end
