(* ===== verification/Xv6_Sched.thy ===== *)
theory Xv6_Sched
  imports Xv6_Vm
begin

text \<open>
  Scheduling and blocking: \<open>scheduler\<close>, \<open>sched\<close>, \<open>yield\<close>, \<open>sleep\<close>, \<open>wakeup\<close>, \<open>kill\<close>,
  \<open>killed\<close>, \<open>setkilled\<close>, \<open>either_copyin\<close> and \<open>either_copyout\<close> of \<^verbatim>\<open>kernel/proc.c\<close>,
  \<open>sys_uptime\<close> of \<^verbatim>\<open>kernel/sysproc.c\<close>, \<open>clockintr\<close> of \<^verbatim>\<open>kernel/trap.c\<close> and
  \<^verbatim>\<open>kernel/sleeplock.c\<close>.

  \<open>swtch\<close> gives the CPU away, so a function that calls it is split there: the part up to the
  call ends with the outcome \<open>Switch\<close>, and the part after it is a definition of its own
  (\<open>sched_resume\<close>, \<open>sleep_resume\<close>, \<open>yield_resume\<close>, \<open>scheduler_back\<close>), to be run when the
  thread has the CPU again.

  Times are \<open>uint\<close>s: the 64-bit result of \<open>sys_uptime\<close> is truncated by every use the kernel
  makes of it.
\<close>

section \<open>The code\<close>

definition sys_uptime :: "u32 op" where
  "sys_uptime =
     kthen (acquire L_ticks) (
     kbind (kget ticks) (\<lambda>xticks.
     kthen (release L_ticks) (kret xticks)))"

text \<open>Up to \<open>swtch(&p->context, &mycpu()->context)\<close>; the saved \<open>intena\<close> is handed to the second part.\<close>

definition sched :: "'a op" where
  "sched =
     kbind myproc (\<lambda>mp.
     kbind (kderef mp) (\<lambda>p.
     kbind (holding (L_proc p)) (\<lambda>h.
     if \<not> h then kpanic ''sched p->lock'' else
     kbind mycpu (\<lambda>c.
     kbind (getcpu c noff) (\<lambda>n.
     if n \<noteq> 1 then kpanic ''sched locks'' else
     kbind (getp p p_state) (\<lambda>st.
     if st = RUNNING then kpanic ''sched running'' else
     kbind intr_get (\<lambda>i.
     if i then kpanic ''sched interruptible'' else
     kexc Switch)))))))"

definition sched_resume :: "bool \<Rightarrow> unit op" where
  "sched_resume old_intena = kbind mycpu (\<lambda>c. modcpu c (\<lambda>x. x\<lparr>intena := old_intena\<rparr>))"

definition yield :: "unit op" where
  "yield =
     kbind myproc (\<lambda>mp.
     kbind (kderef mp) (\<lambda>p.
     kthen (acquire (L_proc p)) (
     kthen (modp p (\<lambda>x. x\<lparr>p_state := RUNNABLE\<rparr>)) (
     kbind sys_uptime (\<lambda>now.
     kthen (modp p (\<lambda>x. x\<lparr>p_run_time := p_run_time x + (now - p_last_run_start x)\<rparr>)) (
     kbind (getp p p_is_kernel) (\<lambda>ik.
     kthen (kwhen (ik \<noteq> 0) (kbind sys_uptime (\<lambda>now.
       modp p (\<lambda>x. x\<lparr>p_kernel_time := p_kernel_time x + (now - p_last_kernel_time x)\<rparr>)))) (
     kbind sys_uptime (\<lambda>now.
     kthen (modp p (\<lambda>x. x\<lparr>p_last_runnable := now\<rparr>))
     sched)))))))))"

definition yield_resume :: "nat \<Rightarrow> bool \<Rightarrow> unit op" where
  "yield_resume p old_intena = kthen (sched_resume old_intena) (release (L_proc p))"

definition sleep :: "chan \<Rightarrow> lockid \<Rightarrow> 'a op" where
  "sleep ch l =
     kbind myproc (\<lambda>mp.
     kbind (kderef mp) (\<lambda>p.
     kthen (acquire (L_proc p)) (
     kthen (release l) (
     kthen (modp p (\<lambda>x. x\<lparr>p_chan := Some ch\<rparr>)) (
     kbind sys_uptime (\<lambda>now.
     kthen (modp p (\<lambda>x. x\<lparr>p_run_time := p_run_time x + (now - p_last_run_start x)\<rparr>)) (
     kbind (getp p p_is_kernel) (\<lambda>ik.
     kthen (kwhen (ik \<noteq> 0) (kbind sys_uptime (\<lambda>now.
       modp p (\<lambda>x. x\<lparr>p_kernel_time := p_kernel_time x + (now - p_last_kernel_time x)\<rparr>)))) (
     kthen (modp p (\<lambda>x. x\<lparr>p_state := SLEEPING\<rparr>))
     sched)))))))))"

definition sleep_resume :: "nat \<Rightarrow> bool \<Rightarrow> lockid \<Rightarrow> unit op" where
  "sleep_resume p old_intena l =
     kthen (sched_resume old_intena) (
     kthen (modp p (\<lambda>x. x\<lparr>p_chan := None\<rparr>)) (
     kthen (release (L_proc p))
     (acquire l)))"

text \<open>The argument of \<open>wakeup\<close> is a pointer, which \<open>exit\<close> and \<open>reparent\<close> may pass as null.\<close>

definition wakeup_one :: "chan option \<Rightarrow> nat \<Rightarrow> unit op" where
  "wakeup_one ch p =
     kbind myproc (\<lambda>mp.
     kwhen (mp \<noteq> Some p) (
       kthen (acquire (L_proc p)) (
       kbind (getp p (\<lambda>x. p_state x = SLEEPING \<and> p_chan x = ch)) (\<lambda>b.
       kthen (kwhen b (
         kthen (modp p (\<lambda>x. x\<lparr>p_state := RUNNABLE\<rparr>)) (
         kbind sys_uptime (\<lambda>now.
         modp p (\<lambda>x. x\<lparr>p_last_runnable := now\<rparr>)))))
       (release (L_proc p))))))"

definition wakeup_ptr :: "chan option \<Rightarrow> unit op" where
  "wakeup_ptr ch = kfor [0..<NPROC] (wakeup_one ch)"

definition wakeup :: "chan \<Rightarrow> unit op" where
  "wakeup ch = wakeup_ptr (Some ch)"

primrec kill_loop :: "nat list \<Rightarrow> int \<Rightarrow> int op" where
  "kill_loop [] pid = kret (- 1)"
| "kill_loop (p # ps) pid =
     kthen (acquire (L_proc p)) (
     kbind (getp p p_pid) (\<lambda>q.
     if q = pid then
       kthen (modp p (\<lambda>x. x\<lparr>p_killed := 1\<rparr>)) (
       kbind (getp p p_state) (\<lambda>st.
       kthen (kwhen (st = SLEEPING) (
         kthen (modp p (\<lambda>x. x\<lparr>p_state := RUNNABLE\<rparr>)) (
         kbind sys_uptime (\<lambda>now.
         modp p (\<lambda>x. x\<lparr>p_last_runnable := now\<rparr>))))) (
       kthen (release (L_proc p)) (kret 0))))
     else kthen (release (L_proc p)) (kill_loop ps pid)))"

definition kill :: "int \<Rightarrow> int op" where
  "kill pid = kill_loop [0..<NPROC] pid"

definition setkilled :: "nat \<Rightarrow> unit op" where
  "setkilled p =
     kthen (acquire (L_proc p)) (
     kthen (modp p (\<lambda>x. x\<lparr>p_killed := 1\<rparr>)) (release (L_proc p)))"

definition killed :: "nat \<Rightarrow> int op" where
  "killed p =
     kthen (acquire (L_proc p)) (
     kbind (getp p p_killed) (\<lambda>k.
     kthen (release (L_proc p)) (kret k)))"

text \<open>
  \<open>scheduler\<close>: its first lines, one round of its loop over the table up to \<open>swtch\<close> (\<open>True\<close> when
  the process has been switched to), and what follows when the process gives the CPU back.
\<close>

definition scheduler_enter :: "unit op" where
  "scheduler_enter =
     kbind mycpu (\<lambda>c.
     kthen (modcpu c (\<lambda>x. x\<lparr>c_proc := None\<rparr>)) intr_on)"

definition scheduler_try :: "nat \<Rightarrow> bool op" where
  "scheduler_try p =
     kbind mycpu (\<lambda>c.
     kthen (acquire (L_proc p)) (
     kbind (getp p p_state) (\<lambda>st.
     if st = RUNNABLE then
       kthen (modp p (\<lambda>x. x\<lparr>p_state := RUNNING\<rparr>)) (
       kbind sys_uptime (\<lambda>now.
       kthen (modp p (\<lambda>x. x\<lparr>p_waiting_time := p_waiting_time x + (now - p_last_runnable x)\<rparr>)) (
       kbind sys_uptime (\<lambda>now.
       kthen (modp p (\<lambda>x. x\<lparr>p_last_run_start := now\<rparr>)) (
       kbind (getp p p_is_kernel) (\<lambda>ik.
       kthen (kwhen (ik \<noteq> 0) (kbind sys_uptime (\<lambda>now.
         modp p (\<lambda>x. x\<lparr>p_last_kernel_time := now\<rparr>)))) (
       kthen (modcpu c (\<lambda>x. x\<lparr>c_proc := Some p\<rparr>))
       (kret True))))))))
     else kthen (release (L_proc p)) (kret False))))"

definition scheduler_back :: "nat \<Rightarrow> unit op" where
  "scheduler_back p =
     kbind mycpu (\<lambda>c.
     kthen (modp p (\<lambda>x. x\<lparr>p_context_switches := p_context_switches x + 1\<rparr>)) (
     kthen (modcpu c (\<lambda>x. x\<lparr>c_proc := None\<rparr>))
     (release (L_proc p))))"

definition clockintr :: "unit op" where
  "clockintr =
     kthen (acquire L_ticks) (
     kthen (kmod (\<lambda>s. s\<lparr>ticks := ticks s + 1\<rparr>)) (
     kthen (wakeup Chan_ticks)
     (release L_ticks)))"

text \<open>
  The kernel side of \<open>either_copyout\<close> and \<open>either_copyin\<close>: a user address, the address of a
  page, or a local object of the caller, which is handed back or in as bytes.
\<close>

datatype kdst = User_dst u64 | Page_dst u64 | Local_dst
datatype ksrc = User_src u64 | Local_src "u8 list"

definition kdst_add :: "kdst \<Rightarrow> nat \<Rightarrow> kdst" where
  "kdst_add d n = (case d of User_dst a \<Rightarrow> User_dst (a + of_nat n) | Page_dst a \<Rightarrow> Page_dst (a + of_nat n)
     | Local_dst \<Rightarrow> Local_dst)"

definition either_copyout :: "kdst \<Rightarrow> u8 list \<Rightarrow> int op" where
  "either_copyout dst src =
     kbind myproc (\<lambda>mp.
     case dst of
       User_dst a \<Rightarrow> kbind (kderef mp) (\<lambda>p. kbind (getp p p_pagetable) (\<lambda>pt. copyout pt a src))
     | Page_dst a \<Rightarrow> kthen (modmem (\<lambda>m. store_bytes m a src)) (kret 0)
     | Local_dst \<Rightarrow> kret 0)"

definition either_copyin :: "ksrc \<Rightarrow> nat \<Rightarrow> nat \<Rightarrow> (int \<times> u8 list) op" where
  "either_copyin src off len =
     kbind myproc (\<lambda>mp.
     case src of
       User_src a \<Rightarrow> kbind (kderef mp) (\<lambda>p. kbind (getp p p_pagetable) (\<lambda>pt. copyin pt (a + of_nat off) len))
     | Local_src bs \<Rightarrow> kret (0, take len (drop off bs)))"

section \<open>sleeplock.c\<close>

abbreviation modslk :: "slkid \<Rightarrow> (sleeplock \<Rightarrow> sleeplock) \<Rightarrow> unit op" where
  "modslk l f \<equiv> kmod (\<lambda>s. s\<lparr>slks := (slks s)(l := f (slks s l))\<rparr>)"

definition initsleeplock :: "slkid \<Rightarrow> string \<Rightarrow> unit op" where
  "initsleeplock l nm =
     kthen (initlock (L_slk l) ''sleep lock'')
     (modslk l (\<lambda>x. x\<lparr>sl_name := nm, sl_locked := 0, sl_pid := 0\<rparr>))"

text \<open>A held lock puts the caller to sleep; on resumption the loop tests the lock again.\<close>

definition acquiresleep_loop :: "slkid \<Rightarrow> unit op" where
  "acquiresleep_loop l =
     kbind (kget (\<lambda>s. sl_locked (slks s l))) (\<lambda>b.
     if b \<noteq> 0 then sleep (Chan_slk l) (L_slk l) else
     kthen (modslk l (\<lambda>x. x\<lparr>sl_locked := 1\<rparr>)) (
     kbind myproc (\<lambda>mp.
     kbind (kderef mp) (\<lambda>p.
     kbind (getp p p_pid) (\<lambda>pid.
     kthen (modslk l (\<lambda>x. x\<lparr>sl_pid := pid\<rparr>))
     (release (L_slk l)))))))"

definition acquiresleep :: "slkid \<Rightarrow> unit op" where
  "acquiresleep l = kthen (acquire (L_slk l)) (acquiresleep_loop l)"

definition releasesleep :: "slkid \<Rightarrow> unit op" where
  "releasesleep l =
     kthen (acquire (L_slk l)) (
     kthen (modslk l (\<lambda>x. x\<lparr>sl_locked := 0, sl_pid := 0\<rparr>)) (
     kthen (wakeup (Chan_slk l))
     (release (L_slk l))))"

definition holdingsleep :: "slkid \<Rightarrow> bool op" where
  "holdingsleep l =
     kthen (acquire (L_slk l)) (
     kbind (kget (\<lambda>s. sl_locked (slks s l))) (\<lambda>b.
     kbind (if b = 0 then kret False else
       kbind myproc (\<lambda>mp.
       kbind (kderef mp) (\<lambda>p.
       kbind (getp p p_pid) (\<lambda>pid.
       kget (\<lambda>s. sl_pid (slks s l) = pid))))) (\<lambda>r.
     kthen (release (L_slk l)) (kret r))))"

section \<open>Closed forms\<close>

lemma sys_uptime_eq [simp]:
  "cpu_ok (lk s) \<Longrightarrow> lk_free L_ticks (lk s) \<Longrightarrow> sys_uptime s = (Ret (ticks s), s)"
  by (simp add: sys_uptime_def)

definition woken :: "u32 \<Rightarrow> chan option \<Rightarrow> proc \<Rightarrow> proc" where
  "woken now ch x = (if p_state x = SLEEPING \<and> p_chan x = ch then x\<lparr>p_state := RUNNABLE, p_last_runnable := now\<rparr> else x)"

definition procs_free :: "lockst \<Rightarrow> bool" where
  "procs_free k \<longleftrightarrow> cpu_ok k \<and> lk_free L_ticks k \<and> (\<forall>p. lk_free (L_proc p) k)"

lemma procs_freeD [simp]:
  "procs_free k \<Longrightarrow> cpu_ok k" "procs_free k \<Longrightarrow> lk_free L_ticks k" "procs_free k \<Longrightarrow> lk_free (L_proc p) k"
  by (simp_all add: procs_free_def)

lemma upd_proc_comp [simp]: "upd_proc p f (upd_proc p g s) = upd_proc p (\<lambda>x. f (g x)) s"
  by (simp add: upd_proc_def)

lemma upd_proc_id: "f (procs s p) = procs s p \<Longrightarrow> upd_proc p f s = s"
  by (simp add: upd_proc_def)

lemma upd_proc_cong: "f (procs s p) = g (procs s p) \<Longrightarrow> upd_proc p f s = upd_proc p g s"
  by (simp add: upd_proc_def)

lemma wakeup_one_eq:
  assumes "cpu_ok (lk s)" "lk_free L_ticks (lk s)" "lk_free (L_proc p) (lk s)" "c_proc (mycpu_of (lk s)) \<noteq> Some p"
  shows "wakeup_one ch p s = (Ret (), upd_proc p (woken (ticks s) ch) s)"
proof (cases "p_state (procs s p) = SLEEPING \<and> p_chan (procs s p) = ch")
  case True
  with assms show ?thesis
    by (simp add: wakeup_one_def upd_proc_def woken_def)
next
  case False
  then have "upd_proc p (woken (ticks s) ch) s = s" by (intro upd_proc_id) (auto simp: woken_def)
  moreover have "\<not> (p_state (procs s p) = SLEEPING \<and> p_chan (procs s p) = ch)" by (rule False)
  ultimately show ?thesis using assms unfolding wakeup_one_def by (simp del: de_Morgan_conj not_imp add: kwhen_def)
qed

lemma wakeup_one_self: "cpu_ok (lk s) \<Longrightarrow> c_proc (mycpu_of (lk s)) = Some p \<Longrightarrow> wakeup_one ch p s = (Ret (), s)"
  by (simp add: wakeup_one_def)

definition wake_procs :: "nat set \<Rightarrow> nat option \<Rightarrow> u32 \<Rightarrow> chan option \<Rightarrow> (nat \<Rightarrow> proc) \<Rightarrow> nat \<Rightarrow> proc" where
  "wake_procs A cur now ch f p = (if p \<in> A \<and> cur \<noteq> Some p then woken now ch (f p) else f p)"

definition wake_set :: "nat set \<Rightarrow> chan option \<Rightarrow> kstate \<Rightarrow> kstate" where
  "wake_set A ch s = s\<lparr>procs := wake_procs A (c_proc (mycpu_of (lk s))) (ticks s) ch (procs s)\<rparr>"

lemma wake_set_frame [simp]:
  "lk (wake_set A ch s) = lk s" "ticks (wake_set A ch s) = ticks s"
  by (simp_all add: wake_set_def)

lemma wake_set_cong:
  assumes "\<And>p. c_proc (mycpu_of (lk s)) \<noteq> Some p \<Longrightarrow> p \<in> A \<longleftrightarrow> p \<in> B"
  shows "wake_set A ch s = wake_set B ch s"
proof -
  have "wake_procs A (c_proc (mycpu_of (lk s))) (ticks s) ch (procs s)
      = wake_procs B (c_proc (mycpu_of (lk s))) (ticks s) ch (procs s)"
    using assms by (intro ext) (auto simp: wake_procs_def)
  then show ?thesis unfolding wake_set_def by simp
qed

lemma wakeup_list_eq:
  assumes "cpu_ok (lk s)" "lk_free L_ticks (lk s)" "distinct ps" "set ps \<inter> A = {}"
    "\<And>p. p \<in> set ps \<Longrightarrow> c_proc (mycpu_of (lk s)) \<noteq> Some p \<Longrightarrow> lk_free (L_proc p) (lk s)"
  shows "kfor ps (wakeup_one ch) (wake_set A ch s) = (Ret (), wake_set (A \<union> set ps) ch s)"
  using assms
proof (induction ps arbitrary: A)
  case Nil
  then show ?case by simp
next
  case (Cons p ps)
  have step: "wakeup_one ch p (wake_set A ch s) = (Ret (), wake_set (insert p A) ch s)"
  proof (cases "c_proc (mycpu_of (lk s)) = Some p")
    case True
    then have "wake_set (insert p A) ch s = wake_set A ch s" by (intro wake_set_cong) auto
    with True Cons.prems show ?thesis by (simp add: wakeup_one_self)
  next
    case False
    have "p \<notin> A" using Cons.prems by auto
    with False have "upd_proc p (woken (ticks s) ch) (wake_set A ch s) = wake_set (insert p A) ch s"
      by (auto simp: wake_set_def upd_proc_def wake_procs_def intro!: arg_cong [where f = "\<lambda>h. s\<lparr>procs := h\<rparr>"])
    with False Cons.prems show ?thesis by (simp add: wakeup_one_eq)
  qed
  have "set ps \<inter> insert p A = {}" using Cons.prems by auto
  from Cons.IH [OF Cons.prems(1,2) _ this] Cons.prems step show ?case by simp
qed

lemma wakeup_ptr_eq:
  assumes "procs_free (lk s)"
  shows "wakeup_ptr ch s = (Ret (), wake_set {..<NPROC} ch s)"
proof -
  have "wake_procs {} c t ch f = f" for c t and f :: "nat \<Rightarrow> proc" by (simp add: wake_procs_def fun_eq_iff)
  then have "wake_set {} ch s = s" by (simp add: wake_set_def)
  moreover have "{} \<union> set [0..<NPROC] = {..<NPROC}" by auto
  ultimately show ?thesis
    using wakeup_list_eq [of s "[0..<NPROC]" "{}" ch] assms by (simp add: wakeup_ptr_def)
qed

lemma wakeup_eq: "procs_free (lk s) \<Longrightarrow> wakeup ch s = (Ret (), wake_set {..<NPROC} (Some ch) s)"
  by (simp add: wakeup_def wakeup_ptr_eq)

definition killed1 :: "u32 \<Rightarrow> proc \<Rightarrow> proc" where
  "killed1 now x = (if p_state x = SLEEPING then x\<lparr>p_killed := 1, p_state := RUNNABLE, p_last_runnable := now\<rparr>
     else x\<lparr>p_killed := 1\<rparr>)"

lemma kill_hit:
  assumes "procs_free (lk s)" "p_pid (procs s p) = pid"
  shows "kill_loop (p # ps) pid s = (Ret 0, upd_proc p (killed1 (ticks s)) s)"
proof (cases "p_state (procs s p) = SLEEPING")
  case True
  then have "upd_proc p (killed1 (ticks s)) s = upd_proc p (\<lambda>x. x\<lparr>p_killed := 1, p_state := RUNNABLE, p_last_runnable := ticks s\<rparr>) s"
    by (intro upd_proc_cong) (simp add: killed1_def)
  with True assms show ?thesis by (simp only:) simp
next
  case False
  then have "upd_proc p (killed1 (ticks s)) s = upd_proc p (\<lambda>x. x\<lparr>p_killed := 1\<rparr>) s"
    by (intro upd_proc_cong) (simp add: killed1_def)
  with False assms show ?thesis by (simp only:) simp
qed

lemma kill_miss:
  assumes "procs_free (lk s)" "p_pid (procs s p) \<noteq> pid"
  shows "kill_loop (p # ps) pid s = kill_loop ps pid s"
  using assms by simp

lemma kill_loop_eq:
  assumes "procs_free (lk s)"
  shows "kill_loop ps pid s = (case find (\<lambda>p. p_pid (procs s p) = pid) ps of
     None \<Rightarrow> (Ret (- 1), s) | Some p \<Rightarrow> (Ret 0, upd_proc p (killed1 (ticks s)) s))"
proof (induction ps)
  case Nil
  then show ?case by simp
next
  case (Cons p ps)
  show ?case
  proof (cases "p_pid (procs s p) = pid")
    case True
    with kill_hit [OF assms True] show ?thesis by (simp only: find.simps simp_thms if_True option.case)
  next
    case False
    with kill_miss [OF assms False] Cons show ?thesis by (simp only: find.simps simp_thms if_False)
  qed
qed

lemma setkilled_eq: "procs_free (lk s) \<Longrightarrow> setkilled p s = (Ret (), upd_proc p (\<lambda>x. x\<lparr>p_killed := 1\<rparr>) s)"
  by (simp add: setkilled_def)

lemma killed_eq: "procs_free (lk s) \<Longrightarrow> killed p s = (Ret (p_killed (procs s p)), s)"
  by (simp add: killed_def)

section \<open>Blocking\<close>

text \<open>No lock is held and interrupts are as the hart left them.\<close>

definition quiet :: "lockst \<Rightarrow> bool" where
  "quiet k \<longleftrightarrow> cpu_ok k \<and> noff (mycpu_of k) = 0 \<and> (\<forall>l. lk_free l k)"

lemma quietD [simp]:
  "quiet k \<Longrightarrow> cpu_ok k" "quiet k \<Longrightarrow> noff (mycpu_of k) = 0" "quiet k \<Longrightarrow> lk_free l k" "quiet k \<Longrightarrow> procs_free k"
  unfolding quiet_def procs_free_def by blast+

lemma noff_lock1 [simp]: "noff (mycpu_of (lock1 l k)) = noff (mycpu_of k) + 1"
  by (simp add: lock1_def off1_def mycpu_of_def)

lemma sie_lock1 [simp]: "\<not> sie (lock1 l k) (tp k)"
  by (simp add: lock1_def off1_def)

text \<open>What \<open>sched\<close> demands of its caller.\<close>

lemma sched_eq:
  assumes "lk s = lock1 (L_proc p) k" "quiet k" "c_proc (mycpu_of k) = Some p" "p_state (procs s p) \<noteq> RUNNING"
  shows "sched s = (Exc Switch, s)"
proof -
  have "lk_held (L_proc p) (lk s)" "noff (mycpu_of (lk s)) = 1" using assms by simp_all
  then show ?thesis using assms
    by (simp add: sched_def holding_def mycpu_def cpuid_def getcpu_def intr_get_def lk_held_def mycpu_of_def)
qed

lemma sched_wrong_locks:
  assumes "cpu_ok (lk s)" "c_proc (mycpu_of (lk s)) = Some p" "lk_held (L_proc p) (lk s)" "noff (mycpu_of (lk s)) \<noteq> 1"
  shows "sched s = (Exc (Panic ''sched locks''), s)"
  using assms by (simp add: sched_def holding_def mycpu_def cpuid_def getcpu_def lk_held_def mycpu_of_def)

definition charge :: "u32 \<Rightarrow> proc \<Rightarrow> proc" where
  "charge now x = x\<lparr>p_run_time := p_run_time x + (now - p_last_run_start x),
     p_kernel_time := (if p_is_kernel x \<noteq> 0 then p_kernel_time x + (now - p_last_kernel_time x) else p_kernel_time x)\<rparr>"

lemma p_kernel_time_id: "p_kernel_time x = v \<Longrightarrow> x\<lparr>p_kernel_time := v\<rparr> = x"
  by (cases x) simp

lemma sleep_eq:
  assumes "lk s = lock1 l k" "quiet k" "c_proc (mycpu_of k) = Some p" "l \<noteq> L_proc p"
  shows "sleep ch l s = (Exc Switch, upd_proc p (\<lambda>x. (charge (ticks s) (x\<lparr>p_chan := Some ch\<rparr>))\<lparr>p_state := SLEEPING\<rparr>)
     (s\<lparr>lk := lock1 (L_proc p) k\<rparr>))"
proof -
  let ?s = "s\<lparr>lk := lock1 (L_proc p) k\<rparr>"
  have sched: "sched (upd_proc p f ?s) = (Exc Switch, upd_proc p f ?s)" if "p_state (f (procs s p)) \<noteq> RUNNING" for f
    using sched_eq [of "upd_proc p f ?s" p k] assms that by simp
  have "sleep ch l s = kbind (getp p p_is_kernel) (\<lambda>ik.
      kthen (kwhen (ik \<noteq> 0) (kbind sys_uptime (\<lambda>now.
         modp p (\<lambda>x. x\<lparr>p_kernel_time := p_kernel_time x + (now - p_last_kernel_time x)\<rparr>)))) (
      kthen (modp p (\<lambda>x. x\<lparr>p_state := SLEEPING\<rparr>)) sched))
      (upd_proc p (\<lambda>x. x\<lparr>p_chan := Some ch, p_run_time := p_run_time x + (ticks s - p_last_run_start x)\<rparr>) ?s)"
    using assms by (simp add: sleep_def)
  also have "\<dots> = (Exc Switch, upd_proc p (\<lambda>x. (charge (ticks s) (x\<lparr>p_chan := Some ch\<rparr>))\<lparr>p_state := SLEEPING\<rparr>) ?s)"
    using assms by (cases "p_is_kernel (procs s p) = 0")
      (auto simp: sched kwhen_def charge_def intro!: upd_proc_cong)
  finally show ?thesis .
qed

lemma yield_eq:
  assumes "quiet (lk s)" "c_proc (mycpu_of (lk s)) = Some p"
  shows "yield s = (Exc Switch, upd_proc p (\<lambda>x. (charge (ticks s) x)\<lparr>p_state := RUNNABLE, p_last_runnable := ticks s\<rparr>)
     (s\<lparr>lk := lock1 (L_proc p) (lk s)\<rparr>))"
proof -
  let ?s = "s\<lparr>lk := lock1 (L_proc p) (lk s)\<rparr>"
  have sched: "sched (upd_proc p f ?s) = (Exc Switch, upd_proc p f ?s)" if "p_state (f (procs s p)) \<noteq> RUNNING" for f
    using sched_eq [of "upd_proc p f ?s" p "lk s"] assms that by simp
  have "yield s = kbind (getp p p_is_kernel) (\<lambda>ik.
      kthen (kwhen (ik \<noteq> 0) (kbind sys_uptime (\<lambda>now.
         modp p (\<lambda>x. x\<lparr>p_kernel_time := p_kernel_time x + (now - p_last_kernel_time x)\<rparr>)))) (
      kbind sys_uptime (\<lambda>now. kthen (modp p (\<lambda>x. x\<lparr>p_last_runnable := now\<rparr>)) sched)))
      (upd_proc p (\<lambda>x. x\<lparr>p_state := RUNNABLE, p_run_time := p_run_time x + (ticks s - p_last_run_start x)\<rparr>) ?s)"
    using assms by (simp add: yield_def)
  also have "\<dots> = (Exc Switch, upd_proc p (\<lambda>x. (charge (ticks s) x)\<lparr>p_state := RUNNABLE, p_last_runnable := ticks s\<rparr>) ?s)"
    using assms by (cases "p_is_kernel (procs s p) = 0")
      (auto simp: sched kwhen_def charge_def intro!: upd_proc_cong)
  finally show ?thesis .
qed

lemma procs_free_lock1 [simp]:
  "procs_free k \<Longrightarrow> l \<noteq> L_ticks \<Longrightarrow> (\<And>p. l \<noteq> L_proc p) \<Longrightarrow> procs_free (lock1 l k)"
  unfolding procs_free_def by auto

lemma wake_set_update_lk [simp]:
  "c_proc (mycpu_of k) = c_proc (mycpu_of (lk s)) \<Longrightarrow> wake_set A ch (s\<lparr>lk := k\<rparr>) = (wake_set A ch s)\<lparr>lk := k\<rparr>"
  by (simp add: wake_set_def)

lemma acquiresleep_eq:
  assumes "cpu_ok (lk s)" "lk_free (L_slk l) (lk s)" "sl_locked (slks s l) = 0" "c_proc (mycpu_of (lk s)) = Some p"
  shows "acquiresleep l s = (Ret (), s\<lparr>slks := (slks s)(l := (slks s l)\<lparr>sl_locked := 1, sl_pid := p_pid (procs s p)\<rparr>)\<rparr>)"
  using assms by (simp add: acquiresleep_def acquiresleep_loop_def)

lemma holdingsleep_eq:
  assumes "cpu_ok (lk s)" "lk_free (L_slk l) (lk s)" "c_proc (mycpu_of (lk s)) = Some p"
  shows "holdingsleep l s = (Ret (sl_locked (slks s l) \<noteq> 0 \<and> sl_pid (slks s l) = p_pid (procs s p)), s)"
  using assms by (cases "sl_locked (slks s l) = 0") (simp_all add: holdingsleep_def)

lemma releasesleep_eq:
  assumes "procs_free (lk s)" "lk_free (L_slk l) (lk s)"
  shows "releasesleep l s = (Ret (), wake_set {..<NPROC} (Some (Chan_slk l))
     (s\<lparr>slks := (slks s)(l := (slks s l)\<lparr>sl_locked := 0, sl_pid := 0\<rparr>)\<rparr>))"
  using assms by (simp add: releasesleep_def wakeup_eq wake_set_def)

lemma wakeup_one_ticks_held:
  assumes "cpu_ok (lk s)" "lk_held L_ticks (lk s)" "lk_free (L_proc p) (lk s)" "c_proc (mycpu_of (lk s)) \<noteq> Some p"
    "p_state (procs s p) = SLEEPING" "p_chan (procs s p) = ch"
  shows "fst (wakeup_one ch p s) = Exc (Panic ''acquire'')"
  using assms by (simp add: wakeup_one_def sys_uptime_def acquire_held)

lemma wakeup_one_idle:
  assumes "cpu_ok (lk s)" "c_proc (mycpu_of (lk s)) \<noteq> Some p \<Longrightarrow> lk_free (L_proc p) (lk s)"
    "c_proc (mycpu_of (lk s)) \<noteq> Some p \<Longrightarrow> \<not> (p_state (procs s p) = SLEEPING \<and> p_chan (procs s p) = ch)"
  shows "wakeup_one ch p s = (Ret (), s)"
proof (cases "c_proc (mycpu_of (lk s)) = Some p")
  case False
  with assms have "\<not> (p_state (procs s p) = SLEEPING \<and> p_chan (procs s p) = ch)" "lk_free (L_proc p) (lk s)" by simp_all
  then show ?thesis using assms(1) False unfolding wakeup_one_def by (simp del: de_Morgan_conj not_imp add: kwhen_def)
qed (simp add: assms wakeup_one_self)

lemma kthen_fst_Exc: "fst (m s) = Exc e \<Longrightarrow> fst (kthen m n s) = Exc e"
  by (cases "m s") (auto simp: kthen_def kbind_def split: res.splits)

lemma wakeup_list_panics:
  assumes "cpu_ok (lk s)" "lk_held L_ticks (lk s)" "\<And>p. lk_free (L_proc p) (lk s)"
    "q \<in> set ps" "c_proc (mycpu_of (lk s)) \<noteq> Some q" "p_state (procs s q) = SLEEPING" "p_chan (procs s q) = ch"
  shows "fst (kfor ps (wakeup_one ch) s) = Exc (Panic ''acquire'')"
  using assms(4)
proof (induction ps)
  case (Cons p ps)
  show ?case
  proof (cases "c_proc (mycpu_of (lk s)) \<noteq> Some p \<and> p_state (procs s p) = SLEEPING \<and> p_chan (procs s p) = ch")
    case True
    then show ?thesis using assms by (auto intro: kthen_fst_Exc wakeup_one_ticks_held)
  next
    case False
    then have "wakeup_one ch p s = (Ret (), s)" using assms by (intro wakeup_one_idle) auto
    moreover have "q \<in> set ps" using False Cons.prems assms by auto
    ultimately show ?thesis using Cons.IH by simp
  qed
qed simp

lemma wakeup_list_idle:
  assumes "cpu_ok (lk s)" "\<And>p. lk_free (L_proc p) (lk s)"
    "\<And>p. p \<in> set ps \<Longrightarrow> c_proc (mycpu_of (lk s)) \<noteq> Some p \<Longrightarrow> \<not> (p_state (procs s p) = SLEEPING \<and> p_chan (procs s p) = ch)"
  shows "kfor ps (wakeup_one ch) s = (Ret (), s)"
  using assms(3)
proof (induction ps)
  case (Cons p ps)
  then have "wakeup_one ch p s = (Ret (), s)" using assms by (intro wakeup_one_idle) auto
  with Cons show ?case by simp
qed simp

section \<open>The process a hart runs\<close>

definition setcur :: "nat option \<Rightarrow> lockst \<Rightarrow> lockst" where
  "setcur c k = k\<lparr>cpus := (cpus k)(tp k := (cpus k (tp k))\<lparr>c_proc := c\<rparr>)\<rparr>"

lemma setcur_simps [simp]:
  "tp (setcur c k) = tp k" "locks (setcur c k) = locks k" "sie (setcur c k) = sie k"
  "c_proc (mycpu_of (setcur c k)) = c" "noff (mycpu_of (setcur c k)) = noff (mycpu_of k)"
  "intena (mycpu_of (setcur c k)) = intena (mycpu_of k)"
  by (simp_all add: setcur_def mycpu_of_def)

lemma setcur_props [simp]:
  "cpu_ok (setcur c k) = cpu_ok k" "lk_free l (setcur c k) = lk_free l k" "lk_held l (setcur c k) = lk_held l k"
  "busy (setcur c k) = busy k" "quiet (setcur c k) = quiet k" "procs_free (setcur c k) = procs_free k"
  by (simp_all add: cpu_ok_def lk_free_def lk_held_def busy_def quiet_def procs_free_def del: procs_freeD quietD)

lemma cpu_update_swap: "x\<lparr>c_proc := c, noff := n\<rparr> = x\<lparr>noff := n, c_proc := c\<rparr>"
  by (cases x) simp

lemma lock1_setcur [simp]: "lock1 l (setcur c k) = setcur c (lock1 l k)"
  by (rule lockst_eqI) (simp_all add: lock1_def off1_def setcur_def cpu_update_swap)

lemma unlock1_setcur [simp]: "unlock1 l (setcur c k) = setcur c (unlock1 l k)"
  by (rule lockst_eqI) (simp_all add: unlock1_def on1_def setcur_def cpu_update_swap)

lemma setcur_setcur [simp]: "setcur c (setcur d k) = setcur c k"
  by (simp add: setcur_def)

lemma c_proc_update_id: "c_proc x = c \<Longrightarrow> x\<lparr>c_proc := c\<rparr> = x"
  by (cases x) simp

lemma setcur_id [simp]: "c_proc (mycpu_of k) = c \<Longrightarrow> setcur c k = k"
  by (rule lockst_eqI) (simp_all add: setcur_def mycpu_of_def c_proc_update_id)

lemma modcpu_cur: "kbind mycpu (\<lambda>c. modcpu c (\<lambda>x. x\<lparr>c_proc := q\<rparr>)) s = (Ret (), s\<lparr>lk := setcur q (lk s)\<rparr>)"
  by (simp add: mycpu_def cpuid_def modcpu_def setcur_def)

definition dispatched :: "u32 \<Rightarrow> proc \<Rightarrow> proc" where
  "dispatched now x = x\<lparr>p_state := RUNNING, p_waiting_time := p_waiting_time x + (now - p_last_runnable x),
     p_last_run_start := now, p_last_kernel_time := (if p_is_kernel x \<noteq> 0 then now else p_last_kernel_time x)\<rparr>"

lemma scheduler_try_eq:
  assumes "quiet (lk s)" "p_state (procs s p) = RUNNABLE"
  shows "scheduler_try p s = (Ret True, upd_proc p (dispatched (ticks s)) (s\<lparr>lk := setcur (Some p) (lock1 (L_proc p) (lk s))\<rparr>))"
proof -
  let ?s = "s\<lparr>lk := lock1 (L_proc p) (lk s)\<rparr>" and ?t = "s\<lparr>lk := setcur (Some p) (lock1 (L_proc p) (lk s))\<rparr>"
  have fin: "kthen (modcpu (tp (lk s)) (\<lambda>x. x\<lparr>c_proc := Some p\<rparr>)) (kret True) (upd_proc p f ?s) = (Ret True, upd_proc p f ?t)" for f
    by (simp add: modcpu_def setcur_def)
  have "scheduler_try p s = kbind (getp p p_is_kernel) (\<lambda>ik.
      kthen (kwhen (ik \<noteq> 0) (kbind sys_uptime (\<lambda>now. modp p (\<lambda>x. x\<lparr>p_last_kernel_time := now\<rparr>))))
      (kthen (modcpu (tp (lk s)) (\<lambda>x. x\<lparr>c_proc := Some p\<rparr>)) (kret True)))
      (upd_proc p (\<lambda>x. x\<lparr>p_state := RUNNING, p_waiting_time := p_waiting_time x + (ticks s - p_last_runnable x),
         p_last_run_start := ticks s\<rparr>) ?s)"
    using assms by (simp add: scheduler_try_def mycpu_def cpuid_def)
  also have "\<dots> = (Ret True, upd_proc p (dispatched (ticks s)) ?t)"
  proof (cases "p_is_kernel (procs s p) = 0")
    case True
    have "upd_proc p (\<lambda>x. x\<lparr>p_state := RUNNING, p_waiting_time := p_waiting_time x + (ticks s - p_last_runnable x),
         p_last_run_start := ticks s\<rparr>) ?t = upd_proc p (dispatched (ticks s)) ?t"
      using True by (intro upd_proc_cong) (simp add: dispatched_def)
    with True show ?thesis by (simp add: kwhen_def fin)
  next
    case False
    have "upd_proc p (\<lambda>x. x\<lparr>p_state := RUNNING, p_waiting_time := p_waiting_time x + (ticks s - p_last_runnable x),
         p_last_run_start := ticks s, p_last_kernel_time := ticks s\<rparr>) ?t = upd_proc p (dispatched (ticks s)) ?t"
      using False by (intro upd_proc_cong) (simp add: dispatched_def)
    with False assms show ?thesis by (simp add: kwhen_def fin)
  qed
  finally show ?thesis .
qed

lemma scheduler_try_other:
  assumes "quiet (lk s)" "p_state (procs s p) \<noteq> RUNNABLE"
  shows "scheduler_try p s = (Ret False, s)"
  using assms by (simp add: scheduler_try_def mycpu_def cpuid_def)

lemma scheduler_back_eq:
  assumes "lk s = lock1 (L_proc p) k" "quiet k"
  shows "scheduler_back p s = (Ret (), upd_proc p (\<lambda>x. x\<lparr>p_context_switches := p_context_switches x + 1\<rparr>)
     (s\<lparr>lk := setcur None k\<rparr>))"
proof -
  have "lk_held (L_proc p) (setcur None (lk s))" "busy (setcur None (lk s))" "unlock1 (L_proc p) (setcur None (lk s)) = setcur None k"
    using assms by simp_all
  then show ?thesis using assms(1)
    by (simp add: scheduler_back_def mycpu_def cpuid_def modcpu_def setcur_def)
qed

lemma intena_same: "intena (mycpu_of k) = i \<Longrightarrow> k\<lparr>cpus := (cpus k)(tp k := (cpus k (tp k))\<lparr>intena := i\<rparr>)\<rparr> = k"
  by (rule lockst_eqI) (simp_all add: mycpu_of_def)

lemma intena_lock1 [simp]: "intena (mycpu_of (lock1 l k)) = intena (mycpu_of k)"
  by (simp add: lock1_def off1_def mycpu_of_def)

lemma sched_resume_id: "intena (mycpu_of (lk s)) = i \<Longrightarrow> sched_resume i s = (Ret (), s)"
  using intena_same [of "lk s" i] by (simp add: sched_resume_def mycpu_def cpuid_def modcpu_def)

lemma sleep_resume_eq:
  assumes "lk s = lock1 (L_proc p) k" "quiet k" "intena (mycpu_of k) = i"
  shows "sleep_resume p i l s = (Ret (), upd_proc p (\<lambda>x. x\<lparr>p_chan := None\<rparr>) (s\<lparr>lk := lock1 l k\<rparr>))"
  using assms by (simp add: sleep_resume_def sched_resume_id)

section \<open>Properties\<close>

text \<open>
  C34. \<open>wakeup\<close> makes runnable exactly the processes, other than the caller, that sleep on the given
  channel, stamps them with the current tick, and changes no other process and nothing else of
  the state; all locks are free again.
\<close>

theorem wakeup_wakes_exactly:
  assumes "procs_free (lk s)"
  shows "\<exists>t. wakeup ch s = (Ret (), t) \<and> t\<lparr>procs := procs s\<rparr> = s
    \<and> (\<forall>p. procs t p =
          (if p < NPROC \<and> c_proc (mycpu_of (lk s)) \<noteq> Some p \<and> p_state (procs s p) = SLEEPING \<and> p_chan (procs s p) = Some ch
           then (procs s p)\<lparr>p_state := RUNNABLE, p_last_runnable := ticks s\<rparr> else procs s p))"
proof -
  let ?t = "wake_set {..<NPROC} (Some ch) s"
  have "wakeup ch s = (Ret (), ?t)" using assms by (rule wakeup_eq)
  moreover have "?t\<lparr>procs := procs s\<rparr> = s" by (simp add: wake_set_def)
  ultimately show ?thesis
    by (intro exI [of _ ?t]) (auto simp: wake_set_def wake_procs_def woken_def)
qed

definition sleeper_state :: kstate where
  "sleeper_state = zero_state\<lparr>procs := (procs zero_state)(3 := zero_proc\<lparr>p_state := SLEEPING, p_chan := Some Chan_ticks, p_pid := 7\<rparr>),
     ticks := 41\<rparr>"

lemma sleeper_quiet: "quiet (lk sleeper_state)"
  by (simp add: sleeper_state_def zero_defs quiet_def cpu_ok_def mycpu_of_def lk_free_def)

lemma zero_quiet: "quiet (lk zero_state)"
  using sleeper_quiet by (simp add: sleeper_state_def)

theorem wakeup_wakes_exactly_witness:
  "procs_free (lk sleeper_state) \<and> (\<exists>t. wakeup Chan_ticks sleeper_state = (Ret (), t)
     \<and> p_state (procs t 3) = RUNNABLE \<and> p_last_runnable (procs t 3) = 41 \<and> p_state (procs t 2) = UNUSED)"
proof -
  have ok: "procs_free (lk sleeper_state)" using sleeper_quiet by (rule quietD)
  have "c_proc (mycpu_of (lk sleeper_state)) = None" "p_state (procs sleeper_state 3) = SLEEPING"
    "p_chan (procs sleeper_state 3) = Some Chan_ticks" "ticks sleeper_state = 41" "p_state (procs sleeper_state 2) = UNUSED"
    by (simp_all add: sleeper_state_def zero_defs mycpu_of_def)
  with wakeup_wakes_exactly [OF ok, of Chan_ticks] ok show ?thesis by (auto simp: NPROC_def)
qed

text \<open>
  C14. The timer interrupt. \<open>clockintr\<close> calls \<open>wakeup\<close> with \<open>tickslock\<close> held, and \<open>wakeup\<close> asks
  \<open>sys_uptime\<close>, which acquires \<open>tickslock\<close>, for the time of every process it wakes: if any process
  sleeps on the tick counter the kernel panics in \<open>acquire\<close>. Otherwise the tick is counted and
  nothing else changes.
\<close>

theorem clockintr_panics_iff_sleepers:
  assumes "procs_free (lk s)"
  shows "if \<exists>p<NPROC. c_proc (mycpu_of (lk s)) \<noteq> Some p \<and> p_state (procs s p) = SLEEPING \<and> p_chan (procs s p) = Some Chan_ticks
     then fst (clockintr s) = Exc (Panic ''acquire'')
     else clockintr s = (Ret (), s\<lparr>ticks := ticks s + 1\<rparr>)"
proof -
  let ?s = "s\<lparr>lk := lock1 L_ticks (lk s), ticks := ticks s + 1\<rparr>"
  have run: "clockintr s = kthen (wakeup Chan_ticks) (release L_ticks) ?s"
    using assms by (simp add: clockintr_def)
  show ?thesis
  proof (cases "\<exists>p<NPROC. c_proc (mycpu_of (lk s)) \<noteq> Some p \<and> p_state (procs s p) = SLEEPING \<and> p_chan (procs s p) = Some Chan_ticks")
    case True
    then obtain q where q: "q < NPROC" "c_proc (mycpu_of (lk s)) \<noteq> Some q" "p_state (procs s q) = SLEEPING" "p_chan (procs s q) = Some Chan_ticks"
      by blast
    have "fst (wakeup Chan_ticks ?s) = Exc (Panic ''acquire'')"
      unfolding wakeup_def wakeup_ptr_def by (rule wakeup_list_panics [of _ q]) (use q assms in simp_all)
    then show ?thesis using True run by (simp add: kthen_fst_Exc)
  next
    case False
    then have "wakeup Chan_ticks ?s = (Ret (), ?s)"
      unfolding wakeup_def wakeup_ptr_def using assms by (intro wakeup_list_idle) auto
    then show ?thesis using run assms False by (simp del: not_ex)
  qed
qed

theorem clockintr_panics_iff_sleepers_witness:
  "procs_free (lk sleeper_state) \<and> fst (clockintr sleeper_state) = Exc (Panic ''acquire'')
   \<and> procs_free (lk zero_state) \<and> clockintr zero_state = (Ret (), zero_state\<lparr>ticks := 1\<rparr>)"
proof -
  have ok: "procs_free (lk sleeper_state)" using sleeper_quiet by (rule quietD)
  have ok0: "procs_free (lk zero_state)" using ok by (simp add: sleeper_state_def)
  have "c_proc (mycpu_of (lk sleeper_state)) = None" "p_state (procs sleeper_state 3) = SLEEPING"
    "p_chan (procs sleeper_state 3) = Some Chan_ticks"
    by (simp_all add: sleeper_state_def zero_defs mycpu_of_def)
  then have "\<exists>p<NPROC. c_proc (mycpu_of (lk sleeper_state)) \<noteq> Some p \<and> p_state (procs sleeper_state p) = SLEEPING
      \<and> p_chan (procs sleeper_state p) = Some Chan_ticks"
    by (intro exI [of _ 3]) (simp add: NPROC_def)
  moreover have "\<not> (\<exists>p<NPROC. c_proc (mycpu_of (lk zero_state)) \<noteq> Some p \<and> p_state (procs zero_state p) = SLEEPING
      \<and> p_chan (procs zero_state p) = Some Chan_ticks)" "ticks zero_state = 0"
    by (simp_all add: zero_defs)
  ultimately show ?thesis
    using ok ok0 clockintr_panics_iff_sleepers [OF ok] clockintr_panics_iff_sleepers [OF ok0] by (simp del: not_ex)
qed

text \<open>
  C36. \<open>kill\<close> returns 0 exactly when some process has the given pid. Then the first such process, and
  only that one, is marked killed and, if it was asleep, made runnable; the others and the rest
  of the state are untouched, as is everything when the result is -1.
\<close>

theorem kill_marks_first:
  assumes "procs_free (lk s)"
  shows "(\<nexists>p. p < NPROC \<and> p_pid (procs s p) = pid) \<and> kill pid s = (Ret (- 1), s)
    \<or> (\<exists>p t. p < NPROC \<and> p_pid (procs s p) = pid \<and> (\<forall>q<p. p_pid (procs s q) \<noteq> pid) \<and> kill pid s = (Ret 0, t)
        \<and> p_killed (procs t p) = 1 \<and> p_state (procs t p) = (if p_state (procs s p) = SLEEPING then RUNNABLE else p_state (procs s p))
        \<and> (\<forall>q. q \<noteq> p \<longrightarrow> procs t q = procs s q) \<and> t\<lparr>procs := procs s\<rparr> = s)"
proof (cases "find (\<lambda>p. p_pid (procs s p) = pid) [0..<NPROC]")
  case None
  then have "\<nexists>p. p < NPROC \<and> p_pid (procs s p) = pid" by (auto simp: find_None_iff)
  with None show ?thesis using kill_loop_eq [OF assms, of "[0..<NPROC]" pid] by (simp add: kill_def)
next
  case (Some p)
  then obtain i where i: "i < NPROC" "p = i" "p_pid (procs s i) = pid" "\<And>j. j < i \<Longrightarrow> p_pid (procs s j) \<noteq> pid"
    by (auto simp: find_Some_iff)
  let ?t = "upd_proc i (killed1 (ticks s)) s"
  have "kill pid s = (Ret 0, ?t)"
    using Some i kill_loop_eq [OF assms, of "[0..<NPROC]" pid] by (simp add: kill_def)
  moreover have "?t\<lparr>procs := procs s\<rparr> = s" by (simp add: upd_proc_def)
  ultimately show ?thesis using i by (intro disjI2 exI [of _ i] exI [of _ ?t]) (auto simp: killed1_def)
qed

theorem kill_marks_first_witness:
  "procs_free (lk sleeper_state) \<and> (\<exists>t. kill 7 sleeper_state = (Ret 0, t) \<and> p_state (procs t 3) = RUNNABLE)
   \<and> kill 8 sleeper_state = (Ret (- 1), sleeper_state)"
proof -
  have ok: "procs_free (lk sleeper_state)" using sleeper_quiet by (rule quietD)
  have pids: "p_pid (procs sleeper_state p) = (if p = 3 then 7 else 0)" "p_state (procs sleeper_state 3) = SLEEPING" for p
    by (simp_all add: sleeper_state_def zero_defs)
  from kill_marks_first [OF ok, of 7] kill_marks_first [OF ok, of 8] ok show ?thesis
    by (auto simp: pids NPROC_def split: if_splits)
qed

text \<open>
  C16. No wakeup is lost and the lock comes back. A process that calls \<open>sleep(chan, l)\<close> with only
  \<open>l\<close> held gives up \<open>l\<close> and the CPU; once the scheduler has the CPU, a \<open>wakeup(chan)\<close> makes it
  runnable, the scheduler dispatches it, and \<open>sleep\<close> returns with \<open>l\<close> held again, the lock state
  of the hart exactly as it was at the call, the process running and on no channel. The time it
  was on the CPU has been added to its run time. Nothing but the process table has changed.
\<close>

theorem sleep_wakeup_round_trip:
  assumes "lk s = lock1 l k" "quiet k" "c_proc (mycpu_of k) = Some p" "p < NPROC" "l \<noteq> L_proc p"
  shows "\<exists>s1 t. sleep ch l s = ((Exc Switch :: unit res), s1)
     \<and> kthen (scheduler_back p) (kthen (wakeup ch) (kbind (scheduler_try p) (\<lambda>run.
          if run then sleep_resume p (intena (mycpu_of k)) l else kpanic ''not dispatched''))) s1 = (Ret (), t)
     \<and> lk t = lk s \<and> t\<lparr>procs := procs s\<rparr> = s
     \<and> p_state (procs t p) = RUNNING \<and> p_chan (procs t p) = None
     \<and> p_run_time (procs t p) = p_run_time (procs s p) + (ticks s - p_last_run_start (procs s p))"
proof -
  let ?f = "\<lambda>x. (charge (ticks s) (x\<lparr>p_chan := Some ch\<rparr>))\<lparr>p_state := SLEEPING\<rparr>"
  let ?s1 = "upd_proc p ?f (s\<lparr>lk := lock1 (L_proc p) k\<rparr>)"
  let ?g = "\<lambda>x. (?f x)\<lparr>p_context_switches := p_context_switches x + 1\<rparr>"
  let ?s2 = "upd_proc p ?g (s\<lparr>lk := setcur None k\<rparr>)"
  let ?s3 = "wake_set {..<NPROC} (Some ch) ?s2"
  let ?s4 = "upd_proc p (dispatched (ticks s)) (?s3\<lparr>lk := lock1 (L_proc p) k\<rparr>)"
  let ?s5 = "upd_proc p (\<lambda>x. x\<lparr>p_chan := None\<rparr>) (?s4\<lparr>lk := lock1 l k\<rparr>)"
  have 1: "sleep ch l s = ((Exc Switch :: unit res), ?s1)" using assms by (simp add: sleep_eq)
  have 2: "scheduler_back p ?s1 = (Ret (), ?s2)"
  proof -
    have "scheduler_back p ?s1 = (Ret (), upd_proc p (\<lambda>x. x\<lparr>p_context_switches := p_context_switches x + 1\<rparr>) (?s1\<lparr>lk := setcur None k\<rparr>))"
      using assms by (intro scheduler_back_eq) simp_all
    also have "upd_proc p (\<lambda>x. x\<lparr>p_context_switches := p_context_switches x + 1\<rparr>) (?s1\<lparr>lk := setcur None k\<rparr>) = ?s2"
      by (simp add: charge_def)
    finally show ?thesis .
  qed
  have 3: "wakeup ch ?s2 = (Ret (), ?s3)" using assms by (intro wakeup_eq) simp
  have p3: "procs ?s3 p = (?g (procs s p))\<lparr>p_state := RUNNABLE, p_last_runnable := ticks s\<rparr>"
    using assms by (simp add: wake_set_def wake_procs_def woken_def charge_def)
  have 4: "scheduler_try p ?s3 = (Ret True, ?s4)"
  proof -
    have "scheduler_try p ?s3 = (Ret True, upd_proc p (dispatched (ticks ?s3)) (?s3\<lparr>lk := setcur (Some p) (lock1 (L_proc p) (lk ?s3))\<rparr>))"
      using assms p3 by (intro scheduler_try_eq) simp_all
    then show ?thesis using assms by simp
  qed
  have 5: "sleep_resume p (intena (mycpu_of k)) l ?s4 = (Ret (), ?s5)"
    using assms by (intro sleep_resume_eq) simp_all
  have "?s5\<lparr>procs := procs s\<rparr> = s" using assms by (simp add: upd_proc_def wake_set_def)
  moreover have "procs ?s5 p = (dispatched (ticks s) ((?g (procs s p))\<lparr>p_state := RUNNABLE, p_last_runnable := ticks s\<rparr>))\<lparr>p_chan := None\<rparr>"
    using p3 by simp
  then have "p_state (procs ?s5 p) = RUNNING" "p_chan (procs ?s5 p) = None"
    "p_run_time (procs ?s5 p) = p_run_time (procs s p) + (ticks s - p_last_run_start (procs s p))"
    by (simp_all add: dispatched_def charge_def)
  moreover have "lk ?s5 = lk s" using assms by simp
  ultimately show ?thesis using 1 2 3 4 5 by (intro exI [of _ ?s1] exI [of _ ?s5]) simp
qed

definition waiter_state :: kstate where
  "waiter_state = zero_state\<lparr>lk := lock1 L_wait (setcur (Some 2) (lk zero_state)),
     procs := (procs zero_state)(2 := zero_proc\<lparr>p_state := RUNNING, p_last_run_start := 30\<rparr>), ticks := 41\<rparr>"

theorem sleep_wakeup_round_trip_witness:
  "\<exists>s1 (t :: kstate). sleep (Chan_proc 2) L_wait waiter_state = ((Exc Switch :: unit res), s1)
     \<and> lk t = lk waiter_state \<and> p_state (procs t 2) = RUNNING \<and> p_run_time (procs t 2) = 11"
proof -
  have k: "quiet (setcur (Some 2) (lk zero_state))"
    using sleeper_quiet by (simp add: sleeper_state_def)
  have a: "lk waiter_state = lock1 L_wait (setcur (Some 2) (lk zero_state))" by (simp add: waiter_state_def)
  have b: "p_run_time (procs waiter_state 2) + (ticks waiter_state - p_last_run_start (procs waiter_state 2)) = 11"
    by (simp add: waiter_state_def zero_proc_def)
  have c: "c_proc (mycpu_of (setcur (Some 2) (lk zero_state))) = Some 2" "2 < NPROC" "L_wait \<noteq> L_proc 2"
    by (simp_all add: NPROC_def)
  from sleep_wakeup_round_trip [OF a k c, of "Chan_proc 2", unfolded b] show ?thesis by blast
qed

end
