(* ===== verification/Xv6_Printf.thy ===== *)
theory Xv6_Printf
  imports Xv6_Sched
begin

text \<open>
  \<^verbatim>\<open>kernel/printf.c\<close> with the synchronous output path below it (\<open>consputc\<close> of
  \<^verbatim>\<open>kernel/console.c\<close>, \<open>uartputc_sync\<close> of \<^verbatim>\<open>kernel/uart.c\<close>) and \<open>procdump\<close> of
  \<^verbatim>\<open>kernel/proc.c\<close>.

  \<open>conout\<close> is what the UART has been given to transmit. The busy wait for the transmitter is not
  a step of its own. The arguments of \<open>printf\<close> are a list of \<open>fmtarg\<close>s; a conversion without an
  argument is a \<open>Fault\<close>. \<open>panic\<close> is the outcome \<open>Panic\<close> of the functions that call it.
\<close>

section \<open>The code\<close>

definition uartputc_sync :: "u8 \<Rightarrow> unit op" where
  "uartputc_sync c =
     kthen push_off (
     kbind (kget panicked) (\<lambda>pk.
     if pk then kexc Spin else
     kthen (kmod (\<lambda>s. s\<lparr>conout := conout s @ [c]\<rparr>))
     pop_off))"

definition BACKSPACE :: int where "BACKSPACE = 0x100"

definition consputc :: "int \<Rightarrow> unit op" where
  "consputc c =
     (if c = BACKSPACE then
        kthen (uartputc_sync 8) (kthen (uartputc_sync 32) (uartputc_sync 8))
      else uartputc_sync (of_int c))"

text \<open>\<open>digits[i]\<close>\<close>

definition digit :: "nat \<Rightarrow> u8" where
  "digit i = (if i < 10 then of_nat (48 + i) else of_nat (87 + i))"

text \<open>The digit loop of \<open>printint\<close>, least significant digit first; it is called with bases 10 and 16.\<close>

function digits_rev :: "nat \<Rightarrow> nat \<Rightarrow> u8 list" where
  "digits_rev base x =
     digit (x mod base) # (if x div base = 0 \<or> base < 2 then [] else digits_rev base (x div base))"
  by auto
termination
  by (relation "measure snd") (auto simp: div_eq_0_iff)

definition printint_bytes :: "int \<Rightarrow> nat \<Rightarrow> bool \<Rightarrow> u8 list" where
  "printint_bytes xx base sg =
     (let neg = (sg \<and> xx < 0);
          x = (if neg then of_int (- xx) else of_int xx) :: u32
      in rev (digits_rev base (unat x) @ (if neg then [45] else [])))"

definition putbytes :: "u8 list \<Rightarrow> unit op" where
  "putbytes bs = kfor bs (\<lambda>c. consputc (uint c))"

definition printint :: "int \<Rightarrow> nat \<Rightarrow> bool \<Rightarrow> unit op" where
  "printint xx base sg = putbytes (printint_bytes xx base sg)"

primrec ptr_digits :: "nat \<Rightarrow> u64 \<Rightarrow> u8 list" where
  "ptr_digits 0 x = []"
| "ptr_digits (Suc n) x = digit (unat (drop_bit 60 x)) # ptr_digits n (push_bit 4 x)"

definition printptr :: "u64 \<Rightarrow> unit op" where
  "printptr x = putbytes ([48, 120] @ ptr_digits 16 x)"

datatype fmtarg = Fint int | Fptr u64 | Fstr "u8 list option"

fun printf_loop :: "u8 list \<Rightarrow> fmtarg list \<Rightarrow> unit op" where
  "printf_loop [] args = kret ()"
| "printf_loop [c] args = (if c = 37 then kret () else consputc (uint c))"
| "printf_loop (c # d # fmt) args =
     (if c \<noteq> 37 then kthen (consputc (uint c)) (printf_loop (d # fmt) args)
      else if d = 100 then
        (case args of Fint x # rest \<Rightarrow> kthen (printint x 10 True) (printf_loop fmt rest)
         | _ \<Rightarrow> kexc (Fault ''printf''))
      else if d = 120 then
        (case args of Fint x # rest \<Rightarrow> kthen (printint x 16 True) (printf_loop fmt rest)
         | _ \<Rightarrow> kexc (Fault ''printf''))
      else if d = 112 then
        (case args of Fptr x # rest \<Rightarrow> kthen (printptr x) (printf_loop fmt rest)
         | _ \<Rightarrow> kexc (Fault ''printf''))
      else if d = 115 then
        (case args of
           Fstr (Some str) # rest \<Rightarrow> kthen (putbytes str) (printf_loop fmt rest)
         | Fstr None # rest \<Rightarrow> kthen (putbytes (map of_char ''(null)'')) (printf_loop fmt rest)
         | _ \<Rightarrow> kexc (Fault ''printf''))
      else if d = 37 then kthen (consputc 37) (printf_loop fmt args)
      else kthen (consputc 37) (kthen (consputc (uint d)) (printf_loop fmt args)))"

definition printf :: "string \<Rightarrow> fmtarg list \<Rightarrow> unit op" where
  "printf fmt args =
     kbind (kget pr_locking) (\<lambda>locking.
     kthen (kwhen locking (acquire L_pr)) (
     kthen (printf_loop (map of_char fmt) args)
     (kwhen locking (release L_pr))))"

definition printfinit :: "unit op" where
  "printfinit = kthen (initlock L_pr ''pr'') (kmod (\<lambda>s. s\<lparr>pr_locking := True\<rparr>))"

text \<open>The table \<open>states[]\<close> of \<open>procdump\<close> and \<open>ps_info\<close>.\<close>

definition state_name :: "procstate \<Rightarrow> string" where
  "state_name st = (case st of UNUSED \<Rightarrow> ''unused'' | USED \<Rightarrow> ''used'' | SLEEPING \<Rightarrow> ''sleep ''
     | RUNNABLE \<Rightarrow> ''runble'' | RUNNING \<Rightarrow> ''run   '' | ZOMBIE \<Rightarrow> ''zombie'')"

definition procdump :: "unit op" where
  "procdump =
     kthen (printf [CHR 0x0A] []) (
     kfor [0..<NPROC] (\<lambda>p.
       kbind (kget (\<lambda>s. procs s p)) (\<lambda>x.
       if p_state x = UNUSED then kret () else
       kthen (printf ''%d %s %s'' [Fint (p_pid x), Fstr (Some (map of_char (state_name (p_state x)))),
           Fstr (Some (cstr (p_name x)))])
       (printf [CHR 0x0A] []))))"

end
