(* ===== verification/Xv6_Bio.thy ===== *)
theory Xv6_Bio
  imports Xv6_Printf
begin

text \<open>
  \<^verbatim>\<open>kernel/bio.c\<close>: the buffer cache. \<open>bufs\<close> holds \<open>bcache.buf[NBUF]\<close> and, at index \<open>NBUF\<close>,
  \<open>bcache.head\<close>; \<open>b_prev\<close> and \<open>b_next\<close> are the links of the circular list. The loops that follow
  the links are given \<open>NBUF + 1\<close> rounds, one per element and one for the head; running out of
  them is the outcome \<open>Spin\<close>, which does not happen while the links form a list of the buffers.

  \<open>disk_transfer\<close> is \<open>virtio_disk_rw\<close> as its caller sees it: one block moves between the buffer
  and the disk while the buffer is locked. The wait for the interrupt is not a separate step.
\<close>

section \<open>The code\<close>

abbreviation BHEAD :: nat where
  "BHEAD \<equiv> NBUF"

abbreviation modbuf :: "nat \<Rightarrow> (buf \<Rightarrow> buf) \<Rightarrow> unit op" where
  "modbuf b f \<equiv> kmod (\<lambda>s. s\<lparr>bufs := (bufs s)(b := f (bufs s b))\<rparr>)"

abbreviation getbuf :: "nat \<Rightarrow> (buf \<Rightarrow> 'a) \<Rightarrow> 'a op" where
  "getbuf b f \<equiv> kget (\<lambda>s. f (bufs s b))"

definition disk_transfer :: "nat \<Rightarrow> bool \<Rightarrow> unit op" where
  "disk_transfer b wr =
     kthen (acquire L_vdisk) (
     kthen (if wr then kmod (\<lambda>s. s\<lparr>disk := (disk s)(b_blockno (bufs s b) := b_data (bufs s b))\<rparr>)
            else kmod (\<lambda>s. s\<lparr>bufs := (bufs s)(b := (bufs s b)\<lparr>b_data := disk s (b_blockno (bufs s b))\<rparr>)\<rparr>))
     (release L_vdisk))"

definition link_front :: "nat \<Rightarrow> unit op" where
  "link_front b =
     kthen (kmod (\<lambda>s. s\<lparr>bufs := (bufs s)(b_next (bufs s BHEAD) := (bufs s (b_next (bufs s BHEAD)))\<lparr>b_prev := b\<rparr>)\<rparr>))
     (modbuf BHEAD (\<lambda>x. x\<lparr>b_next := b\<rparr>))"

definition binit :: "unit op" where
  "binit =
     kthen (initlock L_bcache ''bcache'') (
     kthen (modbuf BHEAD (\<lambda>x. x\<lparr>b_prev := BHEAD\<rparr>)) (
     kthen (modbuf BHEAD (\<lambda>x. x\<lparr>b_next := BHEAD\<rparr>)) (
     kfor [0..<NBUF] (\<lambda>b.
       kbind (getbuf BHEAD b_next) (\<lambda>n.
       kthen (modbuf b (\<lambda>x. x\<lparr>b_next := n\<rparr>)) (
       kthen (modbuf b (\<lambda>x. x\<lparr>b_prev := BHEAD\<rparr>)) (
       kthen (initsleeplock (Slk_buf b) ''buffer'')
       (link_front b))))))))"

primrec bget_cached :: "nat \<Rightarrow> nat \<Rightarrow> u32 \<Rightarrow> u32 \<Rightarrow> nat option op" where
  "bget_cached 0 b dev blockno = kexc Spin"
| "bget_cached (Suc n) b dev blockno =
     (if b = BHEAD then kret None else
      kbind (getbuf b (\<lambda>x. b_dev x = dev \<and> b_blockno x = blockno)) (\<lambda>hit.
      if hit then kret (Some b) else
      kbind (getbuf b b_next) (\<lambda>b'. bget_cached n b' dev blockno)))"

primrec bget_unused :: "nat \<Rightarrow> nat \<Rightarrow> nat option op" where
  "bget_unused 0 b = kexc Spin"
| "bget_unused (Suc n) b =
     (if b = BHEAD then kret None else
      kbind (getbuf b (\<lambda>x. b_refcnt x = 0)) (\<lambda>hit.
      if hit then kret (Some b) else
      kbind (getbuf b b_prev) (\<lambda>b'. bget_unused n b')))"

definition bget :: "u32 \<Rightarrow> u32 \<Rightarrow> nat op" where
  "bget dev blockno =
     kthen (acquire L_bcache) (
     kbind (getbuf BHEAD b_next) (\<lambda>b0.
     kbind (bget_cached (Suc NBUF) b0 dev blockno) (\<lambda>r.
     case r of
       Some b \<Rightarrow>
         kthen (modbuf b (\<lambda>x. x\<lparr>b_refcnt := b_refcnt x + 1\<rparr>)) (
         kthen (release L_bcache) (
         kthen (acquiresleep (Slk_buf b))
         (kret b)))
     | None \<Rightarrow>
         kbind (getbuf BHEAD b_prev) (\<lambda>b0.
         kbind (bget_unused (Suc NBUF) b0) (\<lambda>r.
         case r of
           Some b \<Rightarrow>
             kthen (modbuf b (\<lambda>x. x\<lparr>b_dev := dev, b_blockno := blockno, b_valid := False, b_refcnt := 1\<rparr>)) (
             kthen (release L_bcache) (
             kthen (acquiresleep (Slk_buf b))
             (kret b)))
         | None \<Rightarrow> kpanic ''bget: no buffers'')))))"

definition bread :: "u32 \<Rightarrow> u32 \<Rightarrow> nat op" where
  "bread dev blockno =
     kbind (bget dev blockno) (\<lambda>b.
     kbind (getbuf b b_valid) (\<lambda>v.
     kthen (kwhen (\<not> v) (
       kthen (disk_transfer b False)
       (modbuf b (\<lambda>x. x\<lparr>b_valid := True\<rparr>))))
     (kret b)))"

definition bwrite :: "nat \<Rightarrow> unit op" where
  "bwrite b =
     kbind (holdingsleep (Slk_buf b)) (\<lambda>h.
     if \<not> h then kpanic ''bwrite'' else disk_transfer b True)"

definition brelse :: "nat \<Rightarrow> unit op" where
  "brelse b =
     kbind (holdingsleep (Slk_buf b)) (\<lambda>h.
     if \<not> h then kpanic ''brelse'' else
     kthen (releasesleep (Slk_buf b)) (
     kthen (acquire L_bcache) (
     kthen (modbuf b (\<lambda>x. x\<lparr>b_refcnt := b_refcnt x - 1\<rparr>)) (
     kbind (getbuf b (\<lambda>x. b_refcnt x = 0)) (\<lambda>z.
     kthen (kwhen z (
       kthen (kmod (\<lambda>s. s\<lparr>bufs := (bufs s)(b_next (bufs s b) := (bufs s (b_next (bufs s b)))\<lparr>b_prev := b_prev (bufs s b)\<rparr>)\<rparr>)) (
       kthen (kmod (\<lambda>s. s\<lparr>bufs := (bufs s)(b_prev (bufs s b) := (bufs s (b_prev (bufs s b)))\<lparr>b_next := b_next (bufs s b)\<rparr>)\<rparr>)) (
       kbind (getbuf BHEAD b_next) (\<lambda>n.
       kthen (modbuf b (\<lambda>x. x\<lparr>b_next := n\<rparr>)) (
       kthen (modbuf b (\<lambda>x. x\<lparr>b_prev := BHEAD\<rparr>))
       (link_front b)))))))
     (release L_bcache))))))"

definition bpin :: "nat \<Rightarrow> unit op" where
  "bpin b =
     kthen (acquire L_bcache) (
     kthen (modbuf b (\<lambda>x. x\<lparr>b_refcnt := b_refcnt x + 1\<rparr>)) (release L_bcache))"

definition bunpin :: "nat \<Rightarrow> unit op" where
  "bunpin b =
     kthen (acquire L_bcache) (
     kthen (modbuf b (\<lambda>x. x\<lparr>b_refcnt := b_refcnt x - 1\<rparr>)) (release L_bcache))"

end
