(* ===== verification/Xv6_Log.thy ===== *)
theory Xv6_Log
  imports Xv6_Bio
begin

text \<open>
  \<^verbatim>\<open>kernel/log.c\<close>: the write-ahead log. The header block is the byte layout of
  \<open>struct logheader\<close>: the count at offset 0 and the block numbers from offset 4 on. Writing past
  \<open>block[LOGSIZE]\<close> is the outcome \<open>Fault\<close>.
\<close>

section \<open>Integers inside a block\<close>

definition get32 :: "u8 list \<Rightarrow> nat \<Rightarrow> u32" where
  "get32 bs off = le_word (take 4 (drop off bs))"

definition put32 :: "u8 list \<Rightarrow> nat \<Rightarrow> u32 \<Rightarrow> u8 list" where
  "put32 bs off v = take off bs @ le_bytes 4 v @ drop (off + 4) bs"

definition get16 :: "u8 list \<Rightarrow> nat \<Rightarrow> u16" where
  "get16 bs off = le_word (take 2 (drop off bs))"

definition put16 :: "u8 list \<Rightarrow> nat \<Rightarrow> u16 \<Rightarrow> u8 list" where
  "put16 bs off v = take off bs @ le_bytes 2 v @ drop (off + 2) bs"

definition overlay :: "u8 list \<Rightarrow> nat \<Rightarrow> u8 list \<Rightarrow> u8 list" where
  "overlay bs off new = take off bs @ new @ drop (off + length new) bs"

section \<open>The code\<close>

abbreviation modlog :: "(logst \<Rightarrow> logst) \<Rightarrow> unit op" where
  "modlog f \<equiv> kmod (\<lambda>s. s\<lparr>logs := f (logs s)\<rparr>)"

abbreviation getlog :: "(logst \<Rightarrow> 'a) \<Rightarrow> 'a op" where
  "getlog f \<equiv> kget (\<lambda>s. f (logs s))"

abbreviation logn :: "int op" where
  "logn \<equiv> getlog (\<lambda>l. lh_n (log_lh l))"

definition log_blockno :: "nat \<Rightarrow> logst \<Rightarrow> u32" where
  "log_blockno tail l = log_start l + of_nat tail + 1"

definition install_one :: "bool \<Rightarrow> nat \<Rightarrow> unit op" where
  "install_one recovering tail =
     kbind (getlog log_dev) (\<lambda>dev.
     kbind (getlog (log_blockno tail)) (\<lambda>lno.
     kbind (bread dev lno) (\<lambda>lbuf.
     kbind (getlog log_dev) (\<lambda>dev.
     kbind (getlog (\<lambda>l. lh_block (log_lh l) tail)) (\<lambda>dno.
     kbind (bread dev dno) (\<lambda>dbuf.
     kbind (getbuf lbuf b_data) (\<lambda>d.
     kthen (modbuf dbuf (\<lambda>x. x\<lparr>b_data := d\<rparr>)) (
     kthen (bwrite dbuf) (
     kthen (kwhen (\<not> recovering) (bunpin dbuf)) (
     kthen (brelse lbuf)
     (brelse dbuf)))))))))))"

definition install_trans :: "bool \<Rightarrow> unit op" where
  "install_trans recovering = kbind logn (\<lambda>n. kfor [0..<nat n] (install_one recovering))"

definition read_head :: "unit op" where
  "read_head =
     kbind (getlog log_dev) (\<lambda>dev.
     kbind (getlog log_start) (\<lambda>st.
     kbind (bread dev st) (\<lambda>b.
     kbind (getbuf b b_data) (\<lambda>d.
     kthen (modlog (\<lambda>l. l\<lparr>log_lh := (log_lh l)\<lparr>lh_n := sint (get32 d 0)\<rparr>\<rparr>)) (
     kbind logn (\<lambda>n.
     kthen (kfor [0..<nat n] (\<lambda>i.
       if LOGSIZE \<le> i then kexc (Fault ''log.lh.block'') else
       modlog (\<lambda>l. l\<lparr>log_lh := (log_lh l)\<lparr>lh_block := (lh_block (log_lh l))(i := get32 d (4 + 4 * i))\<rparr>\<rparr>)))
     (brelse b)))))))"

definition write_head :: "unit op" where
  "write_head =
     kbind (getlog log_dev) (\<lambda>dev.
     kbind (getlog log_start) (\<lambda>st.
     kbind (bread dev st) (\<lambda>b.
     kbind logn (\<lambda>n.
     kthen (modbuf b (\<lambda>x. x\<lparr>b_data := put32 (b_data x) 0 (of_int n)\<rparr>)) (
     kthen (kfor [0..<nat n] (\<lambda>i.
       kbind (getlog (\<lambda>l. lh_block (log_lh l) i)) (\<lambda>bn.
       modbuf b (\<lambda>x. x\<lparr>b_data := put32 (b_data x) (4 + 4 * i) bn\<rparr>)))) (
     kthen (bwrite b)
     (brelse b)))))))"

definition recover_from_log :: "unit op" where
  "recover_from_log =
     kthen read_head (
     kthen (install_trans True) (
     kthen (modlog (\<lambda>l. l\<lparr>log_lh := (log_lh l)\<lparr>lh_n := 0\<rparr>\<rparr>))
     write_head))"

definition initlog :: "u32 \<Rightarrow> superblock \<Rightarrow> unit op" where
  "initlog dev sb' =
     kthen (initlock L_log ''log'') (
     kthen (modlog (\<lambda>l. l\<lparr>log_start := sb_logstart sb', log_size := sint (sb_nlog sb'), log_dev := dev\<rparr>))
     recover_from_log)"

text \<open>One round of the loop of \<open>begin_op\<close>; after a sleep the round starts again.\<close>

definition begin_op_loop :: "unit op" where
  "begin_op_loop =
     kbind (kget logs) (\<lambda>l.
     if log_committing l then sleep Chan_log L_log
     else if lh_n (log_lh l) + (log_outstanding l + 1) * int MAXOPBLOCKS > int LOGSIZE then sleep Chan_log L_log
     else
       kthen (modlog (\<lambda>l. l\<lparr>log_outstanding := log_outstanding l + 1\<rparr>))
       (release L_log))"

definition begin_op :: "unit op" where
  "begin_op = kthen (acquire L_log) begin_op_loop"

definition write_log_one :: "nat \<Rightarrow> unit op" where
  "write_log_one tail =
     kbind (getlog log_dev) (\<lambda>dev.
     kbind (getlog (log_blockno tail)) (\<lambda>lno.
     kbind (bread dev lno) (\<lambda>to.
     kbind (getlog log_dev) (\<lambda>dev.
     kbind (getlog (\<lambda>l. lh_block (log_lh l) tail)) (\<lambda>dno.
     kbind (bread dev dno) (\<lambda>from.
     kbind (getbuf from b_data) (\<lambda>d.
     kthen (modbuf to (\<lambda>x. x\<lparr>b_data := d\<rparr>)) (
     kthen (bwrite to) (
     kthen (brelse from)
     (brelse to))))))))))"

definition write_log :: "unit op" where
  "write_log = kbind logn (\<lambda>n. kfor [0..<nat n] write_log_one)"

definition commit :: "unit op" where
  "commit =
     kbind logn (\<lambda>n.
     kwhen (n > 0) (
       kthen write_log (
       kthen write_head (
       kthen (install_trans False) (
       kthen (modlog (\<lambda>l. l\<lparr>log_lh := (log_lh l)\<lparr>lh_n := 0\<rparr>\<rparr>))
       write_head)))))"

definition end_op :: "unit op" where
  "end_op =
     kthen (acquire L_log) (
     kthen (modlog (\<lambda>l. l\<lparr>log_outstanding := log_outstanding l - 1\<rparr>)) (
     kbind (getlog log_committing) (\<lambda>c.
     if c then kpanic ''log.committing'' else
     kbind (getlog (\<lambda>l. log_outstanding l = 0)) (\<lambda>do_commit.
     kthen (if do_commit then modlog (\<lambda>l. l\<lparr>log_committing := True\<rparr>) else wakeup Chan_log) (
     kthen (release L_log)
     (kwhen do_commit (
       kthen commit (
       kthen (acquire L_log) (
       kthen (modlog (\<lambda>l. l\<lparr>log_committing := False\<rparr>)) (
       kthen (wakeup Chan_log)
       (release L_log)))))))))))"

text \<open>The search loop of \<open>log_write\<close>: the index of the block in the log, or the length of the log.\<close>

primrec log_index :: "nat \<Rightarrow> (nat \<Rightarrow> u32) \<Rightarrow> u32 \<Rightarrow> nat \<Rightarrow> nat" where
  "log_index 0 blk bn i = i"
| "log_index (Suc n) blk bn i = (if blk i = bn then i else log_index n blk bn (Suc i))"

definition log_write :: "nat \<Rightarrow> unit op" where
  "log_write b =
     kthen (acquire L_log) (
     kbind (kget logs) (\<lambda>l.
     if lh_n (log_lh l) \<ge> int LOGSIZE \<or> lh_n (log_lh l) \<ge> log_size l - 1 then kpanic ''too big a transaction''
     else if log_outstanding l < 1 then kpanic ''log_write outside of trans''
     else
       kbind (getbuf b b_blockno) (\<lambda>bn.
       let i = log_index (nat (lh_n (log_lh l))) (lh_block (log_lh l)) bn 0 in
       kthen (modlog (\<lambda>l. l\<lparr>log_lh := (log_lh l)\<lparr>lh_block := (lh_block (log_lh l))(i := bn)\<rparr>\<rparr>)) (
       kthen (kwhen (int i = lh_n (log_lh l)) (
         kthen (bpin b)
         (modlog (\<lambda>l. l\<lparr>log_lh := (log_lh l)\<lparr>lh_n := lh_n (log_lh l) + 1\<rparr>\<rparr>))))
       (release L_log)))))"

end
