(* ===== verification/Xv6_Fs.thy ===== *)
theory Xv6_Fs
  imports Xv6_Log
begin

text \<open>
  \<^verbatim>\<open>kernel/fs.c\<close> with the on-disk layout of \<^verbatim>\<open>kernel/fs.h\<close>. Blocks are lists of 1024 bytes;
  the structures inside them (superblock, dinode, dirent, the bitmap, indirect blocks) are read
  and written at their C offsets.

  A path or a file name is a list of bytes; reading past its end yields the terminating null.
  \<open>readi\<close> returns, besides the count, the bytes it has copied: that is what a caller with a local
  destination object finds in it. A loop that a corrupt inode could keep going is given as many
  rounds as the inode's size allows and ends with \<open>Spin\<close> beyond them.
\<close>

section \<open>fs.h\<close>

definition ROOTINO :: u32 where "ROOTINO = 1"
definition BSIZE :: nat where "BSIZE = 1024"
definition FSMAGIC :: u32 where "FSMAGIC = 0x10203040"
definition NDIRECT :: nat where "NDIRECT = 12"
definition NINDIRECT :: nat where "NINDIRECT = BSIZE div 4"
definition MAXFILE :: nat where "MAXFILE = NDIRECT + NINDIRECT"
definition IPB :: nat where "IPB = BSIZE div 64"
definition BPB :: nat where "BPB = BSIZE * 8"
definition DIRSIZ :: nat where "DIRSIZ = 14"
definition T_DIR :: int where "T_DIR = 1"
definition T_FILE :: int where "T_FILE = 2"
definition T_DEVICE :: int where "T_DEVICE = 3"

lemmas fs_consts = ROOTINO_def BSIZE_def FSMAGIC_def NDIRECT_def NINDIRECT_def MAXFILE_def IPB_def
  BPB_def DIRSIZ_def T_DIR_def T_FILE_def T_DEVICE_def

definition IBLOCK :: "u32 \<Rightarrow> superblock \<Rightarrow> u32" where
  "IBLOCK i sb' = i div of_nat IPB + sb_inodestart sb'"

definition BBLOCK :: "u32 \<Rightarrow> superblock \<Rightarrow> u32" where
  "BBLOCK b sb' = b div of_nat BPB + sb_bmapstart sb'"

definition decode_sb :: "u8 list \<Rightarrow> superblock" where
  "decode_sb d = \<lparr>sb_magic = get32 d 0, sb_size = get32 d 4, sb_nblocks = get32 d 8, sb_ninodes = get32 d 12,
     sb_nlog = get32 d 16, sb_logstart = get32 d 20, sb_inodestart = get32 d 24, sb_bmapstart = get32 d 28\<rparr>"

text \<open>The dinode in slot \<open>k\<close> of an inode block, read into and written from an in-memory inode.\<close>

definition load_dinode :: "u8 list \<Rightarrow> nat \<Rightarrow> inode \<Rightarrow> inode" where
  "load_dinode d k ip = ip\<lparr>i_type := sint (get16 d (64 * k)), i_major := sint (get16 d (64 * k + 2)),
     i_minor := sint (get16 d (64 * k + 4)), i_nlink := sint (get16 d (64 * k + 6)), i_size := get32 d (64 * k + 8),
     i_addrs := (\<lambda>j. if j \<le> NDIRECT then get32 d (64 * k + 12 + 4 * j) else i_addrs ip j)\<rparr>"

definition store_dinode :: "u8 list \<Rightarrow> nat \<Rightarrow> inode \<Rightarrow> u8 list" where
  "store_dinode d k ip = overlay d (64 * k)
     (le_bytes 2 (of_int (i_type ip) :: u16) @ le_bytes 2 (of_int (i_major ip) :: u16)
      @ le_bytes 2 (of_int (i_minor ip) :: u16) @ le_bytes 2 (of_int (i_nlink ip) :: u16)
      @ le_bytes 4 (i_size ip) @ concat (map (\<lambda>j. le_bytes 4 (i_addrs ip j)) [0..<NDIRECT + 1]))"

section \<open>Superblock and blocks\<close>

abbreviation modinode :: "nat \<Rightarrow> (inode \<Rightarrow> inode) \<Rightarrow> unit op" where
  "modinode ip f \<equiv> kmod (\<lambda>s. s\<lparr>inodes := (inodes s)(ip := f (inodes s ip))\<rparr>)"

abbreviation getinode :: "nat \<Rightarrow> (inode \<Rightarrow> 'a) \<Rightarrow> 'a op" where
  "getinode ip f \<equiv> kget (\<lambda>s. f (inodes s ip))"

abbreviation moddata :: "nat \<Rightarrow> (u8 list \<Rightarrow> u8 list) \<Rightarrow> unit op" where
  "moddata b f \<equiv> modbuf b (\<lambda>x. x\<lparr>b_data := f (b_data x)\<rparr>)"

definition readsb :: "u32 \<Rightarrow> unit op" where
  "readsb dev =
     kbind (bread dev 1) (\<lambda>bp.
     kbind (getbuf bp b_data) (\<lambda>d.
     kthen (kmod (\<lambda>s. s\<lparr>sb := decode_sb d\<rparr>))
     (brelse bp)))"

definition fsinit :: "u32 \<Rightarrow> unit op" where
  "fsinit dev =
     kthen (readsb dev) (
     kbind (kget sb) (\<lambda>sb'.
     if sb_magic sb' \<noteq> FSMAGIC then kpanic ''invalid file system'' else
     initlog dev sb'))"

definition bzero :: "u32 \<Rightarrow> u32 \<Rightarrow> unit op" where
  "bzero dev bno =
     kbind (bread dev bno) (\<lambda>bp.
     kthen (moddata bp (\<lambda>_. replicate BSIZE 0)) (
     kthen (log_write bp)
     (brelse bp)))"

text \<open>The inner loop of \<open>balloc\<close>: the first bit from \<open>bi\<close> on that is clear.\<close>

definition bit_used :: "u8 list \<Rightarrow> nat \<Rightarrow> bool" where
  "bit_used d bi \<longleftrightarrow> bit (d ! (bi div 8)) (bi mod 8)"

primrec find_clear :: "nat \<Rightarrow> u8 list \<Rightarrow> nat \<Rightarrow> nat \<Rightarrow> nat \<Rightarrow> nat option" where
  "find_clear 0 d b lim bi = None"
| "find_clear (Suc n) d b lim bi =
     (if \<not> (bi < BPB \<and> b + bi < lim) then None
      else if \<not> bit_used d bi then Some bi
      else find_clear n d b lim (Suc bi))"

definition set_bit_used :: "u8 list \<Rightarrow> nat \<Rightarrow> u8 list" where
  "set_bit_used d bi = d[bi div 8 := d ! (bi div 8) OR push_bit (bi mod 8) 1]"

definition clear_bit_used :: "u8 list \<Rightarrow> nat \<Rightarrow> u8 list" where
  "clear_bit_used d bi = d[bi div 8 := d ! (bi div 8) AND NOT (push_bit (bi mod 8) 1)]"

primrec balloc_loop :: "nat \<Rightarrow> u32 \<Rightarrow> nat \<Rightarrow> u32 op" where
  "balloc_loop 0 dev b = kexc Spin"
| "balloc_loop (Suc n) dev b =
     kbind (kget sb) (\<lambda>sb'.
     if \<not> b < unat (sb_size sb') then
       kthen (printf (''balloc: out of blocks'' @ [CHR 0x0A]) []) (kret 0)
     else
       kbind (bread dev (BBLOCK (of_nat b) sb')) (\<lambda>bp.
       kbind (getbuf bp b_data) (\<lambda>d.
       case find_clear (Suc BPB) d b (unat (sb_size sb')) 0 of
         Some bi \<Rightarrow>
           kthen (moddata bp (\<lambda>d. set_bit_used d bi)) (
           kthen (log_write bp) (
           kthen (brelse bp) (
           kthen (bzero dev (of_nat (b + bi)))
           (kret (of_nat (b + bi))))))
       | None \<Rightarrow> kthen (brelse bp) (balloc_loop n dev (b + BPB)))))"

definition balloc :: "u32 \<Rightarrow> u32 op" where
  "balloc dev = kbind (kget sb) (\<lambda>sb'. balloc_loop (unat (sb_size sb') div BPB + 2) dev 0)"

definition bfree :: "u32 \<Rightarrow> u32 \<Rightarrow> unit op" where
  "bfree dev b =
     kbind (kget sb) (\<lambda>sb'.
     kbind (bread dev (BBLOCK b sb')) (\<lambda>bp.
     let bi = unat b mod BPB in
     kbind (getbuf bp b_data) (\<lambda>d.
     if \<not> bit_used d bi then kpanic ''freeing free block'' else
     kthen (moddata bp (\<lambda>d. clear_bit_used d bi)) (
     kthen (log_write bp)
     (brelse bp)))))"

section \<open>Inodes\<close>

definition iinit :: "unit op" where
  "iinit =
     kthen (initlock L_itable ''itable'')
     (kfor [0..<NINODE] (\<lambda>i. initsleeplock (Slk_inode i) ''inode''))"

text \<open>The scan of \<open>iget\<close>: the entry of the inode, or the first entry without references.\<close>

fun iget_scan :: "nat list \<Rightarrow> (nat \<Rightarrow> inode) \<Rightarrow> u32 \<Rightarrow> u32 \<Rightarrow> nat option \<Rightarrow> nat option \<times> nat option" where
  "iget_scan [] t dev inum emp = (None, emp)"
| "iget_scan (ip # ips) t dev inum emp =
     (if i_ref (t ip) > 0 \<and> i_dev (t ip) = dev \<and> i_inum (t ip) = inum then (Some ip, emp)
      else iget_scan ips t dev inum (if emp = None \<and> i_ref (t ip) = 0 then Some ip else emp))"

definition iget :: "u32 \<Rightarrow> u32 \<Rightarrow> nat op" where
  "iget dev inum =
     kthen (acquire L_itable) (
     kbind (kget (\<lambda>s. iget_scan [0..<NINODE] (inodes s) dev inum None)) (\<lambda>r.
     case r of
       (Some ip, _) \<Rightarrow>
         kthen (modinode ip (\<lambda>x. x\<lparr>i_ref := i_ref x + 1\<rparr>)) (
         kthen (release L_itable) (kret ip))
     | (None, None) \<Rightarrow> kpanic ''iget: no inodes''
     | (None, Some ip) \<Rightarrow>
         kthen (modinode ip (\<lambda>x. x\<lparr>i_dev := dev, i_inum := inum, i_ref := 1, i_valid := False\<rparr>)) (
         kthen (release L_itable) (kret ip))))"

primrec ialloc_loop :: "nat list \<Rightarrow> u32 \<Rightarrow> int \<Rightarrow> nat option op" where
  "ialloc_loop [] dev ty = kthen (printf (''ialloc: no inodes'' @ [CHR 0x0A]) []) (kret None)"
| "ialloc_loop (inum # is) dev ty =
     kbind (kget sb) (\<lambda>sb'.
     kbind (bread dev (IBLOCK (of_nat inum) sb')) (\<lambda>bp.
     kbind (getbuf bp b_data) (\<lambda>d.
     let k = inum mod IPB in
     if get16 d (64 * k) = 0 then
       kthen (moddata bp (\<lambda>d. overlay d (64 * k) (le_bytes 2 (of_int ty :: u16) @ replicate 62 0))) (
       kthen (log_write bp) (
       kthen (brelse bp)
       (kbind (iget dev (of_nat inum)) (\<lambda>ip. kret (Some ip)))))
     else kthen (brelse bp) (ialloc_loop is dev ty))))"

definition ialloc :: "u32 \<Rightarrow> int \<Rightarrow> nat option op" where
  "ialloc dev ty = kbind (kget sb) (\<lambda>sb'. ialloc_loop [1..<unat (sb_ninodes sb')] dev ty)"

definition iupdate :: "nat \<Rightarrow> unit op" where
  "iupdate ip =
     kbind (kget sb) (\<lambda>sb'.
     kbind (getinode ip i_dev) (\<lambda>dev.
     kbind (getinode ip i_inum) (\<lambda>inum.
     kbind (bread dev (IBLOCK inum sb')) (\<lambda>bp.
     kbind (kget (\<lambda>s. inodes s ip)) (\<lambda>x.
     kthen (moddata bp (\<lambda>d. store_dinode d (unat inum mod IPB) x)) (
     kthen (log_write bp)
     (brelse bp)))))))"

definition idup :: "nat option \<Rightarrow> nat op" where
  "idup ip =
     kthen (acquire L_itable) (
     kbind (kderef ip) (\<lambda>ip.
     kthen (modinode ip (\<lambda>x. x\<lparr>i_ref := i_ref x + 1\<rparr>)) (
     kthen (release L_itable) (kret ip))))"

definition ilock :: "nat \<Rightarrow> unit op" where
  "ilock ip =
     kbind (getinode ip i_ref) (\<lambda>r.
     if r < 1 then kpanic ''ilock'' else
     kthen (acquiresleep (Slk_inode ip)) (
     kbind (getinode ip i_valid) (\<lambda>v.
     kwhen (\<not> v) (
       kbind (kget sb) (\<lambda>sb'.
       kbind (getinode ip i_dev) (\<lambda>dev.
       kbind (getinode ip i_inum) (\<lambda>inum.
       kbind (bread dev (IBLOCK inum sb')) (\<lambda>bp.
       kbind (getbuf bp b_data) (\<lambda>d.
       kthen (modinode ip (load_dinode d (unat inum mod IPB))) (
       kthen (brelse bp) (
       kthen (modinode ip (\<lambda>x. x\<lparr>i_valid := True\<rparr>)) (
       kbind (getinode ip i_type) (\<lambda>ty.
       kwhen (ty = 0) (kpanic ''ilock: no type''))))))))))))))"

text \<open>The same two functions on a pointer that may be null.\<close>

definition ilock_ptr :: "nat option \<Rightarrow> unit op" where
  "ilock_ptr p = (case p of None \<Rightarrow> kpanic ''ilock'' | Some ip \<Rightarrow> ilock ip)"

definition iunlock :: "nat \<Rightarrow> unit op" where
  "iunlock ip =
     kbind (holdingsleep (Slk_inode ip)) (\<lambda>h.
     kbind (getinode ip i_ref) (\<lambda>r.
     if \<not> h \<or> r < 1 then kpanic ''iunlock'' else
     releasesleep (Slk_inode ip)))"

definition iunlock_ptr :: "nat option \<Rightarrow> unit op" where
  "iunlock_ptr p = (case p of None \<Rightarrow> kpanic ''iunlock'' | Some ip \<Rightarrow> iunlock ip)"

section \<open>Inode content\<close>

definition bmap :: "nat \<Rightarrow> nat \<Rightarrow> u32 op" where
  "bmap ip bn =
     kbind (getinode ip i_dev) (\<lambda>dev.
     if bn < NDIRECT then
       kbind (getinode ip (\<lambda>x. i_addrs x bn)) (\<lambda>addr.
       if addr \<noteq> 0 then kret addr else
       kbind (balloc dev) (\<lambda>addr.
       if addr = 0 then kret 0 else
       kthen (modinode ip (\<lambda>x. x\<lparr>i_addrs := (i_addrs x)(bn := addr)\<rparr>))
       (kret addr)))
     else
       let bn = bn - NDIRECT in
       if bn < NINDIRECT then
         kbind (getinode ip (\<lambda>x. i_addrs x NDIRECT)) (\<lambda>addr.
         kbind (if addr \<noteq> 0 then kret addr else
           kbind (balloc dev) (\<lambda>addr.
           kthen (kwhen (addr \<noteq> 0) (modinode ip (\<lambda>x. x\<lparr>i_addrs := (i_addrs x)(NDIRECT := addr)\<rparr>)))
           (kret addr))) (\<lambda>addr.
         if addr = 0 then kret 0 else
         kbind (bread dev addr) (\<lambda>bp.
         kbind (getbuf bp (\<lambda>x. get32 (b_data x) (4 * bn))) (\<lambda>addr.
         kbind (if addr \<noteq> 0 then kret addr else
           kbind (balloc dev) (\<lambda>addr.
           kthen (kwhen (addr \<noteq> 0) (
             kthen (moddata bp (\<lambda>d. put32 d (4 * bn) addr))
             (log_write bp)))
           (kret addr))) (\<lambda>addr.
         kthen (brelse bp) (kret addr))))))
       else kpanic ''bmap: out of range'')"

definition itrunc :: "nat \<Rightarrow> unit op" where
  "itrunc ip =
     kthen (kfor [0..<NDIRECT] (\<lambda>i.
       kbind (kget (\<lambda>s. inodes s ip)) (\<lambda>x.
       kwhen (i_addrs x i \<noteq> 0) (
         kthen (bfree (i_dev x) (i_addrs x i))
         (modinode ip (\<lambda>x. x\<lparr>i_addrs := (i_addrs x)(i := 0)\<rparr>)))))) (
     kbind (kget (\<lambda>s. inodes s ip)) (\<lambda>x.
     kthen (kwhen (i_addrs x NDIRECT \<noteq> 0) (
       kbind (bread (i_dev x) (i_addrs x NDIRECT)) (\<lambda>bp.
       kthen (kfor [0..<NINDIRECT] (\<lambda>j.
         kbind (getbuf bp (\<lambda>y. get32 (b_data y) (4 * j))) (\<lambda>a.
         kwhen (a \<noteq> 0) (bfree (i_dev x) a)))) (
       kthen (brelse bp) (
       kthen (bfree (i_dev x) (i_addrs x NDIRECT))
       (modinode ip (\<lambda>x. x\<lparr>i_addrs := (i_addrs x)(NDIRECT := 0)\<rparr>))))))) (
     kthen (modinode ip (\<lambda>x. x\<lparr>i_size := 0\<rparr>))
     (iupdate ip))))"

definition iput :: "nat \<Rightarrow> unit op" where
  "iput ip =
     kthen (acquire L_itable) (
     kbind (getinode ip (\<lambda>x. i_ref x = 1 \<and> i_valid x \<and> i_nlink x = 0)) (\<lambda>lastref.
     kthen (kwhen lastref (
       kthen (acquiresleep (Slk_inode ip)) (
       kthen (release L_itable) (
       kthen (itrunc ip) (
       kthen (modinode ip (\<lambda>x. x\<lparr>i_type := 0\<rparr>)) (
       kthen (iupdate ip) (
       kthen (modinode ip (\<lambda>x. x\<lparr>i_valid := False\<rparr>)) (
       kthen (releasesleep (Slk_inode ip))
       (acquire L_itable))))))))) (
     kthen (modinode ip (\<lambda>x. x\<lparr>i_ref := i_ref x - 1\<rparr>))
     (release L_itable))))"

definition iunlockput :: "nat \<Rightarrow> unit op" where
  "iunlockput ip = kthen (iunlock ip) (iput ip)"

text \<open>The bytes of the \<open>struct stat\<close> that \<open>stati\<close> fills in.\<close>

definition stati :: "inode \<Rightarrow> u8 list" where
  "stati x = le_bytes 4 (i_dev x) @ le_bytes 4 (i_inum x) @ le_bytes 2 (of_int (i_type x) :: u16)
     @ le_bytes 2 (of_int (i_nlink x) :: u16) @ replicate 4 0 @ le_bytes 8 (ucast (i_size x) :: u64)"

text \<open>
  The loops of \<open>readi\<close> and \<open>writei\<close>: \<open>tot\<close> bytes of \<open>n\<close> are done, the file offset is \<open>off\<close>. Every
  round moves at least one byte, so \<open>n\<close> rounds are enough.
\<close>

primrec readi_loop :: "nat \<Rightarrow> nat \<Rightarrow> kdst \<Rightarrow> nat \<Rightarrow> nat \<Rightarrow> nat \<Rightarrow> (int \<times> u8 list) op" where
  "readi_loop 0 ip dst tot off n = kret (int tot, [])"
| "readi_loop (Suc k) ip dst tot off n =
     (if \<not> tot < n then kret (int tot, []) else
      kbind (bmap ip (off div BSIZE)) (\<lambda>addr.
      if addr = 0 then kret (int tot, []) else
      kbind (getinode ip i_dev) (\<lambda>dev.
      kbind (bread dev addr) (\<lambda>bp.
      let m = min (n - tot) (BSIZE - off mod BSIZE) in
      kbind (getbuf bp (\<lambda>x. take m (drop (off mod BSIZE) (b_data x)))) (\<lambda>bs.
      kbind (either_copyout dst bs) (\<lambda>r.
      if r = - 1 then kthen (brelse bp) (kret (- 1, [])) else
      kthen (brelse bp) (
      kbind (readi_loop k ip (kdst_add dst m) (tot + m) (off + m) n) (\<lambda>(r, rest).
      kret (r, bs @ rest)))))))))"

definition readi :: "nat \<Rightarrow> kdst \<Rightarrow> u32 \<Rightarrow> u32 \<Rightarrow> (int \<times> u8 list) op" where
  "readi ip dst off n =
     kbind (getinode ip i_size) (\<lambda>sz.
     if off > sz \<or> off + n < off then kret (0, []) else
     let n = (if off + n > sz then sz - off else n) in
     readi_loop (unat n) ip dst 0 (unat off) (unat n))"

text \<open>The result is the total and the offset at which the loop stopped.\<close>

primrec writei_loop :: "nat \<Rightarrow> nat \<Rightarrow> ksrc \<Rightarrow> nat \<Rightarrow> nat \<Rightarrow> nat \<Rightarrow> (nat \<times> nat) op" where
  "writei_loop 0 ip src tot off n = kret (tot, off)"
| "writei_loop (Suc k) ip src tot off n =
     (if \<not> tot < n then kret (tot, off) else
      kbind (bmap ip (off div BSIZE)) (\<lambda>addr.
      if addr = 0 then kret (tot, off) else
      kbind (getinode ip i_dev) (\<lambda>dev.
      kbind (bread dev addr) (\<lambda>bp.
      let m = min (n - tot) (BSIZE - off mod BSIZE) in
      kbind (either_copyin src tot m) (\<lambda>(r, bs).
      kthen (moddata bp (\<lambda>d. overlay d (off mod BSIZE) bs)) (
      if r = - 1 then kthen (brelse bp) (kret (tot, off)) else
      kthen (log_write bp) (
      kthen (brelse bp)
      (writei_loop k ip src (tot + m) (off + m) n))))))))"

definition writei :: "nat \<Rightarrow> ksrc \<Rightarrow> u32 \<Rightarrow> u32 \<Rightarrow> int op" where
  "writei ip src off n =
     kbind (getinode ip i_size) (\<lambda>sz.
     if off > sz \<or> off + n < off then kret (- 1) else
     if off + n > of_nat (MAXFILE * BSIZE) then kret (- 1) else
     kbind (writei_loop (unat n) ip src 0 (unat off) (unat n)) (\<lambda>(tot, off').
     kthen (kwhen (unat sz < off') (modinode ip (\<lambda>x. x\<lparr>i_size := of_nat off'\<rparr>))) (
     kthen (iupdate ip)
     (kret (int tot)))))"

section \<open>Directories\<close>

definition hd0 :: "u8 list \<Rightarrow> u8" where
  "hd0 bs = (case bs of [] \<Rightarrow> 0 | b # _ \<Rightarrow> b)"

primrec strncmp_l :: "nat \<Rightarrow> u8 list \<Rightarrow> u8 list \<Rightarrow> int" where
  "strncmp_l 0 p q = 0"
| "strncmp_l (Suc n) p q =
     (if hd0 p \<noteq> 0 \<and> hd0 p = hd0 q then strncmp_l n (tl p) (tl q)
      else uint (hd0 p) - uint (hd0 q))"

definition namecmp :: "u8 list \<Rightarrow> u8 list \<Rightarrow> int" where
  "namecmp p q = strncmp_l DIRSIZ p q"

text \<open>The result is the inode and the offset stored through \<open>poff\<close>.\<close>

primrec dirlookup_loop :: "nat \<Rightarrow> nat \<Rightarrow> u8 list \<Rightarrow> u32 \<Rightarrow> (nat \<times> u32) option op" where
  "dirlookup_loop 0 dp name off = kexc Spin"
| "dirlookup_loop (Suc k) dp name off =
     kbind (getinode dp i_size) (\<lambda>sz.
     if \<not> off < sz then kret None else
     kbind (readi dp Local_dst off 16) (\<lambda>(r, de).
     if r \<noteq> 16 then kpanic ''dirlookup read'' else
     if get16 de 0 \<noteq> 0 \<and> namecmp name (drop 2 de) = 0 then
       kbind (getinode dp i_dev) (\<lambda>dev.
       kbind (iget dev (ucast (get16 de 0))) (\<lambda>ip.
       kret (Some (ip, off))))
     else dirlookup_loop k dp name (off + 16)))"

definition dirlookup :: "nat \<Rightarrow> u8 list \<Rightarrow> (nat \<times> u32) option op" where
  "dirlookup dp name =
     kbind (kget (\<lambda>s. inodes s dp)) (\<lambda>x.
     if i_type x \<noteq> T_DIR then kpanic ''dirlookup not DIR'' else
     dirlookup_loop (unat (i_size x) div 16 + 2) dp name 0)"

primrec dirlink_loop :: "nat \<Rightarrow> nat \<Rightarrow> u32 \<Rightarrow> u32 op" where
  "dirlink_loop 0 dp off = kexc Spin"
| "dirlink_loop (Suc k) dp off =
     kbind (getinode dp i_size) (\<lambda>sz.
     if \<not> off < sz then kret off else
     kbind (readi dp Local_dst off 16) (\<lambda>(r, de).
     if r \<noteq> 16 then kpanic ''dirlink read'' else
     if get16 de 0 = 0 then kret off else
     dirlink_loop k dp (off + 16)))"

definition dirlink :: "nat \<Rightarrow> u8 list \<Rightarrow> u32 \<Rightarrow> int op" where
  "dirlink dp name inum =
     kbind (dirlookup dp name) (\<lambda>r.
     case r of
       Some (ip, _) \<Rightarrow> kthen (iput ip) (kret (- 1))
     | None \<Rightarrow>
         kbind (getinode dp i_size) (\<lambda>sz.
         kbind (dirlink_loop (unat sz div 16 + 2) dp 0) (\<lambda>off.
         kbind (writei dp (Local_src (le_bytes 2 (ucast inum :: u16) @ strncpy_l name DIRSIZ)) off 16) (\<lambda>w.
         kret (if w \<noteq> 16 then - 1 else 0)))))"

section \<open>Paths\<close>

definition slash :: u8 where "slash = 47"

definition skipelem :: "u8 list \<Rightarrow> u8 list \<Rightarrow> (u8 list \<times> u8 list) option" where
  "skipelem path name =
     (let path = dropWhile (\<lambda>c. c = slash) path in
      if hd0 path = 0 then None
      else
        let s = takeWhile (\<lambda>c. c \<noteq> slash \<and> c \<noteq> 0) path;
            path = dropWhile (\<lambda>c. c \<noteq> slash \<and> c \<noteq> 0) path;
            name = (if length s \<ge> DIRSIZ then overlay name 0 (take DIRSIZ s) else overlay name 0 (s @ [0]))
        in Some (dropWhile (\<lambda>c. c = slash) path, name))"

text \<open>The loop of \<open>namex\<close>; every round consumes a byte of the path.\<close>

primrec namex_loop :: "nat \<Rightarrow> nat \<Rightarrow> u8 list \<Rightarrow> bool \<Rightarrow> u8 list \<Rightarrow> (nat option \<times> u8 list) op" where
  "namex_loop 0 ip path nameiparent name = kexc Spin"
| "namex_loop (Suc k) ip path nameiparent name =
     (case skipelem path name of
        None \<Rightarrow>
          if nameiparent then kthen (iput ip) (kret (None, name)) else kret (Some ip, name)
      | Some (path, name) \<Rightarrow>
          kthen (ilock ip) (
          kbind (getinode ip i_type) (\<lambda>ty.
          if ty \<noteq> T_DIR then kthen (iunlockput ip) (kret (None, name)) else
          if nameiparent \<and> hd0 path = 0 then kthen (iunlock ip) (kret (Some ip, name)) else
          kbind (dirlookup ip name) (\<lambda>nxt.
          case nxt of
            None \<Rightarrow> kthen (iunlockput ip) (kret (None, name))
          | Some (nip, _) \<Rightarrow> kthen (iunlockput ip) (namex_loop k nip path nameiparent name)))))"

definition namex :: "u8 list \<Rightarrow> bool \<Rightarrow> u8 list \<Rightarrow> (nat option \<times> u8 list) op" where
  "namex path nameiparent name =
     kbind (if hd0 path = slash then iget ROOTDEV ROOTINO else
       kbind myproc (\<lambda>mp. kbind (kderef mp) (\<lambda>p. kbind (getp p p_cwd) idup))) (\<lambda>ip.
     namex_loop (Suc (length path)) ip path nameiparent name)"

definition namei :: "u8 list \<Rightarrow> nat option op" where
  "namei path = kbind (namex path False (replicate DIRSIZ 0)) (\<lambda>(ip, _). kret ip)"

definition nameiparent :: "u8 list \<Rightarrow> (nat option \<times> u8 list) op" where
  "nameiparent path = namex path True (replicate DIRSIZ 0)"

end
