(* ===== verification/Xv6_Console.thy ===== *)
theory Xv6_Console
  imports Xv6_Printf
begin

text \<open>
  \<^verbatim>\<open>kernel/uart.c\<close> and \<^verbatim>\<open>kernel/console.c\<close>: the transmit ring, the line-editing input buffer
  and the device functions behind the console's file descriptors.

  A byte leaves the kernel through \<open>conout\<close>. The line status register reports the transmitter
  idle while \<open>uart_room\<close> is positive. The configuration registers that \<open>uartinit\<close> programs are
  bytes of \<open>mem\<close>.
\<close>

section \<open>uart.c\<close>

abbreviation moduart :: "(uartst \<Rightarrow> uartst) \<Rightarrow> unit op" where
  "moduart f \<equiv> kmod (\<lambda>s. s\<lparr>uart := f (uart s)\<rparr>)"

abbreviation getuart :: "(uartst \<Rightarrow> 'a) \<Rightarrow> 'a op" where
  "getuart f \<equiv> kget (\<lambda>s. f (uart s))"

definition UART_TX_BUF_SIZE :: u64 where "UART_TX_BUF_SIZE = 32"

definition WriteReg :: "u64 \<Rightarrow> u8 \<Rightarrow> unit op" where
  "WriteReg reg v = modmem (\<lambda>m. m(UART0 + reg := v))"

definition uartinit :: "unit op" where
  "uartinit =
     kseq [WriteReg 1 0x00, WriteReg 3 0x80, WriteReg 0 0x03, WriteReg 1 0x00, WriteReg 3 0x03,
       WriteReg 2 (1 OR 6), WriteReg 1 (2 OR 1), initlock L_uart ''uart'']"

text \<open>
  Every round of the loop of \<open>uartstart\<close> either returns or uses up one byte of the transmitter's
  room, so \<open>uart_room + 1\<close> rounds are enough.
\<close>

primrec uartstart_loop :: "nat \<Rightarrow> unit op" where
  "uartstart_loop 0 = kexc Spin"
| "uartstart_loop (Suc n) =
     kbind (kget uart) (\<lambda>u.
     if tx_w u = tx_r u then kret () else
     if uart_room u = 0 then kret () else
     let c = tx_buf u ! unat (tx_r u mod UART_TX_BUF_SIZE) in
     kthen (moduart (\<lambda>u. u\<lparr>tx_r := tx_r u + 1\<rparr>)) (
     kthen (wakeup Chan_uart) (
     kthen (kmod (\<lambda>s. s\<lparr>conout := conout s @ [c], uart := (uart s)\<lparr>uart_room := uart_room (uart s) - 1\<rparr>\<rparr>))
     (uartstart_loop n))))"

definition uartstart :: "unit op" where
  "uartstart = kbind (getuart uart_room) (\<lambda>r. uartstart_loop (Suc r))"

text \<open>The part of \<open>uartputc\<close> with the lock held; after a sleep it starts again.\<close>

definition uartputc_loop :: "u8 \<Rightarrow> unit op" where
  "uartputc_loop c =
     kbind (kget uart) (\<lambda>u.
     if tx_w u = tx_r u + UART_TX_BUF_SIZE then sleep Chan_uart L_uart else
     kthen (moduart (\<lambda>u. u\<lparr>tx_buf := (tx_buf u)[unat (tx_w u mod UART_TX_BUF_SIZE) := c]\<rparr>)) (
     kthen (moduart (\<lambda>u. u\<lparr>tx_w := tx_w u + 1\<rparr>)) (
     kthen uartstart
     (release L_uart))))"

definition uartputc :: "u8 \<Rightarrow> unit op" where
  "uartputc c =
     kthen (acquire L_uart) (
     kbind (kget panicked) (\<lambda>pk.
     if pk then kexc Spin else uartputc_loop c))"

definition uartgetc :: "int op" where
  "uartgetc =
     kbind (getuart uart_in) (\<lambda>inp.
     case inp of
       [] \<Rightarrow> kret (- 1)
     | c # rest \<Rightarrow> kthen (moduart (\<lambda>u. u\<lparr>uart_in := rest\<rparr>)) (kret (uint c)))"

section \<open>console.c\<close>

abbreviation modcons :: "(console \<Rightarrow> console) \<Rightarrow> unit op" where
  "modcons f \<equiv> kmod (\<lambda>s. s\<lparr>cons := f (cons s)\<rparr>)"

definition INPUT_BUF_SIZE :: u32 where "INPUT_BUF_SIZE = 128"

definition cbuf_at :: "console \<Rightarrow> u32 \<Rightarrow> u8" where
  "cbuf_at k i = cons_buf k ! unat (i mod INPUT_BUF_SIZE)"

primrec consolewrite_loop :: "nat \<Rightarrow> ksrc \<Rightarrow> nat \<Rightarrow> int op" where
  "consolewrite_loop 0 src i = kret (int i)"
| "consolewrite_loop (Suc k) src i =
     kbind (either_copyin src i 1) (\<lambda>(r, bs).
     if r = - 1 then kret (int i) else
     kthen (uartputc (hd bs)) (consolewrite_loop k src (Suc i)))"

definition consolewrite :: "ksrc \<Rightarrow> int \<Rightarrow> int op" where
  "consolewrite src n = consolewrite_loop (nat n) src 0"

text \<open>
  The loop of \<open>consoleread\<close> with \<open>Suc k\<close> bytes to go out of \<open>target\<close>, and the return at its
  end. Without input the reader sleeps and resumes at the head of the loop.
\<close>

primrec consoleread_loop :: "nat \<Rightarrow> kdst \<Rightarrow> nat \<Rightarrow> int op" where
  "consoleread_loop 0 dst target = kthen (release L_cons) (kret (int target))"
| "consoleread_loop (Suc k) dst target =
     kbind (kget cons) (\<lambda>co.
     if cons_r co = cons_w co then
       kbind myproc (\<lambda>mp.
       kbind (kderef mp) (\<lambda>p.
       kbind (killed p) (\<lambda>kd.
       if kd \<noteq> 0 then kthen (release L_cons) (kret (- 1)) else
       sleep Chan_cons L_cons)))
     else
       let c = cbuf_at co (cons_r co) in
       kthen (modcons (\<lambda>x. x\<lparr>cons_r := cons_r x + 1\<rparr>)) (
       if c = 4 then
         kthen (kwhen (Suc k < target) (modcons (\<lambda>x. x\<lparr>cons_r := cons_r x - 1\<rparr>))) (
         kthen (release L_cons) (kret (int target - int (Suc k))))
       else
         kbind (either_copyout dst [c]) (\<lambda>r.
         if r = - 1 then kthen (release L_cons) (kret (int target - int (Suc k))) else
         if c = 10 then kthen (release L_cons) (kret (int target - int k)) else
         consoleread_loop k (kdst_add dst 1) target)))"

definition consoleread :: "kdst \<Rightarrow> int \<Rightarrow> int op" where
  "consoleread dst n =
     kthen (acquire L_cons) (
     if n \<le> 0 then kthen (release L_cons) (kret 0)
     else consoleread_loop (nat n) dst (nat n))"

primrec kill_line :: "nat \<Rightarrow> unit op" where
  "kill_line 0 = kexc Spin"
| "kill_line (Suc n) =
     kbind (kget cons) (\<lambda>co.
     if cons_e co \<noteq> cons_w co \<and> cbuf_at co (cons_e co - 1) \<noteq> 10 then
       kthen (modcons (\<lambda>x. x\<lparr>cons_e := cons_e x - 1\<rparr>)) (
       kthen (consputc BACKSPACE) (kill_line n))
     else kret ())"

definition consoleintr :: "int \<Rightarrow> unit op" where
  "consoleintr c =
     kthen (acquire L_cons) (
     kthen (
       if c = 16 then procdump
       else if c = 21 then kbind (kget cons) (\<lambda>co. kill_line (Suc (unat (cons_e co - cons_w co))))
       else if c = 8 \<or> c = 127 then
         kbind (kget cons) (\<lambda>co.
         kwhen (cons_e co \<noteq> cons_w co) (
           kthen (modcons (\<lambda>x. x\<lparr>cons_e := cons_e x - 1\<rparr>))
           (consputc BACKSPACE)))
       else
         kbind (kget cons) (\<lambda>co.
         kwhen (c \<noteq> 0 \<and> cons_e co - cons_r co < INPUT_BUF_SIZE) (
           let c = (if c = 13 then 10 else c) in
           kthen (consputc c) (
           kthen (modcons (\<lambda>x. x\<lparr>cons_buf := (cons_buf x)[unat (cons_e x mod INPUT_BUF_SIZE) := of_int c],
                                 cons_e := cons_e x + 1\<rparr>)) (
           kbind (kget cons) (\<lambda>co.
           kwhen (c = 10 \<or> c = 4 \<or> cons_e co - cons_r co = INPUT_BUF_SIZE) (
             kthen (modcons (\<lambda>x. x\<lparr>cons_w := cons_e x\<rparr>))
             (wakeup Chan_cons))))))))
     (release L_cons))"

primrec uartintr_loop :: "nat \<Rightarrow> unit op" where
  "uartintr_loop 0 = kexc Spin"
| "uartintr_loop (Suc n) =
     kbind uartgetc (\<lambda>c.
     if c = - 1 then kret () else
     kthen (consoleintr c) (uartintr_loop n))"

definition uartintr :: "unit op" where
  "uartintr =
     kbind (getuart uart_in) (\<lambda>inp.
     kthen (uartintr_loop (Suc (length inp))) (
     kthen (acquire L_uart) (
     kthen uartstart
     (release L_uart))))"

definition consoleinit :: "unit op" where
  "consoleinit =
     kthen (initlock L_cons ''cons'') (
     kthen uartinit
     (kmod (\<lambda>s. s\<lparr>devsw := (devsw s)(1 := Some Console_ops)\<rparr>)))"

end
