(* ===== verification/Xv6_File.thy ===== *)
theory Xv6_File
  imports Xv6_Fs Xv6_Console
begin

text \<open>
  \<^verbatim>\<open>kernel/file.c\<close> and \<^verbatim>\<open>kernel/pipe.c\<close>: the table of open files and pipes.

  A pipe is reached through the address of its page. \<open>pi_data\<close> is the ring of \<open>PIPESIZE\<close> bytes,
  \<open>pi_nread\<close> and \<open>pi_nwrite\<close> are counters that wrap around at 32 bits.
\<close>

section \<open>The file table\<close>

abbreviation modfile :: "nat \<Rightarrow> (kfile \<Rightarrow> kfile) \<Rightarrow> unit op" where
  "modfile f g \<equiv> kmod (\<lambda>s. s\<lparr>files := (files s)(f := g (files s f))\<rparr>)"

abbreviation getfile :: "nat \<Rightarrow> (kfile \<Rightarrow> 'a) \<Rightarrow> 'a op" where
  "getfile f g \<equiv> kget (\<lambda>s. g (files s f))"

definition fileinit :: "unit op" where
  "fileinit = initlock L_ftable ''ftable''"

primrec filealloc_loop :: "nat list \<Rightarrow> nat option op" where
  "filealloc_loop [] = kthen (release L_ftable) (kret None)"
| "filealloc_loop (f # fs) =
     kbind (getfile f f_ref) (\<lambda>r.
     if r = 0 then
       kthen (modfile f (\<lambda>x. x\<lparr>f_ref := 1\<rparr>)) (
       kthen (release L_ftable) (kret (Some f)))
     else filealloc_loop fs)"

definition filealloc :: "nat option op" where
  "filealloc = kthen (acquire L_ftable) (filealloc_loop [0..<NFILE])"

definition filedup :: "nat \<Rightarrow> nat op" where
  "filedup f =
     kthen (acquire L_ftable) (
     kbind (getfile f f_ref) (\<lambda>r.
     if r < 1 then kpanic ''filedup'' else
     kthen (modfile f (\<lambda>x. x\<lparr>f_ref := f_ref x + 1\<rparr>)) (
     kthen (release L_ftable) (kret f))))"

section \<open>pipe.c\<close>

definition PIPESIZE :: nat where "PIPESIZE = 512"

abbreviation modpipe :: "u64 \<Rightarrow> (pipe \<Rightarrow> pipe) \<Rightarrow> unit op" where
  "modpipe pi f \<equiv> kmod (\<lambda>s. s\<lparr>pipes := (pipes s)(pi := f (pipes s pi))\<rparr>)"

abbreviation getpipe :: "u64 \<Rightarrow> (pipe \<Rightarrow> 'a) \<Rightarrow> 'a op" where
  "getpipe pi f \<equiv> kget (\<lambda>s. f (pipes s pi))"

definition pipeclose :: "u64 \<Rightarrow> bool \<Rightarrow> unit op" where
  "pipeclose pi writable =
     kthen (acquire (L_pipe pi)) (
     kthen (if writable then
         kthen (modpipe pi (\<lambda>x. x\<lparr>pi_writeopen := False\<rparr>)) (wakeup (Chan_pipe_nread pi))
       else
         kthen (modpipe pi (\<lambda>x. x\<lparr>pi_readopen := False\<rparr>)) (wakeup (Chan_pipe_nwrite pi))) (
     kbind (getpipe pi (\<lambda>x. \<not> pi_readopen x \<and> \<not> pi_writeopen x)) (\<lambda>dead.
     if dead then kthen (release (L_pipe pi)) (kfree pi)
     else release (L_pipe pi))))"

definition pipe_put :: "u8 \<Rightarrow> pipe \<Rightarrow> pipe" where
  "pipe_put c x = x\<lparr>pi_data := (pi_data x)[unat (pi_nwrite x) mod PIPESIZE := c], pi_nwrite := pi_nwrite x + 1\<rparr>"

definition pipe_get :: "pipe \<Rightarrow> u8 \<times> pipe" where
  "pipe_get x = (pi_data x ! (unat (pi_nread x) mod PIPESIZE), x\<lparr>pi_nread := pi_nread x + 1\<rparr>)"

definition pipe_full :: "pipe \<Rightarrow> bool" where
  "pipe_full x \<longleftrightarrow> pi_nwrite x = pi_nread x + of_nat PIPESIZE"

definition pipe_empty :: "pipe \<Rightarrow> bool" where
  "pipe_empty x \<longleftrightarrow> pi_nread x = pi_nwrite x"

text \<open>
  The loop of \<open>pipewrite\<close> after \<open>i\<close> bytes; \<open>None\<close> is the early return of -1, which has released
  the lock. A full pipe puts the writer to sleep; it resumes at the head of the loop.
\<close>

primrec pipewrite_loop :: "nat \<Rightarrow> nat \<Rightarrow> u64 \<Rightarrow> u64 \<Rightarrow> nat \<Rightarrow> nat option op" where
  "pipewrite_loop 0 pr pi addr i = kret (Some i)"
| "pipewrite_loop (Suc k) pr pi addr i =
     kbind (getpipe pi pi_readopen) (\<lambda>ro.
     kbind (if \<not> ro then kret True else kbind (killed pr) (\<lambda>kd. kret (kd \<noteq> 0))) (\<lambda>stop.
     if stop then kthen (release (L_pipe pi)) (kret None) else
     kbind (getpipe pi pipe_full) (\<lambda>full.
     if full then kthen (wakeup (Chan_pipe_nread pi)) (sleep (Chan_pipe_nwrite pi) (L_pipe pi)) else
     kbind (getp pr p_pagetable) (\<lambda>pt.
     kbind (copyin pt (addr + of_nat i) 1) (\<lambda>(r, bs).
     if r = - 1 then kret (Some i) else
     kthen (modpipe pi (pipe_put (hd bs)))
     (pipewrite_loop k pr pi addr (Suc i)))))))"

definition pipewrite_rest :: "u64 \<Rightarrow> nat option \<Rightarrow> int op" where
  "pipewrite_rest pi r =
     (case r of
        None \<Rightarrow> kret (- 1)
      | Some i \<Rightarrow>
          kthen (wakeup (Chan_pipe_nread pi)) (
          kthen (release (L_pipe pi)) (kret (int i))))"

definition pipewrite :: "u64 \<Rightarrow> u64 \<Rightarrow> int \<Rightarrow> int op" where
  "pipewrite pi addr n =
     kbind myproc (\<lambda>mp.
     kthen (acquire (L_pipe pi)) (
     kbind (if n \<le> 0 then kret (Some 0) else
       kbind (kderef mp) (\<lambda>pr. pipewrite_loop (nat n) pr pi addr 0)) (pipewrite_rest pi)))"

primrec piperead_loop :: "nat \<Rightarrow> nat \<Rightarrow> u64 \<Rightarrow> u64 \<Rightarrow> nat \<Rightarrow> nat op" where
  "piperead_loop 0 pr pi addr i = kret i"
| "piperead_loop (Suc k) pr pi addr i =
     kbind (getpipe pi pipe_empty) (\<lambda>emp.
     if emp then kret i else
     kbind (getpipe pi (\<lambda>x. fst (pipe_get x))) (\<lambda>ch.
     kthen (modpipe pi (\<lambda>x. snd (pipe_get x))) (
     kbind (getp pr p_pagetable) (\<lambda>pt.
     kbind (copyout pt (addr + of_nat i) [ch]) (\<lambda>r.
     if r = - 1 then kret i else
     piperead_loop k pr pi addr (Suc i))))))"

text \<open>With the pipe locked: one round of the wait loop, then the copy loop.\<close>

definition piperead_locked :: "nat \<Rightarrow> u64 \<Rightarrow> u64 \<Rightarrow> int \<Rightarrow> int op" where
  "piperead_locked pr pi addr n =
     kbind (getpipe pi (\<lambda>x. pipe_empty x \<and> pi_writeopen x)) (\<lambda>wt.
     if wt then
       kbind (killed pr) (\<lambda>kd.
       if kd \<noteq> 0 then kthen (release (L_pipe pi)) (kret (- 1))
       else sleep (Chan_pipe_nread pi) (L_pipe pi))
     else
       kbind (piperead_loop (nat n) pr pi addr 0) (\<lambda>i.
       kthen (wakeup (Chan_pipe_nwrite pi)) (
       kthen (release (L_pipe pi)) (kret (int i)))))"

definition piperead :: "u64 \<Rightarrow> u64 \<Rightarrow> int \<Rightarrow> int op" where
  "piperead pi addr n =
     kbind myproc (\<lambda>mp.
     kthen (acquire (L_pipe pi)) (
     kbind (kderef mp) (\<lambda>pr. piperead_locked pr pi addr n)))"

section \<open>file.c\<close>

definition fileclose :: "nat \<Rightarrow> unit op" where
  "fileclose f =
     kthen (acquire L_ftable) (
     kbind (getfile f f_ref) (\<lambda>r.
     if r < 1 then kpanic ''fileclose'' else
     kthen (modfile f (\<lambda>x. x\<lparr>f_ref := f_ref x - 1\<rparr>)) (
     kbind (kget (\<lambda>s. files s f)) (\<lambda>ff.
     if f_ref ff > 0 then release L_ftable else
     kthen (modfile f (\<lambda>x. x\<lparr>f_ref := 0, f_type := FD_NONE\<rparr>)) (
     kthen (release L_ftable) (
     if f_type ff = FD_PIPE then pipeclose (f_pipe ff) (f_writable ff)
     else kwhen (f_type ff = FD_INODE \<or> f_type ff = FD_DEVICE) (
       kthen begin_op (
       kthen (kbind (kderef (f_ip ff)) iput)
       end_op))))))))"

definition pipealloc_bad :: "u64 \<Rightarrow> nat option \<Rightarrow> nat option \<Rightarrow> (nat \<times> nat) option op" where
  "pipealloc_bad pi f0 f1 =
     kthen (kwhen (pi \<noteq> 0) (kfree pi)) (
     kthen (case f0 of None \<Rightarrow> kret () | Some f \<Rightarrow> fileclose f) (
     kthen (case f1 of None \<Rightarrow> kret () | Some f \<Rightarrow> fileclose f)
     (kret None)))"

definition pipealloc :: "(nat \<times> nat) option op" where
  "pipealloc =
     kbind filealloc (\<lambda>f0.
     case f0 of
       None \<Rightarrow> pipealloc_bad 0 None None
     | Some r \<Rightarrow>
         kbind filealloc (\<lambda>f1.
         case f1 of
           None \<Rightarrow> pipealloc_bad 0 (Some r) None
         | Some w \<Rightarrow>
             kbind kalloc (\<lambda>pi.
             if pi = 0 then pipealloc_bad 0 (Some r) (Some w) else
             kthen (modpipe pi (\<lambda>x. x\<lparr>pi_readopen := True, pi_writeopen := True, pi_nwrite := 0, pi_nread := 0\<rparr>)) (
             kthen (initlock (L_pipe pi) ''pipe'') (
             kthen (modfile r (\<lambda>x. x\<lparr>f_type := FD_PIPE, f_readable := True, f_writable := False, f_pipe := pi\<rparr>)) (
             kthen (modfile w (\<lambda>x. x\<lparr>f_type := FD_PIPE, f_readable := False, f_writable := True, f_pipe := pi\<rparr>))
             (kret (Some (r, w)))))))))"

definition filestat :: "nat \<Rightarrow> u64 \<Rightarrow> int op" where
  "filestat f addr =
     kbind myproc (\<lambda>mp.
     kbind (kget (\<lambda>s. files s f)) (\<lambda>ff.
     if f_type ff = FD_INODE \<or> f_type ff = FD_DEVICE then
       kthen (ilock_ptr (f_ip ff)) (
       kbind (kderef (f_ip ff)) (\<lambda>ip.
       kbind (kget (\<lambda>s. stati (inodes s ip))) (\<lambda>st.
       kthen (iunlock ip) (
       kbind (kderef mp) (\<lambda>p.
       kbind (getp p p_pagetable) (\<lambda>pt.
       kbind (copyout pt addr st) (\<lambda>r.
       kret (if r < 0 then - 1 else 0))))))))
     else kret (- 1)))"

definition fileread :: "nat \<Rightarrow> u64 \<Rightarrow> int \<Rightarrow> int op" where
  "fileread f addr n =
     kbind (kget (\<lambda>s. files s f)) (\<lambda>ff.
     if \<not> f_readable ff then kret (- 1) else
     case f_type ff of
       FD_PIPE \<Rightarrow> piperead (f_pipe ff) addr n
     | FD_DEVICE \<Rightarrow>
         if f_major ff < 0 \<or> f_major ff \<ge> int NDEV then kret (- 1) else
         kbind (kget (\<lambda>s. devsw s (f_major ff))) (\<lambda>d.
         case d of None \<Rightarrow> kret (- 1) | Some Console_ops \<Rightarrow> consoleread (User_dst addr) n)
     | FD_INODE \<Rightarrow>
         kthen (ilock_ptr (f_ip ff)) (
         kbind (kderef (f_ip ff)) (\<lambda>ip.
         kbind (getfile f f_off) (\<lambda>off.
         kbind (readi ip (User_dst addr) off (of_int n)) (\<lambda>(r, _).
         kthen (kwhen (r > 0) (modfile f (\<lambda>x. x\<lparr>f_off := f_off x + of_int r\<rparr>))) (
         kthen (iunlock ip)
         (kret r))))))
     | FD_NONE \<Rightarrow> kpanic ''fileread'')"

text \<open>The loop of \<open>filewrite\<close>; every full round writes at least one byte.\<close>

definition filewrite_max :: nat where
  "filewrite_max = ((MAXOPBLOCKS - 1 - 1 - 2) div 2) * BSIZE"

primrec filewrite_loop :: "nat \<Rightarrow> nat \<Rightarrow> u64 \<Rightarrow> nat \<Rightarrow> nat \<Rightarrow> int op" where
  "filewrite_loop 0 f addr n i = kret (if i = n then int n else - 1)"
| "filewrite_loop (Suc k) f addr n i =
     (if \<not> i < n then kret (if i = n then int n else - 1) else
      let n1 = min (n - i) filewrite_max in
      kthen begin_op (
      kbind (getfile f f_ip) (\<lambda>fip.
      kthen (ilock_ptr fip) (
      kbind (kderef fip) (\<lambda>ip.
      kbind (getfile f f_off) (\<lambda>off.
      kbind (writei ip (User_src (addr + of_nat i)) off (of_nat n1)) (\<lambda>r.
      kthen (kwhen (r > 0) (modfile f (\<lambda>x. x\<lparr>f_off := f_off x + of_int r\<rparr>))) (
      kthen (iunlock ip) (
      kthen end_op (
      if r \<noteq> int n1 then kret (if i = n then int n else - 1)
      else filewrite_loop k f addr n (i + nat r)))))))))))"

definition filewrite :: "nat \<Rightarrow> u64 \<Rightarrow> int \<Rightarrow> int op" where
  "filewrite f addr n =
     kbind (kget (\<lambda>s. files s f)) (\<lambda>ff.
     if \<not> f_writable ff then kret (- 1) else
     case f_type ff of
       FD_PIPE \<Rightarrow> pipewrite (f_pipe ff) addr n
     | FD_DEVICE \<Rightarrow>
         if f_major ff < 0 \<or> f_major ff \<ge> int NDEV then kret (- 1) else
         kbind (kget (\<lambda>s. devsw s (f_major ff))) (\<lambda>d.
         case d of None \<Rightarrow> kret (- 1) | Some Console_ops \<Rightarrow> consolewrite (User_src addr) n)
     | FD_INODE \<Rightarrow>
         if n < 0 then kret (- 1) else filewrite_loop (nat n) f addr (nat n) 0
     | FD_NONE \<Rightarrow> kpanic ''filewrite'')"

end
