(* ===== verification/Xv6_Proc.thy ===== *)
theory Xv6_Proc
  imports Xv6_File
begin

text \<open>
  Processes and PID namespaces: \<^verbatim>\<open>kernel/proc.c\<close> from \<open>procinit\<close> to \<open>wait\<close>, with \<open>ps_list\<close> and
  \<open>ps_info\<close>.

  A process is an index of \<open>procs\<close>, a namespace an index of \<open>namespaces\<close>. \<open>p_pids\<close> holds one
  process id per namespace depth. The two loops that climb the tree of namespaces
  (\<open>compare_ns\<close>, \<open>get_ns_head\<close>) end only if the tree is well formed: they are partial functions,
  and not ending is the outcome \<open>Spin\<close>.

  This theory holds the definitions; \<open>Xv6_Namespace\<close> has the invariants and their proofs.
\<close>

section \<open>Initialisation\<close>

definition procinit :: "unit op" where
  "procinit =
     kthen (initlock L_pid ''nextpid'') (
     kthen (initlock L_wait ''wait_lock'')
     (kfor [0..<NPROC] (\<lambda>p.
       kthen (initlock (L_proc p) ''proc'')
       (modp p (\<lambda>x. x\<lparr>p_state := UNUSED, p_kstack := KSTACK p, p_init_ticks := 0, p_run_time := 0,
          p_context_switches := 0, p_waiting_time := 0, p_last_runnable := 0, p_ns := None,
          p_pids := (\<lambda>i. if i < MAXDEPTH then 0 else p_pids x i)\<rparr>)))))"

definition namespaceinit :: "unit op" where
  "namespaceinit =
     kthen (initlock L_ns ''nextlocks'') (
     kthen (initlock L_wait ''wait_lock'')
     (kfor [0..<NUMNS] (\<lambda>n.
       kthen (initlock (L_namespace n) ''namespace'')
       (modns n (\<lambda>x. x\<lparr>ns_parent := None, ns_head := None, ns_id := 0, ns_depth := 0, ns_used := 0,
          next_ns_pid := 1, num_proc := 0\<rparr>)))))"

section \<open>Allocation\<close>

definition allocpid :: "int op" where
  "allocpid =
     kthen (acquire L_pid) (
     kbind (kget nextpid) (\<lambda>pid.
     kthen (kmod (\<lambda>s. s\<lparr>nextpid := nextpid s + 1\<rparr>)) (
     kthen (release L_pid) (kret pid))))"

definition allocnamespaceid :: "int op" where
  "allocnamespaceid =
     kthen (acquire L_ns) (
     kbind (kget nextnamespace) (\<lambda>n.
     kthen (kmod (\<lambda>s. s\<lparr>nextnamespace := nextnamespace s + 1\<rparr>)) (
     kthen (release L_ns) (kret n))))"

primrec allocnamespace_loop :: "nat list \<Rightarrow> nat option op" where
  "allocnamespace_loop [] = kret None"
| "allocnamespace_loop (n # ns) =
     kthen (acquire (L_namespace n)) (
     kbind (getns n ns_used) (\<lambda>u.
     if u = 0 then
       kbind allocnamespaceid (\<lambda>i.
       kthen (modns n (\<lambda>x. x\<lparr>ns_id := i, ns_head := None, ns_parent := None, ns_used := 1, num_proc := 0,
          ns_depth := 0, next_ns_pid := 1\<rparr>)) (
       kthen (release (L_namespace n)) (kret (Some n))))
     else kthen (release (L_namespace n)) (allocnamespace_loop ns)))"

definition allocnamespace :: "nat option op" where
  "allocnamespace = allocnamespace_loop [0..<NUMNS]"

definition proc_freepagetable :: "u64 \<Rightarrow> u64 \<Rightarrow> unit op" where
  "proc_freepagetable pagetable sz =
     kthen (uvmunmap pagetable TRAMPOLINE 1 False) (
     kthen (uvmunmap pagetable TRAPFRAME 1 False)
     (uvmfree pagetable sz))"

definition freeproc :: "nat \<Rightarrow> unit op" where
  "freeproc p =
     kbind (getp p p_trapframe) (\<lambda>tf.
     kthen (kwhen (tf \<noteq> 0) (kfree tf)) (
     kthen (modp p (\<lambda>x. x\<lparr>p_trapframe := 0\<rparr>)) (
     kbind (getp p (\<lambda>x. (p_pagetable x, p_sz x))) (\<lambda>(pt, sz).
     kthen (kwhen (pt \<noteq> 0) (proc_freepagetable pt sz)) (
     kthen (modp p (\<lambda>x. x\<lparr>p_pagetable := 0, p_sz := 0, p_pid := 0, p_parent := None,
       p_name := (p_name x)[0 := 0], p_chan := None, p_killed := 0, p_xstate := 0, p_state := UNUSED,
       p_init_ticks := 0, p_kernel_time := 0, p_waiting_time := 0, p_last_runnable := 0\<rparr>)) (
     kbind sys_uptime (\<lambda>now.
     kthen (modp p (\<lambda>x. x\<lparr>p_run_time := p_run_time x + (now - p_last_run_start x)\<rparr>)) (
     kbind (getp p p_is_kernel) (\<lambda>ik.
     kthen (kwhen (ik \<noteq> 0) (kbind sys_uptime (\<lambda>now.
       modp p (\<lambda>x. x\<lparr>p_kernel_time := p_kernel_time x + (now - p_last_kernel_time x)\<rparr>))))
     (modp p (\<lambda>x. x\<lparr>p_ns := None, p_pids := (\<lambda>i. if i < MAXDEPTH then 0 else p_pids x i)\<rparr>)))))))))))"

definition proc_pagetable :: "nat \<Rightarrow> u64 op" where
  "proc_pagetable p =
     kbind uvmcreate (\<lambda>pagetable.
     if pagetable = 0 then kret 0 else
     kbind (kget sym_trampoline) (\<lambda>trampoline.
     kbind (mappages pagetable TRAMPOLINE PGSIZE trampoline (PTE_R OR PTE_X)) (\<lambda>r.
     if r < 0 then kthen (uvmfree pagetable 0) (kret 0) else
     kbind (getp p p_trapframe) (\<lambda>tf.
     kbind (mappages pagetable TRAPFRAME PGSIZE tf (PTE_R OR PTE_W)) (\<lambda>r.
     if r < 0 then
       kthen (uvmunmap pagetable TRAMPOLINE 1 False) (
       kthen (uvmfree pagetable 0) (kret 0))
     else kret pagetable)))))"

primrec allocproc_find :: "nat list \<Rightarrow> nat option op" where
  "allocproc_find [] = kret None"
| "allocproc_find (p # ps) =
     kthen (acquire (L_proc p)) (
     kbind (getp p p_state) (\<lambda>st.
     if st = UNUSED then kret (Some p)
     else kthen (release (L_proc p)) (allocproc_find ps)))"

text \<open>
  One round of the loop that hands out process ids, at depth \<open>i\<close> and namespace \<open>cur\<close>, and the
  loop from the namespace of the process up to the root.
\<close>

definition assign_pid :: "nat \<Rightarrow> nat \<Rightarrow> nat \<Rightarrow> unit op" where
  "assign_pid p i n =
     kthen (acquire (L_namespace n)) (
     kbind (getns n next_ns_pid) (\<lambda>k.
     kthen (if MAXDEPTH \<le> i then kexc (Fault ''p->pids'') else modp p (\<lambda>x. x\<lparr>p_pids := (p_pids x)(i := k)\<rparr>)) (
     kthen (modns n (\<lambda>x. x\<lparr>next_ns_pid := next_ns_pid x + 1\<rparr>)) (
     kthen (modns n (\<lambda>x. x\<lparr>num_proc := num_proc x + 1\<rparr>))
     (release (L_namespace n))))))"

primrec assign_pids :: "nat \<Rightarrow> nat \<Rightarrow> nat option \<Rightarrow> unit op" where
  "assign_pids p 0 cur = kbind (kderef cur) (\<lambda>n. assign_pid p 0 n)"
| "assign_pids p (Suc i) cur =
     kbind (kderef cur) (\<lambda>n.
     kthen (assign_pid p (Suc i) n) (
     kbind (getns n ns_parent) (\<lambda>up. assign_pids p i up)))"

definition allocproc :: "nat option \<Rightarrow> nat option op" where
  "allocproc ns =
     kbind (allocproc_find [0..<NPROC]) (\<lambda>found.
     case found of
       None \<Rightarrow> kret None
     | Some p \<Rightarrow>
         kbind allocpid (\<lambda>pid.
         kthen (modp p (\<lambda>x. x\<lparr>p_pid := pid, p_state := USED, p_read_b := 0, p_write_b := 0, p_heap_pages := 0\<rparr>)) (
         kbind sys_uptime (\<lambda>now.
         kthen (modp p (\<lambda>x. x\<lparr>p_last_run_start := now, p_is_kernel := 0, p_kernel_time := 0\<rparr>)) (
         kbind sys_uptime (\<lambda>now.
         kthen (modp p (\<lambda>x. x\<lparr>p_last_kernel_time := now, p_ns := ns\<rparr>)) (
         kbind (kderef ns) (\<lambda>n.
         kbind (getns n ns_depth) (\<lambda>d.
         kthen (assign_pids p d (Some n)) (
         kbind kalloc (\<lambda>tf.
         kthen (modp p (\<lambda>x. x\<lparr>p_trapframe := tf\<rparr>)) (
         if tf = 0 then kthen (freeproc p) (kthen (release (L_proc p)) (kret None)) else
         kbind (proc_pagetable p) (\<lambda>pt.
         kthen (modp p (\<lambda>x. x\<lparr>p_pagetable := pt\<rparr>)) (
         if pt = 0 then kthen (freeproc p) (kthen (release (L_proc p)) (kret None)) else
         kbind (kget sym_forkret) (\<lambda>forkret.
         kthen (modp p (\<lambda>x. x\<lparr>p_context := zero_context\<lparr>ctx_ra := forkret, ctx_sp := p_kstack x + PGSIZE\<rparr>\<rparr>))
         (kret (Some p)))))))))))))))))"

section \<open>The first process\<close>

definition initcode :: "u8 list" where
  "initcode = [
     0x17, 0x05, 0x00, 0x00, 0x13, 0x05, 0x45, 0x02,
     0x97, 0x05, 0x00, 0x00, 0x93, 0x85, 0x35, 0x02,
     0x93, 0x08, 0x70, 0x00, 0x73, 0x00, 0x00, 0x00,
     0x93, 0x08, 0x20, 0x00, 0x73, 0x00, 0x00, 0x00,
     0xef, 0xf0, 0x9f, 0xff, 0x2f, 0x69, 0x6e, 0x69,
     0x74, 0x00, 0x00, 0x24, 0x00, 0x00, 0x00, 0x00,
     0x00, 0x00, 0x00, 0x00]"

text \<open>Offsets of the trapframe's fields.\<close>

definition tf_kernel_satp :: u64 where "tf_kernel_satp = 0"
definition tf_kernel_sp :: u64 where "tf_kernel_sp = 8"
definition tf_kernel_trap :: u64 where "tf_kernel_trap = 16"
definition tf_epc :: u64 where "tf_epc = 24"
definition tf_kernel_hartid :: u64 where "tf_kernel_hartid = 32"
definition tf_sp :: u64 where "tf_sp = 48"
definition tf_a :: "nat \<Rightarrow> u64" where "tf_a n = 112 + 8 * of_nat n"
definition tf_size :: nat where "tf_size = 288"

definition tf_store :: "nat \<Rightarrow> u64 \<Rightarrow> u64 \<Rightarrow> unit op" where
  "tf_store p off v = kbind (getp p p_trapframe) (\<lambda>tf. modmem (\<lambda>m. store64 m (tf + off) v))"

definition tf_load :: "nat \<Rightarrow> u64 \<Rightarrow> u64 op" where
  "tf_load p off = kbind (getp p p_trapframe) (\<lambda>tf. getmem (\<lambda>m. load64 m (tf + off)))"

definition userinit :: "unit op" where
  "userinit =
     kbind allocnamespace (\<lambda>ns.
     kthen (kmod (\<lambda>s. s\<lparr>initnamespace := ns\<rparr>)) (
     kbind (allocproc ns) (\<lambda>mp.
     kthen (kmod (\<lambda>s. s\<lparr>initproc := mp\<rparr>)) (
     kbind (kderef mp) (\<lambda>p.
     kbind (getp p p_pagetable) (\<lambda>pt.
     kthen (uvmfirst pt initcode) (
     kthen (modp p (\<lambda>x. x\<lparr>p_sz := PGSIZE\<rparr>)) (
     kthen (tf_store p tf_epc 0) (
     kthen (tf_store p tf_sp PGSIZE) (
     kthen (modp p (\<lambda>x. x\<lparr>p_name := safestrcpy_l (p_name x) (map of_char ''initcode'' @ [0])\<rparr>)) (
     kbind (namei [slash]) (\<lambda>cwd.
     kthen (modp p (\<lambda>x. x\<lparr>p_cwd := cwd, p_state := RUNNABLE\<rparr>)) (
     kbind sys_uptime (\<lambda>now.
     kthen (modp p (\<lambda>x. x\<lparr>p_init_ticks := now\<rparr>)) (
     kbind sys_uptime (\<lambda>now.
     kthen (modp p (\<lambda>x. x\<lparr>p_last_runnable := now\<rparr>)) (
     kbind (kderef ns) (\<lambda>n.
     kthen (acquire (L_namespace n)) (
     kthen (modns n (\<lambda>x. x\<lparr>ns_head := Some p, num_proc := 1\<rparr>)) (
     kthen (release (L_namespace n)) (
     kthen (modp p (\<lambda>x. x\<lparr>p_ns := Some n\<rparr>))
     (release (L_proc p)))))))))))))))))))))))"

definition growproc :: "int \<Rightarrow> int op" where
  "growproc n =
     kbind myproc (\<lambda>mp.
     kbind (kderef mp) (\<lambda>p.
     kbind (getp p (\<lambda>x. (p_pagetable x, p_sz x))) (\<lambda>(pt, sz).
     if n > 0 then
       kbind (uvmalloc pt sz (sz + of_int n) PTE_W) (\<lambda>sz'.
       if sz' = 0 then kret (- 1) else
       kthen (modp p (\<lambda>x. x\<lparr>p_sz := sz'\<rparr>)) (kret 0))
     else if n < 0 then
       kbind (uvmdealloc pt sz (sz + of_int n)) (\<lambda>sz'.
       kthen (modp p (\<lambda>x. x\<lparr>p_sz := sz'\<rparr>)) (kret 0))
     else kthen (modp p (\<lambda>x. x\<lparr>p_sz := sz\<rparr>)) (kret 0))))"

section \<open>fork and clone\<close>

text \<open>
  The code of \<open>fork\<close> and \<open>clone\<close> after the child has been allocated is the same text in both
  functions; it is translated once.
\<close>

definition dup_files :: "nat \<Rightarrow> nat \<Rightarrow> unit op" where
  "dup_files p np =
     kfor [0..<NOFILE] (\<lambda>i.
       kbind (getp p (\<lambda>x. p_ofile x i)) (\<lambda>f.
       case f of
         None \<Rightarrow> kret ()
       | Some f \<Rightarrow>
           kbind (filedup f) (\<lambda>g.
           modp np (\<lambda>x. x\<lparr>p_ofile := (p_ofile x)(i := Some g)\<rparr>))))"

definition start_child :: "nat \<Rightarrow> unit op" where
  "start_child np =
     kthen (acquire (L_proc np)) (
     kthen (modp np (\<lambda>x. x\<lparr>p_state := RUNNABLE\<rparr>)) (
     kbind sys_uptime (\<lambda>now.
     kthen (modp np (\<lambda>x. x\<lparr>p_last_runnable := now\<rparr>)) (
     kbind sys_uptime (\<lambda>now.
     kthen (modp np (\<lambda>x. x\<lparr>p_init_ticks := now, p_run_time := 0, p_context_switches := 0, p_kernel_time := 0,
       p_waiting_time := 0\<rparr>))
     (release (L_proc np)))))))"

definition copy_process :: "nat \<Rightarrow> nat \<Rightarrow> int op" where
  "copy_process p np =
     kbind (kget (\<lambda>s. (p_pagetable (procs s p), p_pagetable (procs s np), p_sz (procs s p)))) (\<lambda>(opt, npt, sz).
     kbind (uvmcopy opt npt sz) (\<lambda>r.
     if r < 0 then
       kthen (freeproc np) (
       kthen (release (L_proc np)) (kret (- 1)))
     else
       kbind (getp p p_sz) (\<lambda>sz.
       kthen (modp np (\<lambda>x. x\<lparr>p_sz := sz\<rparr>)) (
       kbind (kget (\<lambda>s. (p_trapframe (procs s p), p_trapframe (procs s np)))) (\<lambda>(otf, ntf).
       kthen (modmem (\<lambda>m. store_bytes m ntf (mem_bytes m otf tf_size))) (
       kthen (tf_store np (tf_a 0) 0) (
       kthen (dup_files p np) (
       kbind (getp p p_cwd) (\<lambda>cwd.
       kbind (idup cwd) (\<lambda>cwd'.
       kthen (modp np (\<lambda>x. x\<lparr>p_cwd := Some cwd'\<rparr>)) (
       kbind (getp p p_name) (\<lambda>nm.
       kthen (modp np (\<lambda>x. x\<lparr>p_name := safestrcpy_l (p_name x) nm\<rparr>)) (
       kbind (getp p p_ns) (\<lambda>pns.
       kbind (kderef pns) (\<lambda>n.
       kbind (getns n ns_depth) (\<lambda>d.
       kbind (getp np (\<lambda>x. p_pids x d)) (\<lambda>pid.
       kthen (release (L_proc np)) (
       kthen (acquire L_wait) (
       kthen (modp np (\<lambda>x. x\<lparr>p_parent := Some p\<rparr>)) (
       kthen (release L_wait) (
       kthen (start_child np)
       (kret pid))))))))))))))))))))))"

definition fork :: "int op" where
  "fork =
     kbind myproc (\<lambda>mp.
     kbind (kderef mp) (\<lambda>p.
     kbind (getp p p_ns) (\<lambda>ns.
     kbind (allocproc ns) (\<lambda>np.
     case np of None \<Rightarrow> kret (- 1) | Some np \<Rightarrow> copy_process p np))))"

definition clone :: "int op" where
  "clone =
     kbind myproc (\<lambda>mp.
     kbind allocnamespace (\<lambda>mns.
     case mns of
       None \<Rightarrow> kret (- 1)
     | Some ns \<Rightarrow>
         kbind (kderef mp) (\<lambda>p.
         kbind (getp p p_ns) (\<lambda>pns.
         kthen (modns ns (\<lambda>x. x\<lparr>ns_parent := pns\<rparr>)) (
         kbind (kderef pns) (\<lambda>pn.
         kbind (getns pn ns_depth) (\<lambda>d.
         if d + 1 \<ge> MAXDEPTH then kret (- 1) else
         kthen (modns ns (\<lambda>x. x\<lparr>ns_depth := d + 1\<rparr>)) (
         kbind (allocproc (Some ns)) (\<lambda>np.
         case np of
           None \<Rightarrow> kret (- 1)
         | Some np \<Rightarrow>
             kthen (modns ns (\<lambda>x. x\<lparr>ns_head := Some np\<rparr>))
             (copy_process p np))))))))))"

section \<open>The tree of namespaces\<close>

partial_function (option) compare_ns_from :: "(nat \<Rightarrow> namespace) \<Rightarrow> nat option \<Rightarrow> nat option \<Rightarrow> bool option" where
  "compare_ns_from t ns ns2 =
     (case ns of
        None \<Rightarrow> Some False
      | Some n \<Rightarrow> if ns = ns2 then Some True else compare_ns_from t (ns_parent (t n)) ns2)"

definition compare_ns :: "nat option \<Rightarrow> nat option \<Rightarrow> bool op" where
  "compare_ns ns1 ns2 =
     kbind (kget (\<lambda>s. compare_ns_from (namespaces s) ns1 ns2)) (\<lambda>r.
     case r of None \<Rightarrow> kexc Spin | Some b \<Rightarrow> kret b)"

text \<open>The loop of \<open>get_ns_head\<close>; following a null parent is the inner \<open>None\<close>.\<close>

partial_function (option) get_ns_head_from :: "(nat \<Rightarrow> namespace) \<Rightarrow> nat \<Rightarrow> nat option option option" where
  "get_ns_head_from t n =
     (if 0 < ns_depth (t n) \<and> ns_head (t n) = None then
        (case ns_parent (t n) of None \<Rightarrow> Some None | Some m \<Rightarrow> get_ns_head_from t m)
      else Some (Some (ns_head (t n))))"

definition get_ns_head :: "nat option \<Rightarrow> nat option op" where
  "get_ns_head ns =
     kbind (kderef ns) (\<lambda>n.
     kbind (kget (\<lambda>s. get_ns_head_from (namespaces s) n)) (\<lambda>r.
     case r of
       None \<Rightarrow> kexc Spin
     | Some None \<Rightarrow> kexc (Fault ''null pointer'')
     | Some (Some h) \<Rightarrow> kret h))"

section \<open>exit and wait\<close>

definition reparent_one :: "nat \<Rightarrow> nat \<Rightarrow> unit op" where
  "reparent_one p pp =
     kbind (getp pp p_parent) (\<lambda>par.
     kwhen (par = Some p) (
       kbind (getp pp p_ns) (\<lambda>ns.
       kbind (get_ns_head ns) (\<lambda>new_parent.
       kthen (modp pp (\<lambda>x. x\<lparr>p_parent := new_parent\<rparr>))
       (wakeup_ptr (map_option Chan_proc new_parent))))))"

definition reparent :: "nat \<Rightarrow> unit op" where
  "reparent p = kfor [0..<NPROC] (reparent_one p)"

definition close_files :: "nat \<Rightarrow> unit op" where
  "close_files p =
     kfor [0..<NOFILE] (\<lambda>fd.
       kbind (getp p (\<lambda>x. p_ofile x fd)) (\<lambda>f.
       case f of
         None \<Rightarrow> kret ()
       | Some f \<Rightarrow>
           kthen (fileclose f)
           (modp p (\<lambda>x. x\<lparr>p_ofile := (p_ofile x)(fd := None)\<rparr>))))"

definition exit_finish :: "nat \<Rightarrow> int \<Rightarrow> unit op" where
  "exit_finish p status =
     kthen (acquire L_wait) (
     kthen (reparent p) (
     kbind (getp p p_parent) (\<lambda>par.
     kthen (wakeup_ptr (map_option Chan_proc par)) (
     kthen (acquire (L_proc p)) (
     kthen (modp p (\<lambda>x. x\<lparr>p_xstate := status\<rparr>)) (
     kbind sys_uptime (\<lambda>now.
     kthen (modp p (\<lambda>x. x\<lparr>p_run_time := p_run_time x + (now - p_last_run_start x)\<rparr>)) (
     kbind (getp p p_is_kernel) (\<lambda>ik.
     kthen (kwhen (ik \<noteq> 0) (kbind sys_uptime (\<lambda>now.
       modp p (\<lambda>x. x\<lparr>p_kernel_time := p_kernel_time x + (now - p_last_kernel_time x)\<rparr>)))) (
     kthen (modp p (\<lambda>x. x\<lparr>p_state := ZOMBIE\<rparr>)) (
     kthen (release L_wait) (
     kthen (sched :: unit op)
     (kpanic ''zombie exit'')))))))))))))"

definition exit :: "int \<Rightarrow> unit op" where
  "exit status =
     kbind myproc (\<lambda>mp.
     kbind (kget initproc) (\<lambda>ip.
     if mp = ip then kpanic ''init exiting'' else
     kbind (kderef mp) (\<lambda>p.
     kthen (close_files p) (
     kthen begin_op (
     kbind (getp p p_cwd) (\<lambda>cwd.
     kthen (kbind (kderef cwd) iput) (
     kthen end_op (
     kthen (modp p (\<lambda>x. x\<lparr>p_cwd := None\<rparr>))
     (exit_finish p status)))))))))"

text \<open>
  The scan of \<open>wait\<close>: \<open>Inl\<close> is a value that \<open>wait\<close> returns, with the locks released; \<open>Inr\<close> is
  \<open>havekids\<close> at the end of the table.
\<close>

primrec wait_scan :: "nat list \<Rightarrow> nat \<Rightarrow> u64 \<Rightarrow> bool \<Rightarrow> (int + bool) op" where
  "wait_scan [] p addr havekids = kret (Inr havekids)"
| "wait_scan (pp # pps) p addr havekids =
     kbind (getp pp p_parent) (\<lambda>par.
     if par = Some p then
       kthen (acquire (L_proc pp)) (
       kbind (getp pp p_state) (\<lambda>st.
       if st = ZOMBIE then
         kbind (getp pp p_pid) (\<lambda>pid.
         kbind (if addr \<noteq> 0 then
             kbind (kget (\<lambda>s. (p_pagetable (procs s p), p_xstate (procs s pp)))) (\<lambda>(pt, xs).
             copyout pt addr (le_bytes 4 (of_int xs :: u32)))
           else kret 0) (\<lambda>r.
         if r < 0 then
           kthen (release (L_proc pp)) (
           kthen (release L_wait) (kret (Inl (- 1))))
         else
           kthen (freeproc pp) (
           kthen (release (L_proc pp)) (
           kthen (release L_wait) (kret (Inl pid))))))
       else
         kthen (release (L_proc pp)) (wait_scan pps p addr True)))
     else wait_scan pps p addr havekids)"

text \<open>One round of the loop of \<open>wait\<close>; after a sleep the round starts again.\<close>

definition wait_loop :: "nat \<Rightarrow> u64 \<Rightarrow> int op" where
  "wait_loop p addr =
     kbind (wait_scan [0..<NPROC] p addr False) (\<lambda>r.
     case r of
       Inl pid \<Rightarrow> kret pid
     | Inr havekids \<Rightarrow>
         kbind (if \<not> havekids then kret True else kbind (killed p) (\<lambda>k. kret (k \<noteq> 0))) (\<lambda>stop.
         if stop then kthen (release L_wait) (kret (- 1))
         else sleep (Chan_proc p) L_wait))"

definition wait :: "u64 \<Rightarrow> int op" where
  "wait addr =
     kbind myproc (\<lambda>mp.
     kthen (acquire L_wait) (
     kbind (kderef mp) (\<lambda>p. wait_loop p addr)))"

section \<open>ps_list and ps_info\<close>

definition myns :: "nat option op" where
  "myns = kbind myproc (\<lambda>mp. kbind (kderef mp) (\<lambda>p. getp p p_ns))"

definition ps_visible :: "nat \<Rightarrow> bool op" where
  "ps_visible p =
     kbind (getp p p_state) (\<lambda>st.
     if st = UNUSED then kret False else
     kbind (getp p p_ns) (\<lambda>ns.
     kbind myns (\<lambda>my.
     compare_ns ns my)))"

primrec ps_count :: "nat list \<Rightarrow> nat \<Rightarrow> nat op" where
  "ps_count [] n = kret n"
| "ps_count (p # ps) n = kbind (ps_visible p) (\<lambda>v. ps_count ps (if v then Suc n else n))"

primrec ps_list_loop :: "nat list \<Rightarrow> int \<Rightarrow> u64 \<Rightarrow> int \<Rightarrow> nat \<Rightarrow> bool op" where
  "ps_list_loop [] limit pids glob index = kret True"
| "ps_list_loop (p # ps) limit pids glob index =
     kbind (ps_visible p) (\<lambda>v.
     if v \<and> int index < limit then
       kthen (acquire (L_proc p)) (
       kbind myns (\<lambda>my.
       kbind (kderef my) (\<lambda>n.
       kbind (getns n ns_depth) (\<lambda>d.
       kbind (getp p (\<lambda>x. if glob = 1 then p_pid x else p_pids x d)) (\<lambda>curr_pid.
       kbind myproc (\<lambda>mp.
       kbind (kderef mp) (\<lambda>me.
       kbind (getp me p_pagetable) (\<lambda>pt.
       kbind (copyout pt (pids + of_nat (index * 4)) (le_bytes 4 (of_int curr_pid :: u32))) (\<lambda>copy_res.
       kthen (release (L_proc p)) (
       if copy_res \<noteq> 0 then kret False
       else ps_list_loop ps limit pids glob (Suc index)))))))))))
     else ps_list_loop ps limit pids glob index)"

definition ps_list :: "int \<Rightarrow> u64 \<Rightarrow> int \<Rightarrow> int op" where
  "ps_list limit pids glob =
     kbind (ps_count [0..<NPROC] 0) (\<lambda>count_ps.
     let limit = (if limit > int count_ps then int count_ps else limit) in
     kbind (ps_list_loop [0..<NPROC] limit pids glob 0) (\<lambda>ok.
     kret (if ok then int count_ps else - 1)))"

primrec ps_find :: "nat list \<Rightarrow> int \<Rightarrow> nat option \<Rightarrow> nat option op" where
  "ps_find [] pid cur = kret cur"
| "ps_find (p # ps) pid cur =
     kthen (acquire (L_proc p)) (
     kbind (getp p p_pid) (\<lambda>q.
     kthen (release (L_proc p))
     (ps_find ps pid (if q = pid then Some p else cur))))"

text \<open>
  Every field is copied out by the same statements: on failure the lock is released and the
  result is -1, otherwise the next field follows at the advanced address.
\<close>

definition ps_put :: "nat \<Rightarrow> u64 \<Rightarrow> u8 list \<Rightarrow> int op \<Rightarrow> int op" where
  "ps_put cp ptr bs rest =
     kbind myproc (\<lambda>mp.
     kbind (kderef mp) (\<lambda>me.
     kbind (getp me p_pagetable) (\<lambda>pt.
     kbind (copyout pt ptr bs) (\<lambda>copy_res.
     if copy_res \<noteq> 0 then kthen (release (L_proc cp)) (kret (- 1))
     else rest))))"

definition ps_parent_pid :: "nat \<Rightarrow> int op" where
  "ps_parent_pid cp =
     kthen (acquire L_wait) (
     kbind (getp cp p_parent) (\<lambda>parent.
     kbind (case parent of
         None \<Rightarrow> kret 0
       | Some pa \<Rightarrow>
           kthen (acquire (L_proc pa)) (
           kbind (getp cp p_ns) (\<lambda>ns.
           kbind (getp pa p_ns) (\<lambda>pns.
           kbind (if ns = pns then
               kbind (kderef ns) (\<lambda>n. kbind (getns n ns_depth) (\<lambda>d. getp pa (\<lambda>x. p_pids x d)))
             else kret 0) (\<lambda>pid.
           kthen (release (L_proc pa)) (kret pid)))))) (\<lambda>pid.
     kthen (release L_wait) (kret pid))))"

definition files_count :: "proc \<Rightarrow> nat" where
  "files_count x = length (filter (\<lambda>i. p_ofile x i \<noteq> None) [0..<NOFILE])"

definition ps_info :: "int \<Rightarrow> u64 \<Rightarrow> int op" where
  "ps_info pid psinfo =
     kbind (ps_find [0..<NPROC] pid None) (\<lambda>curr_proc.
     kbind (kderef curr_proc) (\<lambda>cp.
     kthen (acquire (L_proc cp)) (
     kbind (kget (\<lambda>s. let st = p_state (procs s cp) in
       take 16 (map of_char (state_name st) @ [0] @ state_tail s st))) (\<lambda>str_state.
     ps_put cp psinfo str_state (
     kbind (ps_parent_pid cp) (\<lambda>parent_pid.
     ps_put cp (psinfo + 16) (le_bytes 4 (of_int parent_pid :: u32)) (
     kbind (getp cp p_sz) (\<lambda>sz.
     ps_put cp (psinfo + 20) (le_bytes 4 (ucast sz :: u32)) (
     kbind (getp cp files_count) (\<lambda>fc.
     ps_put cp (psinfo + 24) (le_bytes 4 (of_nat fc :: u32)) (
     kbind (getp cp p_name) (\<lambda>nm.
     ps_put cp (psinfo + 28) nm (
     kbind sys_uptime (\<lambda>now.
     kbind (getp cp p_init_ticks) (\<lambda>t0.
     ps_put cp (psinfo + 44) (le_bytes 4 (now - t0)) (
     kbind (getp cp p_run_time) (\<lambda>v.
     ps_put cp (psinfo + 48) (le_bytes 4 v) (
     kbind (getp cp p_context_switches) (\<lambda>v.
     ps_put cp (psinfo + 52) (le_bytes 4 v) (
     kbind (getp cp (\<lambda>x. p_run_time x - p_kernel_time x)) (\<lambda>v.
     ps_put cp (psinfo + 56) (le_bytes 4 v) (
     kbind (getp cp p_kernel_time) (\<lambda>v.
     ps_put cp (psinfo + 60) (le_bytes 4 v) (
     kbind (getp cp p_waiting_time) (\<lambda>v.
     ps_put cp (psinfo + 64) (le_bytes 4 v) (
     kbind (getp cp p_read_b) (\<lambda>v.
     ps_put cp (psinfo + 68) (le_bytes 4 v) (
     kbind (getp cp p_write_b) (\<lambda>v.
     ps_put cp (psinfo + 72) (le_bytes 4 v) (
     kbind (getp cp p_heap_pages) (\<lambda>v.
     ps_put cp (psinfo + 76) (le_bytes 4 v) (
     kthen (release (L_proc cp)) (kret 0)))))))))))))))))))))))))))))))))"

end
