(* ===== verification/Xv6_Syscall.thy ===== *)
theory Xv6_Syscall
  imports Xv6_Proc
begin

text \<open>
  The system calls: \<^verbatim>\<open>kernel/syscall.c\<close>, \<^verbatim>\<open>kernel/sysproc.c\<close>, \<^verbatim>\<open>kernel/sysfile.c\<close> and
  \<^verbatim>\<open>kernel/exec.c\<close>.

  A local path buffer is the list of bytes that \<open>copyinstr\<close> wrote, without the terminating null.
  The strings of \<open>argv\<close> live in pages of their own, as in the source.
\<close>

section \<open>Arguments (syscall.c)\<close>

abbreviation curproc :: "nat op" where
  "curproc \<equiv> kbind myproc kderef"

definition fetchaddr :: "u64 \<Rightarrow> (int \<times> u64) op" where
  "fetchaddr addr =
     kbind curproc (\<lambda>p.
     kbind (getp p (\<lambda>x. (p_sz x, p_pagetable x))) (\<lambda>(sz, pt).
     if sz \<le> addr \<or> sz < addr + 8 then kret (- 1, 0) else
     kbind (copyin pt addr 8) (\<lambda>(r, bs).
     if r \<noteq> 0 then kret (- 1, 0) else kret (0, le_word bs))))"

text \<open>The result is the length, or -1, and the bytes that have been written to the buffer.\<close>

definition fetchstr :: "u64 \<Rightarrow> nat \<Rightarrow> (int \<times> u8 list) op" where
  "fetchstr addr mx =
     kbind curproc (\<lambda>p.
     kbind (getp p p_pagetable) (\<lambda>pt.
     kbind (copyinstr pt addr mx) (\<lambda>(r, bs).
     kret (if r < 0 then (- 1, bs) else (int (length (cstr bs)), bs)))))"

definition argraw :: "nat \<Rightarrow> u64 op" where
  "argraw n = kbind curproc (\<lambda>p. if n \<le> 5 then tf_load p (tf_a n) else kpanic ''argraw'')"

definition argint :: "nat \<Rightarrow> int op" where
  "argint n = kbind (argraw n) (\<lambda>v. kret (sint (ucast v :: u32)))"

definition argaddr :: "nat \<Rightarrow> u64 op" where
  "argaddr n = argraw n"

definition argstr :: "nat \<Rightarrow> nat \<Rightarrow> (int \<times> u8 list) op" where
  "argstr n mx = kbind (argaddr n) (\<lambda>addr. kbind (fetchstr addr mx) (\<lambda>(r, bs). kret (r, cstr bs)))"

section \<open>sysproc.c\<close>

definition sys_exit :: "u64 op" where
  "sys_exit = kbind (argint 0) (\<lambda>n. kthen (exit n) (kret 0))"

definition sys_getpid :: "u64 op" where
  "sys_getpid =
     kbind curproc (\<lambda>p.
     kbind (getp p p_ns) (\<lambda>ns.
     kbind (kderef ns) (\<lambda>n.
     kbind (getns n ns_depth) (\<lambda>d.
     kbind (getp p (\<lambda>x. p_pids x d)) (\<lambda>pid. kret (of_int pid))))))"

definition sys_getppid :: "u64 op" where
  "sys_getppid =
     kbind curproc (\<lambda>p.
     kbind (getp p p_ns) (\<lambda>ns.
     kbind (getp p p_parent) (\<lambda>mpa.
     kbind (kderef mpa) (\<lambda>pa.
     kbind (getp pa p_ns) (\<lambda>pns.
     if ns = pns then
       kbind (kderef ns) (\<lambda>n.
       kbind (getns n ns_depth) (\<lambda>d.
       kbind (getp pa (\<lambda>x. p_pids x d)) (\<lambda>pid. kret (of_int pid))))
     else kret 0)))))"

definition sys_clone :: "u64 op" where
  "sys_clone = kbind clone (\<lambda>r. kret (of_int r))"

definition sys_fork :: "u64 op" where
  "sys_fork = kbind fork (\<lambda>r. kret (of_int r))"

definition sys_wait :: "u64 op" where
  "sys_wait = kbind (argaddr 0) (\<lambda>a. kbind (wait a) (\<lambda>r. kret (of_int r)))"

definition sys_sbrk :: "u64 op" where
  "sys_sbrk =
     kbind (argint 0) (\<lambda>n.
     kbind curproc (\<lambda>p.
     kbind (getp p p_sz) (\<lambda>addr.
     kbind (growproc n) (\<lambda>r.
     kret (if r < 0 then - 1 else addr)))))"

text \<open>One round of the loop of \<open>sys_sleep\<close>; it is resumed here after a sleep.\<close>

definition sys_sleep_loop :: "int \<Rightarrow> u32 \<Rightarrow> u64 op" where
  "sys_sleep_loop n ticks0 =
     kbind (kget ticks) (\<lambda>t.
     if t - ticks0 < of_int n then
       kbind curproc (\<lambda>p.
       kbind (killed p) (\<lambda>k.
       if k \<noteq> 0 then kthen (release L_ticks) (kret (- 1))
       else sleep Chan_ticks L_ticks))
     else kthen (release L_ticks) (kret 0))"

definition sys_sleep :: "u64 op" where
  "sys_sleep =
     kbind (argint 0) (\<lambda>n.
     kthen (acquire L_ticks) (
     kbind (kget ticks) (\<lambda>ticks0. sys_sleep_loop n ticks0)))"

definition sys_kill :: "u64 op" where
  "sys_kill = kbind (argint 0) (\<lambda>pid. kbind (kill pid) (\<lambda>r. kret (of_int r)))"

section \<open>sysfile.c\<close>

definition argfd :: "nat \<Rightarrow> (nat \<times> nat) option op" where
  "argfd n =
     kbind (argint n) (\<lambda>fd.
     if fd < 0 \<or> fd \<ge> int NOFILE then kret None else
     kbind curproc (\<lambda>p.
     kbind (getp p (\<lambda>x. p_ofile x (nat fd))) (\<lambda>mf.
     case mf of None \<Rightarrow> kret None | Some f \<Rightarrow> kret (Some (nat fd, f)))))"

primrec fdalloc_loop :: "nat list \<Rightarrow> nat \<Rightarrow> nat \<Rightarrow> int op" where
  "fdalloc_loop [] p f = kret (- 1)"
| "fdalloc_loop (fd # fds) p f =
     kbind (getp p (\<lambda>x. p_ofile x fd)) (\<lambda>mf.
     if mf = None then
       kthen (modp p (\<lambda>x. x\<lparr>p_ofile := (p_ofile x)(fd := Some f)\<rparr>)) (kret (int fd))
     else fdalloc_loop fds p f)"

definition fdalloc :: "nat \<Rightarrow> int op" where
  "fdalloc f = kbind curproc (\<lambda>p. fdalloc_loop [0..<NOFILE] p f)"

definition sys_dup :: "u64 op" where
  "sys_dup =
     kbind (argfd 0) (\<lambda>r.
     case r of
       None \<Rightarrow> kret (- 1)
     | Some (_, f) \<Rightarrow>
         kbind (fdalloc f) (\<lambda>fd.
         if fd < 0 then kret (- 1) else
         kbind (filedup f) (\<lambda>_. kret (of_int fd))))"

definition sys_ps_list :: "u64 op" where
  "sys_ps_list =
     kbind (argint 0) (\<lambda>limit.
     kbind (argaddr 1) (\<lambda>pids.
     kbind (ps_list limit pids 0) (\<lambda>r. kret (of_int r))))"

definition sys_ps_list_global :: "u64 op" where
  "sys_ps_list_global =
     kbind (argint 0) (\<lambda>limit.
     kbind (argaddr 1) (\<lambda>pids.
     kbind (ps_list limit pids 1) (\<lambda>r. kret (of_int r))))"

definition sys_ps_info :: "u64 op" where
  "sys_ps_info =
     kbind (argint 0) (\<lambda>pid.
     kbind (argaddr 1) (\<lambda>psinfo.
     kbind (ps_info pid psinfo) (\<lambda>r. kret (of_int r))))"

definition sys_read :: "u64 op" where
  "sys_read =
     kbind (argaddr 1) (\<lambda>a.
     kbind (argint 2) (\<lambda>n.
     kbind (argfd 0) (\<lambda>r.
     case r of
       None \<Rightarrow> kret (- 1)
     | Some (_, f) \<Rightarrow>
         kbind (fileread f a n) (\<lambda>b.
         let bytes = (of_int b :: u64) in
         kbind curproc (\<lambda>ps.
         kthen (acquire (L_proc ps)) (
         kthen (modp ps (\<lambda>x. x\<lparr>p_read_b := p_read_b x + ucast bytes\<rparr>)) (
         kthen (release (L_proc ps)) (kret bytes))))))))"

definition sys_write :: "u64 op" where
  "sys_write =
     kbind (argaddr 1) (\<lambda>a.
     kbind (argint 2) (\<lambda>n.
     kbind (argfd 0) (\<lambda>r.
     case r of
       None \<Rightarrow> kret (- 1)
     | Some (_, f) \<Rightarrow>
         kbind (filewrite f a n) (\<lambda>b.
         let bytes = (of_int b :: u64) in
         kbind curproc (\<lambda>ps.
         kthen (acquire (L_proc ps)) (
         kthen (modp ps (\<lambda>x. x\<lparr>p_write_b := p_write_b x + ucast bytes\<rparr>)) (
         kthen (release (L_proc ps)) (kret bytes))))))))"

definition sys_close :: "u64 op" where
  "sys_close =
     kbind (argfd 0) (\<lambda>r.
     case r of
       None \<Rightarrow> kret (- 1)
     | Some (fd, f) \<Rightarrow>
         kbind curproc (\<lambda>p.
         kthen (modp p (\<lambda>x. x\<lparr>p_ofile := (p_ofile x)(fd := None)\<rparr>)) (
         kthen (fileclose f) (kret 0))))"

definition sys_fstat :: "u64 op" where
  "sys_fstat =
     kbind (argaddr 1) (\<lambda>st.
     kbind (argfd 0) (\<lambda>r.
     case r of
       None \<Rightarrow> kret (- 1)
     | Some (_, f) \<Rightarrow> kbind (filestat f st) (\<lambda>r. kret (of_int r))))"

definition link_bad :: "nat \<Rightarrow> u64 op" where
  "link_bad ip =
     kthen (ilock ip) (
     kthen (modinode ip (\<lambda>x. x\<lparr>i_nlink := i_nlink x - 1\<rparr>)) (
     kthen (iupdate ip) (
     kthen (iunlockput ip) (
     kthen end_op (kret (- 1))))))"

definition sys_link :: "u64 op" where
  "sys_link =
     kbind (argstr 0 MAXPATH) (\<lambda>(r0, old).
     if r0 < 0 then kret (- 1) else
     kbind (argstr 1 MAXPATH) (\<lambda>(r1, new).
     if r1 < 0 then kret (- 1) else
     kthen begin_op (
     kbind (namei old) (\<lambda>mip.
     case mip of
       None \<Rightarrow> kthen end_op (kret (- 1))
     | Some ip \<Rightarrow>
         kthen (ilock ip) (
         kbind (getinode ip i_type) (\<lambda>ty.
         if ty = T_DIR then kthen (iunlockput ip) (kthen end_op (kret (- 1))) else
         kthen (modinode ip (\<lambda>x. x\<lparr>i_nlink := i_nlink x + 1\<rparr>)) (
         kthen (iupdate ip) (
         kthen (iunlock ip) (
         kbind (nameiparent new) (\<lambda>(mdp, name).
         case mdp of
           None \<Rightarrow> link_bad ip
         | Some dp \<Rightarrow>
             kthen (ilock dp) (
             kbind (kget (\<lambda>s. (i_dev (inodes s dp) = i_dev (inodes s ip), i_inum (inodes s ip)))) (\<lambda>(same, inum).
             kbind (if \<not> same then kret (- 1) else dirlink dp name inum) (\<lambda>r.
             if r < 0 then kthen (iunlockput dp) (link_bad ip) else
             kthen (iunlockput dp) (
             kthen (iput ip) (
             kthen end_op (kret 0))))))))))))))))"

primrec isdirempty_loop :: "nat \<Rightarrow> nat \<Rightarrow> u32 \<Rightarrow> bool op" where
  "isdirempty_loop 0 dp off = kexc Spin"
| "isdirempty_loop (Suc k) dp off =
     kbind (getinode dp i_size) (\<lambda>sz.
     if \<not> off < sz then kret True else
     kbind (readi dp Local_dst off 16) (\<lambda>(r, de).
     if r \<noteq> 16 then kpanic ''isdirempty: readi'' else
     if get16 de 0 \<noteq> 0 then kret False else
     isdirempty_loop k dp (off + 16)))"

definition isdirempty :: "nat \<Rightarrow> bool op" where
  "isdirempty dp = kbind (getinode dp i_size) (\<lambda>sz. isdirempty_loop (unat sz div 16 + 2) dp 32)"

definition unlink_bad :: "nat \<Rightarrow> u64 op" where
  "unlink_bad dp = kthen (iunlockput dp) (kthen end_op (kret (- 1)))"

definition sys_unlink :: "u64 op" where
  "sys_unlink =
     kbind (argstr 0 MAXPATH) (\<lambda>(r0, path).
     if r0 < 0 then kret (- 1) else
     kthen begin_op (
     kbind (nameiparent path) (\<lambda>(mdp, name).
     case mdp of
       None \<Rightarrow> kthen end_op (kret (- 1))
     | Some dp \<Rightarrow>
         kthen (ilock dp) (
         if namecmp name (map of_char ''.'') = 0 \<or> namecmp name (map of_char ''..'') = 0 then unlink_bad dp else
         kbind (dirlookup dp name) (\<lambda>r.
         case r of
           None \<Rightarrow> unlink_bad dp
         | Some (ip, off) \<Rightarrow>
             kthen (ilock ip) (
             kbind (kget (\<lambda>s. inodes s ip)) (\<lambda>x.
             if i_nlink x < 1 then kpanic ''unlink: nlink < 1'' else
             kbind (if i_type x = T_DIR then isdirempty ip else kret True) (\<lambda>emp.
             if i_type x = T_DIR \<and> \<not> emp then kthen (iunlockput ip) (unlink_bad dp) else
             kbind (writei dp (Local_src (replicate 16 0)) off 16) (\<lambda>w.
             if w \<noteq> 16 then kpanic ''unlink: writei'' else
             kbind (getinode ip i_type) (\<lambda>ty.
             kthen (kwhen (ty = T_DIR) (
               kthen (modinode dp (\<lambda>x. x\<lparr>i_nlink := i_nlink x - 1\<rparr>))
               (iupdate dp))) (
             kthen (iunlockput dp) (
             kthen (modinode ip (\<lambda>x. x\<lparr>i_nlink := i_nlink x - 1\<rparr>)) (
             kthen (iupdate ip) (
             kthen (iunlockput ip) (
             kthen end_op (kret 0))))))))))))))))"

definition create_fail :: "nat \<Rightarrow> nat \<Rightarrow> nat option op" where
  "create_fail ip dp =
     kthen (modinode ip (\<lambda>x. x\<lparr>i_nlink := 0\<rparr>)) (
     kthen (iupdate ip) (
     kthen (iunlockput ip) (
     kthen (iunlockput dp) (kret None))))"

definition create :: "u8 list \<Rightarrow> int \<Rightarrow> int \<Rightarrow> int \<Rightarrow> nat option op" where
  "create path ty major minor =
     kbind (nameiparent path) (\<lambda>(mdp, name).
     case mdp of
       None \<Rightarrow> kret None
     | Some dp \<Rightarrow>
         kthen (ilock dp) (
         kbind (dirlookup dp name) (\<lambda>r.
         case r of
           Some (ip, _) \<Rightarrow>
             kthen (iunlockput dp) (
             kthen (ilock ip) (
             kbind (getinode ip i_type) (\<lambda>ity.
             if ty = T_FILE \<and> (ity = T_FILE \<or> ity = T_DEVICE) then kret (Some ip) else
             kthen (iunlockput ip) (kret None))))
         | None \<Rightarrow>
             kbind (getinode dp i_dev) (\<lambda>dev.
             kbind (ialloc dev ty) (\<lambda>mip.
             case mip of
               None \<Rightarrow> kthen (iunlockput dp) (kret None)
             | Some ip \<Rightarrow>
                 kthen (ilock ip) (
                 kthen (modinode ip (\<lambda>x. x\<lparr>i_major := major, i_minor := minor, i_nlink := 1\<rparr>)) (
                 kthen (iupdate ip) (
                 kbind (kget (\<lambda>s. (i_inum (inodes s ip), i_inum (inodes s dp)))) (\<lambda>(inum, dinum).
                 kbind (if ty = T_DIR then
                     kbind (dirlink ip (map of_char ''.'') inum) (\<lambda>r.
                     if r < 0 then kret r else dirlink ip (map of_char ''..'') dinum)
                   else kret 0) (\<lambda>r.
                 if r < 0 then create_fail ip dp else
                 kbind (dirlink dp name inum) (\<lambda>r.
                 if r < 0 then create_fail ip dp else
                 kthen (kwhen (ty = T_DIR) (
                   kthen (modinode dp (\<lambda>x. x\<lparr>i_nlink := i_nlink x + 1\<rparr>))
                   (iupdate dp))) (
                 kthen (iunlockput dp) (kret (Some ip))))))))))))))"

definition O_RDONLY :: int where "O_RDONLY = 0x000"
definition O_WRONLY :: int where "O_WRONLY = 0x001"
definition O_RDWR :: int where "O_RDWR = 0x002"
definition O_CREATE :: int where "O_CREATE = 0x200"
definition O_TRUNC :: int where "O_TRUNC = 0x400"

definition open_fail :: "nat \<Rightarrow> u64 op" where
  "open_fail ip = kthen (iunlockput ip) (kthen end_op (kret (- 1)))"

definition open_inode :: "nat \<Rightarrow> int \<Rightarrow> u64 op" where
  "open_inode ip omode =
     kbind (kget (\<lambda>s. inodes s ip)) (\<lambda>x.
     if i_type x = T_DEVICE \<and> (i_major x < 0 \<or> i_major x \<ge> int NDEV) then open_fail ip else
     kbind filealloc (\<lambda>mf.
     case mf of
       None \<Rightarrow> open_fail ip
     | Some f \<Rightarrow>
         kbind (fdalloc f) (\<lambda>fd.
         if fd < 0 then kthen (fileclose f) (open_fail ip) else
         kbind (kget (\<lambda>s. inodes s ip)) (\<lambda>x.
         kthen (if i_type x = T_DEVICE then modfile f (\<lambda>y. y\<lparr>f_type := FD_DEVICE, f_major := i_major x\<rparr>)
                else modfile f (\<lambda>y. y\<lparr>f_type := FD_INODE, f_off := 0\<rparr>)) (
         kthen (modfile f (\<lambda>y. y\<lparr>f_ip := Some ip, f_readable := (omode AND O_WRONLY = 0),
           f_writable := (omode AND O_WRONLY \<noteq> 0 \<or> omode AND O_RDWR \<noteq> 0)\<rparr>)) (
         kthen (kwhen (omode AND O_TRUNC \<noteq> 0 \<and> i_type x = T_FILE) (itrunc ip)) (
         kthen (iunlock ip) (
         kthen end_op (kret (of_int fd))))))))))"

definition sys_open :: "u64 op" where
  "sys_open =
     kbind (argint 1) (\<lambda>omode.
     kbind (argstr 0 MAXPATH) (\<lambda>(n, path).
     if n < 0 then kret (- 1) else
     kthen begin_op (
     if omode AND O_CREATE \<noteq> 0 then
       kbind (create path T_FILE 0 0) (\<lambda>mip.
       case mip of
         None \<Rightarrow> kthen end_op (kret (- 1))
       | Some ip \<Rightarrow> open_inode ip omode)
     else
       kbind (namei path) (\<lambda>mip.
       case mip of
         None \<Rightarrow> kthen end_op (kret (- 1))
       | Some ip \<Rightarrow>
           kthen (ilock ip) (
           kbind (getinode ip i_type) (\<lambda>ty.
           if ty = T_DIR \<and> omode \<noteq> O_RDONLY then open_fail ip
           else open_inode ip omode))))))"

definition sys_mkdir :: "u64 op" where
  "sys_mkdir =
     kthen begin_op (
     kbind (argstr 0 MAXPATH) (\<lambda>(n, path).
     if n < 0 then kthen end_op (kret (- 1)) else
     kbind (create path T_DIR 0 0) (\<lambda>mip.
     case mip of
       None \<Rightarrow> kthen end_op (kret (- 1))
     | Some ip \<Rightarrow> kthen (iunlockput ip) (kthen end_op (kret 0)))))"

text \<open>\<open>major\<close> and \<open>minor\<close> are narrowed to \<open>short\<close> by the call of \<open>create\<close>.\<close>

definition to_short :: "int \<Rightarrow> int" where
  "to_short n = sint (of_int n :: u16)"

definition sys_mknod :: "u64 op" where
  "sys_mknod =
     kthen begin_op (
     kbind (argint 1) (\<lambda>major.
     kbind (argint 2) (\<lambda>minor.
     kbind (argstr 0 MAXPATH) (\<lambda>(n, path).
     if n < 0 then kthen end_op (kret (- 1)) else
     kbind (create path T_DEVICE (to_short major) (to_short minor)) (\<lambda>mip.
     case mip of
       None \<Rightarrow> kthen end_op (kret (- 1))
     | Some ip \<Rightarrow> kthen (iunlockput ip) (kthen end_op (kret 0)))))))"

definition sys_chdir :: "u64 op" where
  "sys_chdir =
     kbind myproc (\<lambda>mp.
     kthen begin_op (
     kbind (argstr 0 MAXPATH) (\<lambda>(n, path).
     if n < 0 then kthen end_op (kret (- 1)) else
     kbind (namei path) (\<lambda>mip.
     case mip of
       None \<Rightarrow> kthen end_op (kret (- 1))
     | Some ip \<Rightarrow>
         kthen (ilock ip) (
         kbind (getinode ip i_type) (\<lambda>ty.
         if ty \<noteq> T_DIR then kthen (iunlockput ip) (kthen end_op (kret (- 1))) else
         kthen (iunlock ip) (
         kbind (kderef mp) (\<lambda>p.
         kbind (getp p p_cwd) (\<lambda>cwd.
         kthen (kbind (kderef cwd) iput) (
         kthen end_op (
         kthen (modp p (\<lambda>x. x\<lparr>p_cwd := Some ip\<rparr>)) (kret 0))))))))))))"

definition sys_pipe :: "u64 op" where
  "sys_pipe =
     kbind curproc (\<lambda>p.
     kbind (argaddr 0) (\<lambda>fdarray.
     kbind pipealloc (\<lambda>r.
     case r of
       None \<Rightarrow> kret (- 1)
     | Some (rfile, wfile) \<Rightarrow>
         kbind (fdalloc rfile) (\<lambda>fd0.
         if fd0 < 0 then kthen (fileclose rfile) (kthen (fileclose wfile) (kret (- 1))) else
         kbind (fdalloc wfile) (\<lambda>fd1.
         if fd1 < 0 then
           kthen (modp p (\<lambda>x. x\<lparr>p_ofile := (p_ofile x)(nat fd0 := None)\<rparr>)) (
           kthen (fileclose rfile) (kthen (fileclose wfile) (kret (- 1))))
         else
           kbind (getp p p_pagetable) (\<lambda>pt.
           kbind (copyout pt fdarray (le_bytes 4 (of_int fd0 :: u32))) (\<lambda>r0.
           kbind (if r0 < 0 then kret r0 else copyout pt (fdarray + 4) (le_bytes 4 (of_int fd1 :: u32))) (\<lambda>r1.
           if r1 < 0 then
             kthen (modp p (\<lambda>x. x\<lparr>p_ofile := (p_ofile x)(nat fd0 := None, nat fd1 := None)\<rparr>)) (
             kthen (fileclose rfile) (kthen (fileclose wfile) (kret (- 1))))
           else kret 0))))))))"

section \<open>exec.c\<close>

definition get64 :: "u8 list \<Rightarrow> nat \<Rightarrow> u64" where
  "get64 bs off = le_word (take 8 (drop off bs))"

definition ELF_MAGIC :: u32 where "ELF_MAGIC = 0x464C457F"

definition flags2perm :: "u32 \<Rightarrow> u64" where
  "flags2perm flags =
     (let perm = (if flags AND 1 \<noteq> 0 then PTE_X else 0) in
      if flags AND 2 \<noteq> 0 then perm OR PTE_W else perm)"

function loadseg_loop :: "u64 \<Rightarrow> u64 \<Rightarrow> nat \<Rightarrow> u32 \<Rightarrow> u32 \<Rightarrow> u32 \<Rightarrow> int op" where
  "loadseg_loop pagetable va ip offset sz i =
     (if \<not> i < sz then kret 0 else
      kbind (walkaddr pagetable (va + ucast i)) (\<lambda>pa.
      if pa = 0 then kpanic ''loadseg: address should exist'' else
      let n = (if sz - i < 4096 then sz - i else 4096) in
      kbind (readi ip (Page_dst pa) (offset + i) n) (\<lambda>(r, _).
      if r \<noteq> int (unat n) then kret (- 1) else
      if i + 4096 \<le> i then kexc Spin else
      loadseg_loop pagetable va ip offset sz (i + 4096))))"
  by auto
termination
  by (relation "measure (\<lambda>(pagetable, va, ip, offset, sz, i). unat sz - unat i)")
    (auto simp: word_less_nat_alt word_le_nat_alt not_le intro!: diff_less_mono2)

definition loadseg :: "u64 \<Rightarrow> u64 \<Rightarrow> nat \<Rightarrow> u32 \<Rightarrow> u32 \<Rightarrow> int op" where
  "loadseg pagetable va ip offset sz = loadseg_loop pagetable va ip offset sz 0"

definition exec_bad :: "u64 \<Rightarrow> u64 \<Rightarrow> nat option \<Rightarrow> int op" where
  "exec_bad pagetable sz ip =
     kthen (kwhen (pagetable \<noteq> 0) (proc_freepagetable pagetable sz)) (
     kthen (case ip of None \<Rightarrow> kret () | Some ip \<Rightarrow> kthen (iunlockput ip) end_op)
     (kret (- 1)))"

text \<open>The loop over the program headers: the size reached and whether it went through.\<close>

primrec exec_load :: "nat \<Rightarrow> u64 \<Rightarrow> nat \<Rightarrow> u32 \<Rightarrow> u64 \<Rightarrow> (bool \<times> u64) op" where
  "exec_load 0 pagetable ip off sz = kret (True, sz)"
| "exec_load (Suc k) pagetable ip off sz =
     kbind (readi ip Local_dst off 56) (\<lambda>(r, ph).
     if r \<noteq> 56 then kret (False, sz) else
     if get32 ph 0 \<noteq> 1 then exec_load k pagetable ip (off + 56) sz else
     let flags = get32 ph 4; poff = get64 ph 8; vaddr = get64 ph 16; filesz = get64 ph 32; memsz = get64 ph 40 in
     if memsz < filesz then kret (False, sz) else
     if vaddr + memsz < vaddr then kret (False, sz) else
     if vaddr mod PGSIZE \<noteq> 0 then kret (False, sz) else
     kbind (uvmalloc pagetable sz (vaddr + memsz) (flags2perm flags)) (\<lambda>sz1.
     if sz1 = 0 then kret (False, sz) else
     kbind (loadseg pagetable vaddr ip (ucast poff) (ucast filesz)) (\<lambda>r.
     if r < 0 then kret (False, sz1) else
     exec_load k pagetable ip (off + 56) sz1)))"

text \<open>
  Pushing the argument strings: the stack pointer and the addresses of the strings, or \<open>None\<close> for
  \<open>goto bad\<close>. \<open>argv\<close> is the list of pages up to the null pointer.
\<close>

primrec exec_push :: "u64 list \<Rightarrow> nat \<Rightarrow> u64 \<Rightarrow> u64 \<Rightarrow> u64 \<Rightarrow> u64 list \<Rightarrow> (u64 \<times> u64 list) option op" where
  "exec_push [] argc pagetable sp stackbase ustack = kret (Some (sp, ustack))"
| "exec_push (a # argv) argc pagetable sp stackbase ustack =
     (if argc \<ge> MAXARG then kret None else
      kbind (kget (\<lambda>s. (strlen (mem s) a, mem s))) (\<lambda>(mlen, m).
      case mlen of
        None \<Rightarrow> kexc Spin
      | Some len \<Rightarrow>
          let sp = sp - (of_nat len + 1); sp = sp - sp mod 16 in
          if sp < stackbase then kret None else
          kbind (copyout pagetable sp (mem_bytes m a (len + 1))) (\<lambda>r.
          if r < 0 then kret None else
          exec_push argv (Suc argc) pagetable sp stackbase (ustack @ [sp]))))"

definition last_elem :: "u8 list \<Rightarrow> u8 list" where
  "last_elem path = rev (takeWhile (\<lambda>c. c \<noteq> slash) (rev path))"

definition exec_stack :: "u8 list \<Rightarrow> u64 list \<Rightarrow> u64 \<Rightarrow> u64 \<Rightarrow> u64 \<Rightarrow> int op" where
  "exec_stack path argv entry pagetable sz =
     kbind curproc (\<lambda>p.
     kbind (getp p p_sz) (\<lambda>oldsz.
     let sz = PGROUNDUP sz in
     kbind (uvmalloc pagetable sz (sz + 2 * PGSIZE) PTE_W) (\<lambda>sz1.
     if sz1 = 0 then exec_bad pagetable sz None else
     let sz = sz1 in
     kthen (uvmclear pagetable (sz - 2 * PGSIZE)) (
     let stackbase = sz - PGSIZE in
     kbind (exec_push argv 0 pagetable sz stackbase []) (\<lambda>r.
     case r of
       None \<Rightarrow> exec_bad pagetable sz None
     | Some (sp, ustack) \<Rightarrow>
         let argc = length ustack; sp = sp - of_nat ((argc + 1) * 8); sp = sp - sp mod 16 in
         if sp < stackbase then exec_bad pagetable sz None else
         kbind (copyout pagetable sp (concat (map (le_bytes 8) (ustack @ [0])))) (\<lambda>r.
         if r < 0 then exec_bad pagetable sz None else
         kthen (tf_store p (tf_a 1) sp) (
         kthen (modp p (\<lambda>x. x\<lparr>p_name := safestrcpy_l (p_name x) (last_elem path @ [0])\<rparr>)) (
         kbind (getp p p_pagetable) (\<lambda>oldpagetable.
         kthen (modp p (\<lambda>x. x\<lparr>p_pagetable := pagetable, p_sz := sz\<rparr>)) (
         kthen (tf_store p tf_epc entry) (
         kthen (tf_store p tf_sp sp) (
         kthen (proc_freepagetable oldpagetable oldsz)
         (kret (int argc))))))))))))))"

definition exec :: "u8 list \<Rightarrow> u64 list \<Rightarrow> int op" where
  "exec path argv =
     kbind myproc (\<lambda>mp.
     kthen begin_op (
     kbind (namei path) (\<lambda>mip.
     case mip of
       None \<Rightarrow> kthen end_op (kret (- 1))
     | Some ip \<Rightarrow>
         kthen (ilock ip) (
         kbind (readi ip Local_dst 0 64) (\<lambda>(r, elf).
         if r \<noteq> 64 then exec_bad 0 0 (Some ip) else
         if get32 elf 0 \<noteq> ELF_MAGIC then exec_bad 0 0 (Some ip) else
         kbind (kderef mp) (\<lambda>p.
         kbind (proc_pagetable p) (\<lambda>pagetable.
         if pagetable = 0 then exec_bad 0 0 (Some ip) else
         kbind (exec_load (unat (get16 elf 56)) pagetable ip (ucast (get64 elf 32)) 0) (\<lambda>(ok, sz).
         if \<not> ok then exec_bad pagetable sz (Some ip) else
         kthen (iunlockput ip) (
         kthen end_op
         (exec_stack path argv (get64 elf 24) pagetable sz))))))))))"

text \<open>
  The loop of \<open>sys_exec\<close>: the pages of the argument strings so far, and whether the terminating
  null has been reached.
\<close>

primrec exec_args :: "nat \<Rightarrow> nat \<Rightarrow> u64 \<Rightarrow> u64 list \<Rightarrow> (bool \<times> u64 list) op" where
  "exec_args 0 i uargv argv = kret (False, argv)"
| "exec_args (Suc k) i uargv argv =
     kbind (fetchaddr (uargv + 8 * of_nat i)) (\<lambda>(r, uarg).
     if r < 0 then kret (False, argv) else
     if uarg = 0 then kret (True, argv) else
     kbind kalloc (\<lambda>page.
     if page = 0 then kret (False, argv) else
     kbind (fetchstr uarg 4096) (\<lambda>(r, bs).
     kthen (modmem (\<lambda>m. store_bytes m page bs)) (
     if r < 0 then kret (False, argv @ [page]) else
     exec_args k (Suc i) uargv (argv @ [page])))))"

definition sys_exec :: "u64 op" where
  "sys_exec =
     kbind (argaddr 1) (\<lambda>uargv.
     kbind (argstr 0 MAXPATH) (\<lambda>(n, path).
     if n < 0 then kret (- 1) else
     kbind (exec_args MAXARG 0 uargv []) (\<lambda>(ok, argv).
     kbind (if ok then exec path argv else kret (- 1)) (\<lambda>ret.
     kthen (kfor argv kfree)
     (kret (of_int ret))))))"

section \<open>The dispatcher (syscall.c)\<close>

definition sys_poweroff :: "u64 op" where
  "sys_poweroff = kthen (printf (''Powering off...'' @ [CHR 0x0A]) []) (
     kthen (modmem (\<lambda>m. store32 m 0x100000 0x5555))
     (kpanic ''poweroff''))"

text \<open>The table \<open>syscalls[]\<close>; a number without an entry has a null pointer there.\<close>

definition syscalls :: "int \<Rightarrow> u64 op option" where
  "syscalls num =
     (if num = 1 then Some sys_fork else if num = 2 then Some sys_exit
      else if num = 3 then Some sys_wait else if num = 4 then Some sys_pipe
      else if num = 5 then Some sys_read else if num = 6 then Some sys_kill
      else if num = 7 then Some sys_exec else if num = 8 then Some sys_fstat
      else if num = 9 then Some sys_chdir else if num = 10 then Some sys_dup
      else if num = 11 then Some sys_getpid else if num = 12 then Some sys_sbrk
      else if num = 13 then Some sys_sleep
      else if num = 14 then Some (kbind sys_uptime (\<lambda>t. kret (ucast t)))
      else if num = 15 then Some sys_open else if num = 16 then Some sys_write
      else if num = 17 then Some sys_mknod else if num = 18 then Some sys_unlink
      else if num = 19 then Some sys_link else if num = 20 then Some sys_mkdir
      else if num = 21 then Some sys_close else if num = 22 then Some sys_poweroff
      else if num = 23 then Some sys_ps_list else if num = 24 then Some sys_ps_info
      else if num = 25 then Some sys_clone else if num = 27 then Some sys_ps_list_global
      else None)"

definition syscall :: "unit op" where
  "syscall =
     kbind curproc (\<lambda>p.
     kbind (tf_load p (tf_a 7)) (\<lambda>a7.
     let num = sint (ucast a7 :: u32) in
     case (if 0 < num \<and> num < 28 then syscalls num else None) of
       Some f \<Rightarrow> kbind f (\<lambda>r. tf_store p (tf_a 0) r)
     | None \<Rightarrow>
         kbind (kget (\<lambda>s. procs s p)) (\<lambda>x.
         kthen (printf (''%d %s: unknown sys call %d'' @ [CHR 0x0A])
           [Fint (p_pid x), Fstr (Some (cstr (p_name x))), Fint num])
         (tf_store p (tf_a 0) (- 1)))))"

declare loadseg_loop.simps [simp del]

end
