(* ===== verification/Xv6_Virtio.thy ===== *)
theory Xv6_Virtio
  imports Xv6_Bio
begin

text \<open>
  \<^verbatim>\<open>kernel/virtio_disk.c\<close> at the level of descriptors and rings: allocation of descriptors,
  the submission of a request, the completion interrupt and what \<open>virtio_disk_rw\<close> does after it.

  \<open>device_step\<close> is the device's side of the interface, as the comments of the driver and the
  virtio specification describe it: it takes the next entry of the available ring, moves the
  block, writes the status byte and appends the entry to the used ring.
\<close>

unbundle bit_operations_syntax

section \<open>The code\<close>

definition NUM :: nat where "NUM = 8"
definition VRING_DESC_F_NEXT :: u16 where "VRING_DESC_F_NEXT = 1"
definition VRING_DESC_F_WRITE :: u16 where "VRING_DESC_F_WRITE = 2"
definition VIRTIO_BLK_T_IN :: u32 where "VIRTIO_BLK_T_IN = 0"
definition VIRTIO_BLK_T_OUT :: u32 where "VIRTIO_BLK_T_OUT = 1"

text \<open>The memory-mapped control registers, by their offset.\<close>

abbreviation getR :: "u64 \<Rightarrow> u32 op" where
  "getR r \<equiv> getmem (\<lambda>m. load32 m (VIRTIO0 + r))"

abbreviation setR :: "u64 \<Rightarrow> u32 \<Rightarrow> unit op" where
  "setR r v \<equiv> modmem (\<lambda>m. store32 m (VIRTIO0 + r) v)"

definition VIRTIO_MMIO_MAGIC_VALUE :: u64 where "VIRTIO_MMIO_MAGIC_VALUE = 0x000"
definition VIRTIO_MMIO_VERSION :: u64 where "VIRTIO_MMIO_VERSION = 0x004"
definition VIRTIO_MMIO_DEVICE_ID :: u64 where "VIRTIO_MMIO_DEVICE_ID = 0x008"
definition VIRTIO_MMIO_VENDOR_ID :: u64 where "VIRTIO_MMIO_VENDOR_ID = 0x00c"
definition VIRTIO_MMIO_DEVICE_FEATURES :: u64 where "VIRTIO_MMIO_DEVICE_FEATURES = 0x010"
definition VIRTIO_MMIO_DRIVER_FEATURES :: u64 where "VIRTIO_MMIO_DRIVER_FEATURES = 0x020"
definition VIRTIO_MMIO_QUEUE_SEL :: u64 where "VIRTIO_MMIO_QUEUE_SEL = 0x030"
definition VIRTIO_MMIO_QUEUE_NUM_MAX :: u64 where "VIRTIO_MMIO_QUEUE_NUM_MAX = 0x034"
definition VIRTIO_MMIO_QUEUE_NUM :: u64 where "VIRTIO_MMIO_QUEUE_NUM = 0x038"
definition VIRTIO_MMIO_QUEUE_READY :: u64 where "VIRTIO_MMIO_QUEUE_READY = 0x044"
definition VIRTIO_MMIO_QUEUE_NOTIFY :: u64 where "VIRTIO_MMIO_QUEUE_NOTIFY = 0x050"
definition VIRTIO_MMIO_INTERRUPT_STATUS :: u64 where "VIRTIO_MMIO_INTERRUPT_STATUS = 0x060"
definition VIRTIO_MMIO_INTERRUPT_ACK :: u64 where "VIRTIO_MMIO_INTERRUPT_ACK = 0x064"
definition VIRTIO_MMIO_STATUS :: u64 where "VIRTIO_MMIO_STATUS = 0x070"
definition VIRTIO_MMIO_QUEUE_DESC_LOW :: u64 where "VIRTIO_MMIO_QUEUE_DESC_LOW = 0x080"
definition VIRTIO_MMIO_QUEUE_DESC_HIGH :: u64 where "VIRTIO_MMIO_QUEUE_DESC_HIGH = 0x084"
definition VIRTIO_MMIO_DRIVER_DESC_LOW :: u64 where "VIRTIO_MMIO_DRIVER_DESC_LOW = 0x090"
definition VIRTIO_MMIO_DRIVER_DESC_HIGH :: u64 where "VIRTIO_MMIO_DRIVER_DESC_HIGH = 0x094"
definition VIRTIO_MMIO_DEVICE_DESC_LOW :: u64 where "VIRTIO_MMIO_DEVICE_DESC_LOW = 0x0a0"
definition VIRTIO_MMIO_DEVICE_DESC_HIGH :: u64 where "VIRTIO_MMIO_DEVICE_DESC_HIGH = 0x0a4"
definition VIRTIO_CONFIG_S_ACKNOWLEDGE :: u32 where "VIRTIO_CONFIG_S_ACKNOWLEDGE = 1"
definition VIRTIO_CONFIG_S_DRIVER :: u32 where "VIRTIO_CONFIG_S_DRIVER = 2"
definition VIRTIO_CONFIG_S_DRIVER_OK :: u32 where "VIRTIO_CONFIG_S_DRIVER_OK = 4"
definition VIRTIO_CONFIG_S_FEATURES_OK :: u32 where "VIRTIO_CONFIG_S_FEATURES_OK = 8"

text \<open>The feature bits the driver does not accept.\<close>

definition refused_features :: "nat list" where
  "refused_features = [5, 7, 11, 12, 27, 29, 28]"

abbreviation modvd :: "(vdisk \<Rightarrow> vdisk) \<Rightarrow> unit op" where
  "modvd f \<equiv> kmod (\<lambda>s. s\<lparr>vd := f (vd s)\<rparr>)"

abbreviation getvd :: "(vdisk \<Rightarrow> 'a) \<Rightarrow> 'a op" where
  "getvd f \<equiv> kget (\<lambda>s. f (vd s))"

primrec alloc_desc_loop :: "nat list \<Rightarrow> int op" where
  "alloc_desc_loop [] = kret (- 1)"
| "alloc_desc_loop (i # is) =
     kbind (getvd (\<lambda>v. vd_free v i)) (\<lambda>fr.
     if fr then kthen (modvd (\<lambda>v. v\<lparr>vd_free := (vd_free v)(i := False)\<rparr>)) (kret (int i))
     else alloc_desc_loop is)"

definition alloc_desc :: "int op" where
  "alloc_desc = alloc_desc_loop [0..<NUM]"

definition free_desc :: "nat \<Rightarrow> unit op" where
  "free_desc i =
     (if i \<ge> NUM then kpanic ''free_desc 1'' else
      kbind (getvd (\<lambda>v. vd_free v i)) (\<lambda>fr.
      if fr then kpanic ''free_desc 2'' else
      kthen (modvd (\<lambda>v. v\<lparr>vd_desc := (vd_desc v)(i := \<lparr>d_addr = D_null, d_len = 0, d_flags = 0, d_next = 0\<rparr>)\<rparr>)) (
      kthen (modvd (\<lambda>v. v\<lparr>vd_free := (vd_free v)(i := True)\<rparr>))
      (wakeup Chan_disk_free))))"

text \<open>Every round frees a descriptor that was in use, so at most \<open>NUM\<close> rounds end without a panic.\<close>

primrec free_desc_chain :: "nat \<Rightarrow> nat \<Rightarrow> unit op" where
  "free_desc_chain 0 i = kexc Spin"
| "free_desc_chain (Suc k) i =
     kbind (getvd (\<lambda>v. (d_flags (vd_desc v i), d_next (vd_desc v i)))) (\<lambda>(flag, nxt).
     kthen (free_desc i)
     (kwhen (flag AND VRING_DESC_F_NEXT \<noteq> 0) (free_desc_chain k (unat nxt))))"

definition alloc3_desc :: "(nat \<times> nat \<times> nat) option op" where
  "alloc3_desc =
     kbind alloc_desc (\<lambda>a.
     if a < 0 then kret None else
     kbind alloc_desc (\<lambda>b.
     if b < 0 then kthen (free_desc (nat a)) (kret None) else
     kbind alloc_desc (\<lambda>c.
     if c < 0 then kthen (free_desc (nat a)) (kthen (free_desc (nat b)) (kret None)) else
     kret (Some (nat a, nat b, nat c)))))"

abbreviation moddesc :: "nat \<Rightarrow> (vdesc \<Rightarrow> vdesc) \<Rightarrow> unit op" where
  "moddesc i f \<equiv> modvd (\<lambda>v. v\<lparr>vd_desc := (vd_desc v)(i := f (vd_desc v i))\<rparr>)"

text \<open>
  \<open>virtio_disk_rw\<close> up to the notification of the device, with the lock held. Without three free
  descriptors the caller sleeps and starts again.
\<close>

definition virtio_submit :: "nat \<Rightarrow> bool \<Rightarrow> nat op" where
  "virtio_submit b wr =
     kbind (getbuf b (\<lambda>x. ucast (b_blockno x * 2))) (\<lambda>sector.
     kthen (acquire L_vdisk) (
     kbind alloc3_desc (\<lambda>r.
     case r of
       None \<Rightarrow> sleep Chan_disk_free L_vdisk
     | Some (i0, i1, i2) \<Rightarrow>
         kthen (modvd (\<lambda>v. v\<lparr>vd_op_type := (vd_op_type v)(i0 := if wr then VIRTIO_BLK_T_OUT else VIRTIO_BLK_T_IN),
           vd_op_sector := (vd_op_sector v)(i0 := sector)\<rparr>)) (
         kthen (moddesc i0 (\<lambda>_. \<lparr>d_addr = D_op i0, d_len = 16, d_flags = VRING_DESC_F_NEXT, d_next = of_nat i1\<rparr>)) (
         kthen (moddesc i1 (\<lambda>_. \<lparr>d_addr = D_data b, d_len = 1024,
           d_flags = (if wr then 0 else VRING_DESC_F_WRITE) OR VRING_DESC_F_NEXT, d_next = of_nat i2\<rparr>)) (
         kthen (modvd (\<lambda>v. v\<lparr>vd_status := (vd_status v)(i0 := 0xff)\<rparr>)) (
         kthen (moddesc i2 (\<lambda>_. \<lparr>d_addr = D_status i0, d_len = 1, d_flags = VRING_DESC_F_WRITE, d_next = 0\<rparr>)) (
         kthen (modbuf b (\<lambda>x. x\<lparr>b_disk := True\<rparr>)) (
         kthen (modvd (\<lambda>v. v\<lparr>vd_info_b := (vd_info_b v)(i0 := Some b)\<rparr>)) (
         kthen (modvd (\<lambda>v. v\<lparr>vd_avail_ring := (vd_avail_ring v)(unat (vd_avail_idx v) mod NUM := i0)\<rparr>)) (
         kthen (modvd (\<lambda>v. v\<lparr>vd_avail_idx := vd_avail_idx v + 1\<rparr>)) (
         kthen (setR VIRTIO_MMIO_QUEUE_NOTIFY 0)
         (kret i0)))))))))))))"

text \<open>The device finishes the next request, if there is one.\<close>

definition device_step :: "kstate \<Rightarrow> kstate" where
  "device_step s =
     (let v = vd s in
      if vd_dev_used_idx v = vd_avail_idx v then s
      else
        let i0 = vd_avail_ring v (unat (vd_dev_used_idx v) mod NUM);
            d0 = vd_desc v i0;
            d1 = vd_desc v (unat (d_next d0));
            d2 = vd_desc v (unat (d_next d1))
        in case (d_addr d0, d_addr d1, d_addr d2) of
             (D_op j, D_data b, D_status k) \<Rightarrow>
               let blk = ucast (vd_op_sector v j div 2) in
               (if vd_op_type v j = VIRTIO_BLK_T_OUT then s\<lparr>disk := (disk s)(blk := b_data (bufs s b))\<rparr>
                else s\<lparr>bufs := (bufs s)(b := (bufs s b)\<lparr>b_data := disk s blk\<rparr>)\<rparr>)
               \<lparr>vd := v\<lparr>vd_status := (vd_status v)(k := 0),
                        vd_used_ring := (vd_used_ring v)(unat (vd_dev_used_idx v) mod NUM := i0),
                        vd_dev_used_idx := vd_dev_used_idx v + 1\<rparr>\<rparr>
           | _ \<Rightarrow> s)"

primrec virtio_intr_loop :: "nat \<Rightarrow> unit op" where
  "virtio_intr_loop 0 = kexc Spin"
| "virtio_intr_loop (Suc n) =
     kbind (kget vd) (\<lambda>v.
     if vd_used_idx v = vd_dev_used_idx v then kret () else
     let i = vd_used_ring v (unat (vd_used_idx v) mod NUM) in
     if vd_status v i \<noteq> 0 then kpanic ''virtio_disk_intr status'' else
     kbind (kderef (vd_info_b v i)) (\<lambda>b.
     kthen (modbuf b (\<lambda>x. x\<lparr>b_disk := False\<rparr>)) (
     kthen (wakeup (Chan_buf b)) (
     kthen (modvd (\<lambda>v. v\<lparr>vd_used_idx := vd_used_idx v + 1\<rparr>))
     (virtio_intr_loop n)))))"

definition virtio_disk_intr :: "unit op" where
  "virtio_disk_intr =
     kthen (acquire L_vdisk) (
     kbind (getR VIRTIO_MMIO_INTERRUPT_STATUS) (\<lambda>st.
     kthen (setR VIRTIO_MMIO_INTERRUPT_ACK (st AND 3)) (
     kbind (getvd (\<lambda>v. unat (vd_dev_used_idx v - vd_used_idx v))) (\<lambda>n.
     kthen (virtio_intr_loop (Suc n))
     (release L_vdisk)))))"

text \<open>\<open>virtio_disk_rw\<close> from the wait on: with the lock held, and after \<open>b->disk\<close> has been cleared.\<close>

definition virtio_finish :: "nat \<Rightarrow> nat \<Rightarrow> unit op" where
  "virtio_finish b i0 =
     kbind (getbuf b b_disk) (\<lambda>busy.
     if busy then sleep (Chan_buf b) L_vdisk else
     kthen (modvd (\<lambda>v. v\<lparr>vd_info_b := (vd_info_b v)(i0 := None)\<rparr>)) (
     kthen (free_desc_chain NUM i0)
     (release L_vdisk)))"

text \<open>
  The handshake with the device and the allocation of the queue. Of the three queue pages only the
  addresses are handed to the device; what the driver keeps in them is \<open>vd\<close>.
\<close>

definition virtio_disk_init :: "unit op" where
  "virtio_disk_init =
     kthen (initlock L_vdisk ''virtio_disk'') (
     kbind (getR VIRTIO_MMIO_MAGIC_VALUE) (\<lambda>magic.
     kbind (getR VIRTIO_MMIO_VERSION) (\<lambda>version.
     kbind (getR VIRTIO_MMIO_DEVICE_ID) (\<lambda>device.
     kbind (getR VIRTIO_MMIO_VENDOR_ID) (\<lambda>vendor.
     if magic \<noteq> 0x74726976 \<or> version \<noteq> 2 \<or> device \<noteq> 2 \<or> vendor \<noteq> 0x554d4551
     then kpanic ''could not find virtio disk'' else
     let status = VIRTIO_CONFIG_S_ACKNOWLEDGE OR VIRTIO_CONFIG_S_DRIVER in
     kthen (setR VIRTIO_MMIO_STATUS 0) (
     kthen (setR VIRTIO_MMIO_STATUS VIRTIO_CONFIG_S_ACKNOWLEDGE) (
     kthen (setR VIRTIO_MMIO_STATUS status) (
     kbind (getR VIRTIO_MMIO_DEVICE_FEATURES) (\<lambda>features.
     kthen (setR VIRTIO_MMIO_DRIVER_FEATURES (fold (\<lambda>b f. f AND NOT (push_bit b 1)) refused_features features)) (
     kthen (setR VIRTIO_MMIO_STATUS (status OR VIRTIO_CONFIG_S_FEATURES_OK)) (
     kbind (getR VIRTIO_MMIO_STATUS) (\<lambda>status.
     if status AND VIRTIO_CONFIG_S_FEATURES_OK = 0 then kpanic ''virtio disk FEATURES_OK unset'' else
     kthen (setR VIRTIO_MMIO_QUEUE_SEL 0) (
     kbind (getR VIRTIO_MMIO_QUEUE_READY) (\<lambda>ready.
     if ready \<noteq> 0 then kpanic ''virtio disk should not be ready'' else
     kbind (getR VIRTIO_MMIO_QUEUE_NUM_MAX) (\<lambda>mx.
     if mx = 0 then kpanic ''virtio disk has no queue 0'' else
     if mx < of_nat NUM then kpanic ''virtio disk max queue too short'' else
     kbind kalloc (\<lambda>desc.
     kbind kalloc (\<lambda>avail.
     kbind kalloc (\<lambda>used.
     if desc = 0 \<or> avail = 0 \<or> used = 0 then kpanic ''virtio disk kalloc'' else
     kthen (modmem (\<lambda>m. memset m desc 0 4096)) (
     kthen (modmem (\<lambda>m. memset m avail 0 4096)) (
     kthen (modmem (\<lambda>m. memset m used 0 4096)) (
     kthen (modvd (\<lambda>v. v\<lparr>vd_desc := vd_desc zero_vdisk, vd_avail_idx := 0, vd_avail_ring := vd_avail_ring zero_vdisk,
       vd_dev_used_idx := 0, vd_used_ring := vd_used_ring zero_vdisk\<rparr>)) (
     kthen (setR VIRTIO_MMIO_QUEUE_NUM (of_nat NUM)) (
     kthen (setR VIRTIO_MMIO_QUEUE_DESC_LOW (ucast desc)) (
     kthen (setR VIRTIO_MMIO_QUEUE_DESC_HIGH (ucast (drop_bit 32 desc))) (
     kthen (setR VIRTIO_MMIO_DRIVER_DESC_LOW (ucast avail)) (
     kthen (setR VIRTIO_MMIO_DRIVER_DESC_HIGH (ucast (drop_bit 32 avail))) (
     kthen (setR VIRTIO_MMIO_DEVICE_DESC_LOW (ucast used)) (
     kthen (setR VIRTIO_MMIO_DEVICE_DESC_HIGH (ucast (drop_bit 32 used))) (
     kthen (setR VIRTIO_MMIO_QUEUE_READY 1) (
     kthen (kfor [0..<NUM] (\<lambda>i. modvd (\<lambda>v. v\<lparr>vd_free := (vd_free v)(i := True)\<rparr>)))
     (setR VIRTIO_MMIO_STATUS (status OR VIRTIO_CONFIG_S_DRIVER_OK))))))))))))))))))))))))))))))))"

end
