(* ===== verification/Xv6_Trap.thy ===== *)
theory Xv6_Trap
  imports Xv6_Syscall Xv6_Virtio
begin

text \<open>
  \<^verbatim>\<open>kernel/trap.c\<close>, the interrupt acknowledgement of \<^verbatim>\<open>kernel/plic.c\<close>, \<open>forkret\<close> of
  \<^verbatim>\<open>kernel/proc.c\<close> and the boot sequence of \<^verbatim>\<open>kernel/main.c\<close>.

  The supervisor registers of the hart are in \<open>csr\<close>. The registers of the interrupt controller
  are bytes of \<open>mem\<close>. The jump to \<open>userret\<close> at the end of \<open>usertrapret\<close> leaves the kernel: the
  function returns there. \<open>kerneltrap\<close> writes back the \<open>sstatus\<close> it has saved, in which the interrupt
  enable bit was off.
\<close>

section \<open>plic.c\<close>

definition UART0_IRQ :: int where "UART0_IRQ = 10"
definition VIRTIO0_IRQ :: int where "VIRTIO0_IRQ = 1"

definition PLIC_SENABLE :: "nat \<Rightarrow> u64" where
  "PLIC_SENABLE hart = PLIC + 0x2080 + of_nat hart * 0x100"

definition PLIC_SPRIORITY :: "nat \<Rightarrow> u64" where
  "PLIC_SPRIORITY hart = PLIC + 0x201000 + of_nat hart * 0x2000"

definition PLIC_SCLAIM :: "nat \<Rightarrow> u64" where
  "PLIC_SCLAIM hart = PLIC + 0x201004 + of_nat hart * 0x2000"

definition plicinit :: "unit op" where
  "plicinit =
     kthen (modmem (\<lambda>m. store32 m (PLIC + of_int UART0_IRQ * 4) 1))
     (modmem (\<lambda>m. store32 m (PLIC + of_int VIRTIO0_IRQ * 4) 1))"

definition plicinithart :: "unit op" where
  "plicinithart =
     kbind cpuid (\<lambda>hart.
     kthen (modmem (\<lambda>m. store32 m (PLIC_SENABLE hart) (push_bit (nat UART0_IRQ) 1 OR push_bit (nat VIRTIO0_IRQ) 1)))
     (modmem (\<lambda>m. store32 m (PLIC_SPRIORITY hart) 0)))"

definition plic_claim :: "int op" where
  "plic_claim = kbind cpuid (\<lambda>hart. getmem (\<lambda>m. sint (load32 m (PLIC_SCLAIM hart))))"

definition plic_complete :: "int \<Rightarrow> unit op" where
  "plic_complete irq = kbind cpuid (\<lambda>hart. modmem (\<lambda>m. store32 m (PLIC_SCLAIM hart) (of_int irq)))"

section \<open>trap.c\<close>

abbreviation modcsr :: "(csrs \<Rightarrow> csrs) \<Rightarrow> unit op" where
  "modcsr f \<equiv> kmod (\<lambda>s. s\<lparr>csr := (csr s)(tp (lk s) := f (csr s (tp (lk s))))\<rparr>)"

abbreviation getcsr :: "(csrs \<Rightarrow> 'a) \<Rightarrow> 'a op" where
  "getcsr f \<equiv> kget (\<lambda>s. f (csr s (tp (lk s))))"

definition trapinit :: "unit op" where
  "trapinit = initlock L_ticks ''time''"

definition trapinithart :: "unit op" where
  "trapinithart = kbind (kget sym_kernelvec) (\<lambda>v. modcsr (\<lambda>r. r\<lparr>csr_stvec := v\<rparr>))"

definition devintr :: "int op" where
  "devintr =
     kbind (getcsr csr_scause) (\<lambda>scause.
     if scause AND 0x8000000000000000 \<noteq> 0 \<and> scause AND 0xff = 9 then
       kbind plic_claim (\<lambda>irq.
       kthen (if irq = UART0_IRQ then uartintr
              else if irq = VIRTIO0_IRQ then virtio_disk_intr
              else kwhen (irq \<noteq> 0) (printf (''unexpected interrupt irq=%d'' @ [CHR 0x0A]) [Fint irq])) (
       kthen (kwhen (irq \<noteq> 0) (plic_complete irq))
       (kret 1)))
     else if scause = 0x8000000000000001 then
       kbind cpuid (\<lambda>c.
       kthen (kwhen (c = 0) clockintr) (
       kthen (modcsr (\<lambda>r. r\<lparr>csr_sip := csr_sip r AND NOT 2\<rparr>))
       (kret 2)))
     else kret 0)"

definition usertrapret :: "unit op" where
  "usertrapret =
     kbind curproc (\<lambda>p.
     kthen intr_off (
     kbind (kget (\<lambda>s. TRAMPOLINE + (sym_uservec s - sym_trampoline s))) (\<lambda>trampoline_uservec.
     kthen (modcsr (\<lambda>r. r\<lparr>csr_stvec := trampoline_uservec\<rparr>)) (
     kbind (getcsr csr_satp) (\<lambda>satp.
     kthen (tf_store p tf_kernel_satp satp) (
     kbind (getp p p_kstack) (\<lambda>kstack.
     kthen (tf_store p tf_kernel_sp (kstack + PGSIZE)) (
     kbind (kget sym_usertrap) (\<lambda>ut.
     kthen (tf_store p tf_kernel_trap ut) (
     kbind cpuid (\<lambda>hart.
     kthen (tf_store p tf_kernel_hartid (of_nat hart)) (
     kthen (modcsr (\<lambda>r. r\<lparr>csr_spp := False, csr_spie := True\<rparr>)) (
     kbind (tf_load p tf_epc) (\<lambda>epc.
     kthen (modcsr (\<lambda>r. r\<lparr>csr_sepc := epc\<rparr>)) (
     kbind (getp p p_pagetable) (\<lambda>pt.
     modcsr (\<lambda>r. r\<lparr>csr_satp := MAKE_SATP pt\<rparr>)))))))))))))))))"

text \<open>The part of \<open>usertrap\<close> after the switch on the cause, up to the yield.\<close>

definition usertrap_leave :: "nat \<Rightarrow> unit op" where
  "usertrap_leave p =
     kthen (modp p (\<lambda>x. x\<lparr>p_is_kernel := 0\<rparr>)) (
     kbind sys_uptime (\<lambda>now.
     kthen (modp p (\<lambda>x. x\<lparr>p_kernel_time := p_kernel_time x + (now - p_last_kernel_time x)\<rparr>))
     usertrapret))"

definition usertrap :: "unit op" where
  "usertrap =
     kbind (getcsr csr_spp) (\<lambda>spp.
     if spp then kpanic ''usertrap: not from user mode'' else
     kbind (kget sym_kernelvec) (\<lambda>kv.
     kthen (modcsr (\<lambda>r. r\<lparr>csr_stvec := kv\<rparr>)) (
     kbind curproc (\<lambda>p.
     kthen (modp p (\<lambda>x. x\<lparr>p_is_kernel := 1\<rparr>)) (
     kbind sys_uptime (\<lambda>now.
     kthen (modp p (\<lambda>x. x\<lparr>p_last_kernel_time := now\<rparr>)) (
     kbind (getcsr csr_sepc) (\<lambda>sepc.
     kthen (tf_store p tf_epc sepc) (
     kbind (getcsr csr_scause) (\<lambda>scause.
     kbind (if scause = 8 then
         kbind (killed p) (\<lambda>k.
         kthen (kwhen (k \<noteq> 0) (exit (- 1))) (
         kbind (tf_load p tf_epc) (\<lambda>epc.
         kthen (tf_store p tf_epc (epc + 4)) (
         kthen intr_on (
         kthen syscall
         (kret 0))))))
       else
         kbind devintr (\<lambda>which_dev.
         kthen (kwhen (which_dev = 0) (
           kbind (kget (\<lambda>s. (p_pid (procs s p), csr s (tp (lk s))))) (\<lambda>(pid, r).
           kthen (printf (''usertrap(): unexpected scause %p pid=%d'' @ [CHR 0x0A]) [Fptr (csr_scause r), Fint pid]) (
           kthen (printf (''            sepc=%p stval=%p'' @ [CHR 0x0A]) [Fptr (csr_sepc r), Fptr (csr_stval r)])
           (setkilled p)))))
         (kret which_dev))) (\<lambda>which_dev.
     kbind (killed p) (\<lambda>k.
     kthen (kwhen (k \<noteq> 0) (exit (- 1))) (
     kthen (kwhen (which_dev = 2) yield)
     (usertrap_leave p))))))))))))))"

definition kerneltrap :: "unit op" where
  "kerneltrap =
     kbind (kget (\<lambda>s. csr s (tp (lk s)))) (\<lambda>r.
     if \<not> csr_spp r then kpanic ''kerneltrap: not from supervisor mode'' else
     kbind intr_get (\<lambda>i.
     if i then kpanic ''kerneltrap: interrupts enabled'' else
     kbind devintr (\<lambda>which_dev.
     if which_dev = 0 then
       kthen (printf (''scause %p'' @ [CHR 0x0A]) [Fptr (csr_scause r)]) (
       kbind (kget (\<lambda>s. csr s (tp (lk s)))) (\<lambda>r'.
       kthen (printf (''sepc=%p stval=%p'' @ [CHR 0x0A]) [Fptr (csr_sepc r'), Fptr (csr_stval r')])
       (kpanic ''kerneltrap'')))
     else
       kbind myproc (\<lambda>mp.
       kbind (case mp of None \<Rightarrow> kret False | Some p \<Rightarrow> getp p (\<lambda>x. p_state x = RUNNING)) (\<lambda>running.
       kthen (kwhen (which_dev = 2 \<and> running) yield)
       (kthen (modcsr (\<lambda>q. q\<lparr>csr_sepc := csr_sepc r, csr_spp := csr_spp r, csr_spie := csr_spie r\<rparr>))
       intr_off))))))"

section \<open>proc.c: forkret\<close>

definition forkret :: "unit op" where
  "forkret =
     kbind curproc (\<lambda>p.
     kthen (release (L_proc p)) (
     kbind (kget forkret_first) (\<lambda>first.
     kthen (kwhen first (
       kthen (kmod (\<lambda>s. s\<lparr>forkret_first := False\<rparr>))
       (fsinit ROOTDEV)))
     usertrapret)))"

section \<open>main.c\<close>

definition kvminithart :: "unit op" where
  "kvminithart = kbind (kget kernel_pagetable) (\<lambda>pt. modcsr (\<lambda>r. r\<lparr>csr_satp := MAKE_SATP pt\<rparr>))"

definition main_hart0 :: "unit op" where
  "main_hart0 =
     kseq [consoleinit, printfinit,
       printf [CHR 0x0A] [], printf (''xv6 kernel is booting'' @ [CHR 0x0A]) [], printf [CHR 0x0A] [],
       kinit, kvminit, kvminithart, namespaceinit, procinit, trapinit, trapinithart, plicinit, plicinithart,
       binit, iinit, fileinit, virtio_disk_init, userinit, kmod (\<lambda>s. s\<lparr>started := True\<rparr>)]"

text \<open>The other harts wait until hart 0 has finished.\<close>

definition main :: "unit op" where
  "main =
     kbind cpuid (\<lambda>hart.
     kthen (if hart = 0 then main_hart0 else
       kbind (kget started) (\<lambda>st.
       if \<not> st then kexc Spin else
       kseq [printf (''hart %d starting'' @ [CHR 0x0A]) [Fint (int hart)], kvminithart, trapinithart, plicinithart]))
     scheduler_enter)"

end
