(* ===== verification/Xv6_Ring.thy ===== *)
theory Xv6_Ring
  imports Xv6_State
begin

text \<open>
  Bounded queues. The pipe of \<^verbatim>\<open>kernel/pipe.c\<close> and the transmit buffer of \<^verbatim>\<open>kernel/uart.c\<close> are arrays with two
  counters that run on and wrap around at the width of a word; an element lives at the counter modulo the size
  of the array. The locale says what their users rely on.
\<close>

section \<open>The interface\<close>

locale bounded_queue =
  fixes contents :: "'q \<Rightarrow> 'a list" and ok :: "'q \<Rightarrow> bool" and cap :: nat
    and put :: "'a \<Rightarrow> 'q \<Rightarrow> 'q" and get :: "'q \<Rightarrow> 'a \<times> 'q" and full :: "'q \<Rightarrow> bool" and empty :: "'q \<Rightarrow> bool"
  assumes bounded: "ok q \<Longrightarrow> length (contents q) \<le> cap"
    and full_iff: "ok q \<Longrightarrow> full q \<longleftrightarrow> length (contents q) = cap"
    and empty_iff: "ok q \<Longrightarrow> empty q \<longleftrightarrow> contents q = []"
    and put_ok: "ok q \<Longrightarrow> length (contents q) < cap \<Longrightarrow> ok (put c q) \<and> contents (put c q) = contents q @ [c]"
    and get_ok: "ok q \<Longrightarrow> contents q = c # cs \<Longrightarrow> fst (get q) = c \<and> ok (snd (get q)) \<and> contents (snd (get q)) = cs"
begin

lemma put_all:
  assumes "ok q" "length (contents q) + length cs \<le> cap"
  shows "ok (fold put cs q) \<and> contents (fold put cs q) = contents q @ cs"
  using assms by (induction cs arbitrary: q) (simp_all add: put_ok)

lemma get_all:
  assumes "ok q" "n \<le> length (contents q)"
  shows "ok (((\<lambda>q. snd (get q)) ^^ n) q) \<and> contents (((\<lambda>q. snd (get q)) ^^ n) q) = drop n (contents q)
     \<and> (\<forall>i < n. fst (get (((\<lambda>q. snd (get q)) ^^ i) q)) = contents q ! i)"
  using assms
proof (induction n)
  case (Suc n)
  then have IH: "ok (((\<lambda>q. snd (get q)) ^^ n) q)" "contents (((\<lambda>q. snd (get q)) ^^ n) q) = drop n (contents q)"
    "\<forall>i < n. fst (get (((\<lambda>q. snd (get q)) ^^ i) q)) = contents q ! i" by simp_all
  from Suc.prems have "contents (((\<lambda>q. snd (get q)) ^^ n) q) = contents q ! n # drop (Suc n) (contents q)"
    using IH(2) by (simp add: Cons_nth_drop_Suc)
  from get_ok [OF IH(1) this] IH(3) show ?case by (auto simp: less_Suc_eq)
qed simp

text \<open>First in, first out.\<close>

lemma fifo:
  assumes "ok q" "contents q = []" "length cs \<le> cap" "i < length cs"
  shows "fst (get (((\<lambda>q. snd (get q)) ^^ i) (fold put cs q))) = cs ! i"
  using get_all [of "fold put cs q" "length cs"] put_all [of q cs] assms by simp

end

section \<open>Rings\<close>

definition ring :: "'a list \<Rightarrow> 'w :: len word \<Rightarrow> 'w word \<Rightarrow> 'a list" where
  "ring data r w = map (\<lambda>i. data ! (unat (r + of_nat i) mod length data)) [0..<unat (w - r)]"

definition ring_ok :: "nat \<Rightarrow> 'a list \<Rightarrow> 'w :: len word \<Rightarrow> 'w word \<Rightarrow> bool" where
  "ring_ok n data r w \<longleftrightarrow> length data = n \<and> 0 < n \<and> n < 2 ^ LENGTH('w) \<and> n dvd 2 ^ LENGTH('w) \<and> unat (w - r) \<le> n"

lemma length_ring [simp]: "length (ring data r w) = unat (w - r)"
  by (simp add: ring_def)

lemma unat_add_mod:
  fixes a b :: "'w :: len word"
  assumes "n dvd 2 ^ LENGTH('w)"
  shows "unat (a + b) mod n = (unat a + unat b) mod n"
  using assms by (simp add: unat_word_ariths mod_mod_cancel)

lemma mod_apart: 
  assumes "i < d" "d < (n :: nat)"
  shows "(x + i) mod n \<noteq> (x + d) mod n"
proof
  assume "(x + i) mod n = (x + d) mod n"
  then have "n dvd (x + d) - (x + i)" using assms by (metis add_less_cancel_left less_imp_le_nat mod_eq_dvd_iff_nat)
  moreover have "0 < d - i" "d - i < n" using assms by simp_all
  ultimately show False by (metis add_diff_cancel_left dvd_imp_le not_le)
qed

lemma ring_put:
  fixes r w :: "'w :: len word"
  assumes "ring_ok n data r w" "unat (w - r) < n"
  shows "ring_ok n (data[unat w mod n := c]) r (w + 1)" "ring (data[unat w mod n := c]) r (w + 1) = ring data r w @ [c]"
proof -
  let ?d = "unat (w - r)"
  have n: "length data = n" "0 < n" "n < 2 ^ LENGTH('w)" "n dvd 2 ^ LENGTH('w)" using assms(1) by (simp_all add: ring_ok_def)
  have s: "unat (w + 1 - r) = Suc ?d"
  proof -
    have "w + 1 - r = (w - r) + 1" by simp
    moreover have "unat (w - r) + 1 < 2 ^ LENGTH('w)" using assms(2) n(3) by simp
    ultimately show ?thesis using unat_word_ariths(1) [of "w - r" 1] by (metis Suc_eq_plus1 mod_less unat_1)
  qed
  have w: "w = r + of_nat ?d" by simp
  have at: "unat (r + of_nat i) mod n = (unat r + i) mod n" if "i \<le> ?d" for i
  proof -
    have "i < 2 ^ LENGTH('w)" using that by (meson le_less_trans unsigned_less)
    then show ?thesis by (simp add: unat_add_mod [OF n(4)] unat_of_nat mod_less)
  qed
  have wi: "unat w mod n = (unat r + ?d) mod n" using at [of ?d] by (subst w) simp
  show "ring_ok n (data[unat w mod n := c]) r (w + 1)" using assms n s by (simp add: ring_ok_def)
  have old: "data[unat w mod n := c] ! (unat (r + of_nat i) mod n) = data ! (unat (r + of_nat i) mod n)" if "i < ?d" for i
    using mod_apart [OF that assms(2), of "unat r"] at [of i] wi that by simp
  have new: "data[unat w mod n := c] ! (unat (r + of_nat ?d) mod n) = c"
    using n(1,2) at [of ?d] wi by simp
  show "ring (data[unat w mod n := c]) r (w + 1) = ring data r w @ [c]"
    unfolding ring_def s using old new n(1) by simp
qed

lemma ring_get:
  fixes r w :: "'w :: len word"
  assumes "ring_ok n data r w" "ring data r w = c # cs"
  shows "data ! (unat r mod n) = c" "ring_ok n data (r + 1) w" "ring data (r + 1) w = cs"
proof -
  let ?d = "unat (w - r)"
  have n: "length data = n" using assms(1) by (simp add: ring_ok_def)
  have d: "?d = Suc (length cs)" using assms(2) length_ring [of data r w] by simp
  have s: "unat (w - (r + 1)) = length cs"
  proof -
    have "w - r \<noteq> 0" using d by auto
    then have "unat (w - r - 1) = ?d - 1" by (rule unat_minus_one)
    then show ?thesis using d by (simp add: algebra_simps)
  qed
  have up: "[0..<?d] = 0 # map Suc [0..<length cs]" unfolding d by (metis map_Suc_upt upt_conv_Cons zero_less_Suc)
  show "data ! (unat r mod n) = c" using assms(2) n unfolding ring_def up by simp
  show "ring_ok n data (r + 1) w" using assms(1) s d by (simp add: ring_ok_def)
  show "ring data (r + 1) w = cs" using assms(2) unfolding ring_def up s by (simp add: ac_simps comp_def)
qed

lemma ring_full:
  fixes r w :: "'w :: len word"
  assumes "ring_ok n data r w"
  shows "w = r + of_nat n \<longleftrightarrow> length (ring data r w) = n"
proof -
  have "w = r + of_nat n \<longleftrightarrow> w - r = of_nat n" by (auto simp: algebra_simps)
  also have "\<dots> \<longleftrightarrow> unat (w - r) = n" using assms by (metis mod_less of_nat_unat ring_ok_def ucast_id unat_of_nat)
  finally show ?thesis by simp
qed

lemma ring_empty: "r = w \<longleftrightarrow> ring data r w = []"
  by (auto simp: ring_def unat_eq_0)

end
