(* ===== verification/Xv6_Frame.thy ===== *)
theory Xv6_Frame
  imports Xv6_File Xv6_Virtio
begin

text \<open>
  What the lower layers leave alone. \<open>core s\<close> is the part of the state that process and namespace
  management owns: the identity of every process (namespace, process ids, parent) and the
  namespace table. Every operation of the virtual memory, scheduling, console, file system, file
  and disk layers keeps it, whatever its outcome; \<open>core_rules\<close> collects these facts.
\<close>

definition pcore :: "proc \<Rightarrow> nat option \<times> (nat \<Rightarrow> int) \<times> nat option \<times> int" where
  "pcore x = (p_ns x, p_pids x, p_parent x, p_pid x)"

definition core :: "kstate \<Rightarrow> (nat \<Rightarrow> nat option \<times> (nat \<Rightarrow> int) \<times> nat option \<times> int)
    \<times> (nat \<Rightarrow> namespace) \<times> int \<times> int \<times> nat option \<times> nat option" where
  "core s = ((\<lambda>p. pcore (procs s p)), namespaces s, nextpid s, nextnamespace s, initproc s, initnamespace s)"

named_theorems core_rules "operations that keep the process and namespace identities"

text \<open>
  \<open>kept s t\<close>: the identities are the same in \<open>t\<close>, and no process slot has been given back.
\<close>

definition kept :: "kstate \<Rightarrow> kstate \<Rightarrow> bool" where
  "kept s t \<longleftrightarrow> core t = core s \<and> (\<forall>p. p_state (procs t p) = UNUSED \<longrightarrow> p_state (procs s p) = UNUSED)"

interpretation kept: state_rel kept
  by unfold_locales (auto simp: kept_def)

lemma core_upd_proc: "(\<And>x. pcore (f x) = pcore x) \<Longrightarrow> core (upd_proc i f s) = core s"
  by (auto simp: core_def)

lemma core_frame [simp]:
  "core (s\<lparr>lk := a\<rparr>) = core s" "core (s\<lparr>mem := b\<rparr>) = core s" "core (s\<lparr>freelist := c\<rparr>) = core s"
  "core (s\<lparr>slks := d\<rparr>) = core s" "core (s\<lparr>bufs := e\<rparr>) = core s" "core (s\<lparr>disk := f\<rparr>) = core s"
  "core (s\<lparr>logs := g\<rparr>) = core s" "core (s\<lparr>inodes := h\<rparr>) = core s" "core (s\<lparr>files := i\<rparr>) = core s"
  "core (s\<lparr>pipes := j\<rparr>) = core s" "core (s\<lparr>conout := k\<rparr>) = core s" "core (s\<lparr>cons := l\<rparr>) = core s"
  "core (s\<lparr>uart := m\<rparr>) = core s" "core (s\<lparr>sb := n\<rparr>) = core s" "core (s\<lparr>vd := q\<rparr>) = core s"
  "core (s\<lparr>ticks := r\<rparr>) = core s" "core (s\<lparr>csr := t\<rparr>) = core s" "core (s\<lparr>started := u\<rparr>) = core s"
  "core (s\<lparr>kernel_pagetable := v\<rparr>) = core s" "core (s\<lparr>devsw := w\<rparr>) = core s" "core (s\<lparr>pr_locking := x\<rparr>) = core s"
  "core (s\<lparr>forkret_first := y\<rparr>) = core s" "core (s\<lparr>panicked := z\<rparr>) = core s"
  by (simp_all add: core_def)

lemma kept_upd_proc:
  "(\<And>x. pcore (f x) = pcore x) \<Longrightarrow> (\<And>x. p_state (f x) = UNUSED \<Longrightarrow> p_state x = UNUSED) \<Longrightarrow> kept s (upd_proc i f s)"
  by (auto simp: kept_def core_upd_proc)

lemma kept_same_procs: "core t = core s \<Longrightarrow> procs t = procs s \<Longrightarrow> kept s t"
  by (simp add: kept_def)

definition corep :: "kstate \<Rightarrow> _" where
  "corep s = (core s, \<lambda>p. p_state (procs s p))"

lemma mem_blind_corep [simp]: "mem_blind corep"
  by (simp add: mem_blind_def corep_def)

lemma kept_corep: "unch corep m \<Longrightarrow> moves kept m"
  by (erule kept.m_unch) (auto simp: corep_def kept_def fun_eq_iff)

lemma core_kmod: "(\<And>s. core (g s) = core s \<and> procs (g s) = procs s) \<Longrightarrow> moves kept (kmod g)"
  by (rule kept.m_kmod) (simp add: kept_same_procs)

lemma core_modp [core_rules]:
  "(\<And>x. pcore (f x) = pcore x \<and> (p_state (f x) = UNUSED \<longrightarrow> p_state x = UNUSED)) \<Longrightarrow> moves kept (modp i f)"
  by (rule kept.m_kmod) (rule kept_upd_proc; simp)

lemma core_locks [core_rules]:
  "moves kept (acquire l)" "moves kept (release l)" "moves kept myproc" "moves kept push_off" "moves kept pop_off"
  "moves kept (holding l)" "moves kept mycpu" "moves kept (initlock l nm)"
  by (rule kept_corep, rule unch_lk_ops, simp add: corep_def)+

lemma core_cpu [core_rules]:
  "moves kept (modcpu c f)" "moves kept (getcpu c g)" "moves kept intr_get" "moves kept intr_on" "moves kept intr_off" "moves kept cpuid"
  unfolding modcpu_def getcpu_def intr_get_def intr_on_def intr_off_def cpuid_def
  by (intro kept.split_rules core_kmod; simp)+

text \<open>The rules that take an operation apart, and those that finish with an update outside \<open>core\<close>.\<close>

lemmas core_split = kept.split_rules

section \<open>Scheduling\<close>

lemma core_sys_uptime [core_rules]: "moves kept sys_uptime"
  unfolding sys_uptime_def by (intro core_split core_rules)

lemma core_sched [core_rules]: "moves kept sched"
  unfolding sched_def by (intro core_split core_rules)

lemma core_sleep [core_rules]: "moves kept (sleep ch l)"
  unfolding sleep_def by (intro core_split core_rules) (simp_all add: pcore_def)

lemma core_yield [core_rules]: "moves kept yield"
  unfolding yield_def by (intro core_split core_rules) (simp_all add: pcore_def)

lemma core_wakeup_one: "moves kept (wakeup_one ch p)"
  unfolding wakeup_one_def by (intro core_split core_rules) (simp_all add: pcore_def)

lemma core_wakeup [core_rules]: "moves kept (wakeup_ptr chp)" "moves kept (wakeup ch)"
  unfolding wakeup_def wakeup_ptr_def by (intro core_split core_wakeup_one)+

lemma core_kill [core_rules]: "moves kept (kill pid)"
proof -
  have "moves kept (kill_loop ps pid)" for ps
    by (induction ps) (auto intro!: core_split core_rules simp: pcore_def simp del: kret_apply)
  then show ?thesis by (simp add: kill_def)
qed

lemma core_killed [core_rules]: "moves kept (killed p)" "moves kept (setkilled p)"
  unfolding killed_def setkilled_def by (intro core_split core_rules; simp add: pcore_def)+

lemma core_scheduler [core_rules]: "moves kept (scheduler_try p)" "moves kept (scheduler_back p)" "moves kept scheduler_enter"
  "moves kept (sched_resume i)" "moves kept (sleep_resume p i l)" "moves kept (yield_resume p i)"
  unfolding scheduler_try_def scheduler_back_def scheduler_enter_def sched_resume_def sleep_resume_def yield_resume_def
  by (intro core_split core_rules; simp add: pcore_def)+

lemma core_clockintr [core_rules]: "moves kept clockintr"
  unfolding clockintr_def by (intro core_split core_rules core_kmod) simp

lemma core_copies [core_rules]: "moves kept (copyout pt va bs)" "moves kept (copyin pt va n)" "moves kept (copyinstr pt va n)"
  by (rule kept_corep, rule unch_copyout unch_copyin unch_copyinstr, simp)+

lemma core_either [core_rules]: "moves kept (either_copyout d bs)" "moves kept (either_copyin src off n)"
  unfolding either_copyout_def either_copyin_def
  by (cases d; intro core_split core_rules; auto intro!: core_split core_rules core_kmod)
     (cases src; intro core_split core_rules; auto intro!: core_split core_rules)

lemma core_sleeplock [core_rules]: "moves kept (acquiresleep l)" "moves kept (releasesleep l)" "moves kept (holdingsleep l)"
  "moves kept (initsleeplock l nm)"
  unfolding acquiresleep_def acquiresleep_loop_def releasesleep_def holdingsleep_def initsleeplock_def
  by (intro core_split core_rules core_kmod; simp)+

section \<open>Console output\<close>

lemma core_uartputc_sync [core_rules]: "moves kept (uartputc_sync c)"
  unfolding uartputc_sync_def by (intro core_split core_rules core_kmod) simp

lemma core_consputc [core_rules]: "moves kept (consputc c)"
  unfolding consputc_def by (intro core_split core_rules)

lemma core_putbytes [core_rules]: "moves kept (putbytes bs)"
  unfolding putbytes_def by (intro core_split core_rules)

lemma core_printf [core_rules]: "moves kept (printf fmt args)"
proof -
  have "moves kept (printf_loop f a)" for f a
    by (induction f a rule: printf_loop.induct)
      (auto simp: printint_def printptr_def intro!: core_split core_rules split: list.split fmtarg.split option.split simp del: kret_apply)
  then show ?thesis unfolding printf_def by (intro core_split core_rules)
qed

lemma core_procdump [core_rules]: "moves kept procdump"
  unfolding procdump_def by (intro core_split core_rules)

section \<open>Virtual memory\<close>

lemma core_vm [core_rules]:
  "moves kept (kfree pa)" "moves kept kalloc" "moves kept (mappages pt va sz pa perm)" "moves kept (uvmunmap pt va n df)"
  "moves kept uvmcreate" "moves kept (uvmfirst pt src)" "moves kept (uvmdealloc pt a b)" "moves kept (uvmcopy old new sz)"
  "moves kept (uvmfree pt sz)" "moves kept (uvmclear pt va)" "moves kept (walkaddr pt va)" "moves kept (modmem g)"
  by (rule kept_corep, rule unch_kmem unch_mappages unch_uvmunmap unch_uvmcreate unch_uvmfirst unch_uvmdealloc unch_uvmcopy unch_uvmfree
      unch_uvmclear unch_walkaddr unch_modmem, simp)+

lemma core_uvmalloc [core_rules]: "moves kept (uvmalloc pt a b x)"
  by (rule kept_corep, rule unch_uvmalloc) (auto simp: corep_def fun_eq_iff intro!: core_upd_proc simp: pcore_def)

section \<open>Buffers, log, disk\<close>

lemma core_disk_transfer [core_rules]: "moves kept (disk_transfer b w)"
  unfolding disk_transfer_def by (intro core_split core_rules core_kmod) simp_all

lemma core_bget_scan [core_rules]: "moves kept (bget_cached n b dev bn)" "moves kept (bget_unused n b)"
proof -
  show "moves kept (bget_cached n b dev bn)"
    by (induction n arbitrary: b) (auto intro!: core_split simp del: kret_apply kexc_apply)
  show "moves kept (bget_unused n b)"
    by (induction n arbitrary: b) (auto intro!: core_split simp del: kret_apply kexc_apply)
qed

lemma core_bget [core_rules]: "moves kept (bget dev bn)"
  unfolding bget_def by (intro core_split core_rules core_kmod) simp_all

lemma core_bread [core_rules]: "moves kept (bread dev bn)"
  unfolding bread_def by (intro core_split core_rules core_kmod) simp_all

lemma core_bio [core_rules]: "moves kept (bwrite b)" "moves kept (brelse b)" "moves kept (bpin b)" "moves kept (bunpin b)"
  unfolding bwrite_def brelse_def bpin_def bunpin_def link_front_def by (intro core_split core_rules core_kmod; simp)+

lemma core_install [core_rules]: "moves kept (install_trans r)" "moves kept write_log"
  unfolding install_trans_def write_log_def install_one_def write_log_one_def
  by (intro core_split core_rules core_kmod; simp)+

lemma core_head [core_rules]: "moves kept read_head" "moves kept write_head"
  unfolding read_head_def write_head_def by (intro core_split core_rules core_kmod; simp)+

lemma core_log [core_rules]: "moves kept (initlog dev sb')" "moves kept begin_op" "moves kept commit" "moves kept (log_write b)"
  unfolding initlog_def recover_from_log_def begin_op_def begin_op_loop_def commit_def log_write_def Let_def
  by (intro core_split core_rules core_kmod; simp)+

lemma core_end_op [core_rules]: "moves kept end_op"
  unfolding end_op_def by (intro core_split core_rules core_kmod) simp_all

lemma core_virtio [core_rules]: "moves kept virtio_disk_intr"
proof -
  have "moves kept (virtio_intr_loop n)" for n
  proof (induction n)
    case (Suc n)
    then show ?case unfolding virtio_intr_loop.simps Let_def by (intro core_split core_rules core_kmod) simp_all
  qed (unfold virtio_intr_loop.simps, intro core_split)
  then show ?thesis unfolding virtio_disk_intr_def by (intro core_split core_rules)
qed

section \<open>File system\<close>

lemma core_blocks [core_rules]: "moves kept (readsb dev)" "moves kept (fsinit dev)" "moves kept (bzero dev bno)" "moves kept (bfree dev b)"
  unfolding readsb_def fsinit_def bzero_def bfree_def Let_def by (intro core_split core_rules core_kmod; simp)+

lemma core_balloc [core_rules]: "moves kept (balloc dev)"
proof -
  have "moves kept (balloc_loop n dev b)" for n b
    by (induction n arbitrary: b) (auto intro!: core_split core_rules core_kmod simp del: kret_apply kexc_apply)
  then show ?thesis unfolding balloc_def by (intro core_split)
qed

lemma core_iget [core_rules]: "moves kept (iget dev inum)"
  unfolding iget_def by (intro core_split core_rules core_kmod) simp_all

lemma core_ialloc [core_rules]: "moves kept (ialloc dev ty)"
proof -
  have "moves kept (ialloc_loop is dev ty)" for "is"
  proof (induction "is")
    case (Cons i "is")
    then show ?case unfolding ialloc_loop.simps Let_def by (intro core_split core_rules core_kmod) simp_all
  qed (unfold ialloc_loop.simps, intro core_split core_rules)
  then show ?thesis unfolding ialloc_def by (intro core_split)
qed

lemma core_inode [core_rules]: "moves kept (iupdate ip)" "moves kept (idup mip)" "moves kept (ilock ip)" "moves kept (iunlock ip)"
  "moves kept (ilock_ptr mip)" "moves kept (iunlock_ptr mip)"
  unfolding iupdate_def idup_def ilock_ptr_def iunlock_ptr_def ilock_def iunlock_def
  by (intro core_split core_rules core_kmod; simp)+

lemma core_bmap [core_rules]: "moves kept (bmap ip bn)"
  unfolding bmap_def Let_def by (intro core_split core_rules core_kmod) simp_all

lemma core_itrunc [core_rules]: "moves kept (itrunc ip)"
  unfolding itrunc_def by (intro core_split core_rules core_kmod) simp_all

lemma core_iput [core_rules]: "moves kept (iput ip)" "moves kept (iunlockput ip)"
  unfolding iunlockput_def iput_def by (intro core_split core_rules core_kmod; simp)+

lemma core_readi [core_rules]: "moves kept (readi ip dst off n)"
proof -
  have "moves kept (readi_loop k ip d tot off n)" for k d tot off n
    by (induction k arbitrary: d tot off) (auto simp: Let_def intro!: core_split core_rules simp del: kret_apply kexc_apply)
  then show ?thesis unfolding readi_def Let_def by (intro core_split)
qed

lemma core_writei [core_rules]: "moves kept (writei ip src off n)"
proof -
  have "moves kept (writei_loop k ip src tot off n)" for k tot off n
    by (induction k arbitrary: tot off) (auto simp: Let_def intro!: core_split core_rules core_kmod simp del: kret_apply kexc_apply)
  then show ?thesis unfolding writei_def by (intro core_split core_rules core_kmod) simp_all
qed

lemma core_dirlookup [core_rules]: "moves kept (dirlookup dp name)"
proof -
  have "moves kept (dirlookup_loop k dp name off)" for k off
    by (induction k arbitrary: off) (auto intro!: core_split core_rules simp del: kret_apply kexc_apply)
  then show ?thesis unfolding dirlookup_def by (intro core_split)
qed

lemma core_dirlink [core_rules]: "moves kept (dirlink dp name inum)"
proof -
  have "moves kept (dirlink_loop k dp off)" for k off
    by (induction k arbitrary: off) (auto intro!: core_split core_rules simp del: kret_apply kexc_apply)
  then show ?thesis unfolding dirlink_def by (intro core_split core_rules)
qed

lemma core_namex [core_rules]: "moves kept (namex path np name)"
proof -
  have "moves kept (namex_loop k ip path np name)" for k ip path name
    by (induction k arbitrary: ip path name) (auto intro!: core_split core_rules simp del: kret_apply kexc_apply split: option.split)
  then show ?thesis unfolding namex_def by (intro core_split core_rules)
qed

lemma core_namei [core_rules]: "moves kept (namei path)" "moves kept (nameiparent path)"
  unfolding namei_def nameiparent_def by (intro core_split core_rules)+

section \<open>Console, pipes, files\<close>

lemma core_uartstart [core_rules]: "moves kept uartstart"
proof -
  have "moves kept (uartstart_loop n)" for n
  proof (induction n)
    case (Suc n)
    then show ?case unfolding uartstart_loop.simps Let_def by (intro core_split core_rules core_kmod) simp_all
  qed (unfold uartstart_loop.simps, intro core_split)
  then show ?thesis unfolding uartstart_def by (intro core_split)
qed

lemma core_uartputc [core_rules]: "moves kept (uartputc c)"
  unfolding uartputc_def uartputc_loop_def by (intro core_split core_rules core_kmod) simp_all

lemma core_uartgetc [core_rules]: "moves kept uartgetc"
  unfolding uartgetc_def by (intro core_split core_rules core_kmod) (auto split: list.split intro!: core_split core_kmod)

lemma core_consolewrite [core_rules]: "moves kept (consolewrite src n)"
proof -
  have "moves kept (consolewrite_loop k src i)" for k i
  proof (induction k arbitrary: i)
    case (Suc n)
    then show ?case unfolding consolewrite_loop.simps by (intro core_split core_rules) simp_all
  qed (unfold consolewrite_loop.simps, intro core_split)
  then show ?thesis by (simp add: consolewrite_def)
qed

lemma core_consoleread [core_rules]: "moves kept (consoleread dst n)"
proof -
  have "moves kept (consoleread_loop k d t)" for k d t
  proof (induction k arbitrary: d)
    case (Suc n)
    then show ?case unfolding consoleread_loop.simps Let_def by (intro core_split core_rules core_kmod) simp_all
  qed (unfold consoleread_loop.simps, intro core_split core_rules)
  then show ?thesis unfolding consoleread_def by (intro core_split core_rules)
qed

lemma core_consoleintr [core_rules]: "moves kept (consoleintr c)"
proof -
  have "moves kept (kill_line n)" for n
  proof (induction n)
    case (Suc n)
    then show ?case unfolding kill_line.simps by (intro core_split core_rules core_kmod) simp_all
  qed (unfold kill_line.simps, intro core_split)
  then show ?thesis unfolding consoleintr_def Let_def by (intro core_split core_rules core_kmod) (simp_all del: kill_line.simps)
qed

lemma core_uartintr [core_rules]: "moves kept uartintr"
proof -
  have "moves kept (uartintr_loop n)" for n
  proof (induction n)
    case (Suc n)
    then show ?case unfolding uartintr_loop.simps by (intro core_split core_rules)
  qed (unfold uartintr_loop.simps, intro core_split)
  then show ?thesis unfolding uartintr_def by (intro core_split core_rules)
qed

lemma core_filealloc [core_rules]: "moves kept filealloc" "moves kept (filedup f)"
proof -
  have "moves kept (filealloc_loop fs)" for fs
  proof (induction fs)
    case (Cons f fs)
    then show ?case unfolding filealloc_loop.simps by (intro core_split core_rules core_kmod) simp_all
  qed (unfold filealloc_loop.simps, intro core_split core_rules)
  then show "moves kept filealloc" unfolding filealloc_def by (intro core_split core_rules)
  show "moves kept (filedup f)" unfolding filedup_def by (intro core_split core_rules core_kmod) simp_all
qed

lemma core_pipeclose [core_rules]: "moves kept (pipeclose pi w)"
  unfolding pipeclose_def by (intro core_split core_rules core_kmod) simp_all

lemma core_pipewrite [core_rules]: "moves kept (pipewrite pi addr n)"
proof -
  have "moves kept (pipewrite_loop k pr pi addr i)" for k pr i
  proof (induction k arbitrary: i)
    case (Suc n)
    then show ?case unfolding pipewrite_loop.simps by (intro core_split core_rules core_kmod) simp_all
  qed (unfold pipewrite_loop.simps, intro core_split)
  then show ?thesis unfolding pipewrite_def pipewrite_rest_def by (intro core_split core_rules)
qed

lemma core_piperead [core_rules]: "moves kept (piperead pi addr n)"
proof -
  have "moves kept (piperead_loop k pr pi addr i)" for k pr i
  proof (induction k arbitrary: i)
    case (Suc n)
    then show ?case unfolding piperead_loop.simps by (intro core_split core_rules core_kmod) simp_all
  qed (unfold piperead_loop.simps, intro core_split)
  then show ?thesis unfolding piperead_def piperead_locked_def by (intro core_split core_rules)
qed

lemma core_fileclose [core_rules]: "moves kept (fileclose f)"
  unfolding fileclose_def by (intro core_split core_rules core_kmod) simp_all

lemma core_pipealloc [core_rules]: "moves kept pipealloc"
  unfolding pipealloc_def pipealloc_bad_def by (intro core_split core_rules core_kmod) simp_all

lemma core_filestat [core_rules]: "moves kept (filestat f addr)"
  unfolding filestat_def by (intro core_split core_rules)

lemma moves_case_ftype:
  "(ty = FD_NONE \<Longrightarrow> moves R a) \<Longrightarrow> (ty = FD_PIPE \<Longrightarrow> moves R b) \<Longrightarrow> (ty = FD_INODE \<Longrightarrow> moves R c)
   \<Longrightarrow> (ty = FD_DEVICE \<Longrightarrow> moves R d) \<Longrightarrow>
   moves R (case ty of FD_NONE \<Rightarrow> a | FD_PIPE \<Rightarrow> b | FD_INODE \<Rightarrow> c | FD_DEVICE \<Rightarrow> d)"
  by (cases ty) auto

lemma moves_case_devops: "moves R a \<Longrightarrow> moves R (case d of Console_ops \<Rightarrow> a)"
  by (cases d) auto

lemma core_fileread [core_rules]: "moves kept (fileread f addr n)"
  unfolding fileread_def by (intro core_split core_rules core_kmod moves_case_ftype moves_case_devops) simp_all

lemma core_filewrite [core_rules]: "moves kept (filewrite f addr n)"
proof -
  have "moves kept (filewrite_loop k f addr n i)" for k n i
  proof (induction k arbitrary: i)
    case (Suc k)
    then show ?case unfolding filewrite_loop.simps Let_def by (intro core_split core_rules core_kmod) simp_all
  qed (unfold filewrite_loop.simps, intro core_split)
  then show ?thesis unfolding filewrite_def by (intro core_split core_rules moves_case_ftype moves_case_devops)
qed

section \<open>Operations that never sleep\<close>

lemma nosw_locks [nosw_rules]: "nosw (acquire l)" "nosw (release l)" "nosw myproc"
  unfolding acquire_def release_def myproc_def spinlock_defs by (intro nosw_split; simp)+

lemma nosw_sys_uptime [nosw_rules]: "nosw sys_uptime"
  unfolding sys_uptime_def by (intro nosw_split nosw_rules)

lemma nosw_kmem [nosw_rules]: "nosw (kfree pa)" "nosw kalloc"
  unfolding kfree_def kalloc_def by (intro nosw_split nosw_rules; simp)+

lemma nosw_walk [nosw_rules]: "nosw (walk pt va al)"
proof -
  have "nosw (walk_levels ls p va al)" for ls p
    by (induction ls arbitrary: p) (auto simp: Let_def intro!: nosw_split nosw_rules simp del: kret_apply kexc_apply)
  then show ?thesis unfolding walk_def by (intro nosw_split) (simp_all del: walk_levels.simps)
qed

lemma nosw_mappages [nosw_rules]: "nosw (mappages pt va sz pa perm)"
proof -
  have "nosw (mappages_loop pt a la p perm)" for a la p
    by (induction pt a la p perm rule: mappages_loop.induct)
      (subst mappages_loop.simps, intro nosw_split nosw_rules; simp)
  then show ?thesis unfolding mappages_def Let_def by (intro nosw_split) simp_all
qed

lemma nosw_uvmunmap [nosw_rules]: "nosw (uvmunmap pt va n df)"
proof -
  have "nosw (uvmunmap_loop pt a la df)" for a la
    by (induction pt a la df rule: uvmunmap_loop.induct)
      (subst uvmunmap_loop.simps, intro nosw_split nosw_rules; simp)
  then show ?thesis unfolding uvmunmap_def by (intro nosw_split) simp_all
qed

lemma nosw_uvmcopy [nosw_rules]: "nosw (uvmcopy old new sz)"
proof -
  have "nosw (uvmcopy_loop old new i sz)" for i
    by (induction old new i sz rule: uvmcopy_loop.induct)
      (subst uvmcopy_loop.simps, intro nosw_split nosw_rules; simp)
  then show ?thesis unfolding uvmcopy_def .
qed

lemma nosw_uvmfree [nosw_rules]: "nosw (uvmfree pt sz)" "nosw uvmcreate"
proof -
  have "nosw (freewalk_level n p)" for n p
  proof (induction n arbitrary: p)
    case (Suc n)
    then show ?case unfolding freewalk_level.simps Let_def by (intro nosw_split nosw_rules) simp_all
  qed (unfold freewalk_level.simps, intro nosw_split, simp)
  then show "nosw (uvmfree pt sz)" unfolding uvmfree_def freewalk_def by (intro nosw_split nosw_rules)
  show "nosw uvmcreate" unfolding uvmcreate_def by (intro nosw_split nosw_rules)
qed

lemma nosw_dups [nosw_rules]: "nosw (filedup f)" "nosw (idup mip)"
  unfolding filedup_def idup_def by (intro nosw_split nosw_rules; simp)+

end
