(* ===== verification/Xv6_Namespace.thy ===== *)
theory Xv6_Namespace
  imports Xv6_Frame Xv6_Proc
begin

text \<open>
  The tree of PID namespaces and the process ids handed out in it.

  \<open>chain_ok t d n\<close>: namespace \<open>n\<close> of the table \<open>t\<close> has depth \<open>d\<close> and its chain of parents leads, one
  level at a time, to a root. \<open>anc t d n k\<close> is the ancestor of \<open>n\<close> at depth \<open>k\<close>. \<open>ns_inv\<close> is the
  invariant of process identities: every process with a namespace hangs in a well-formed chain and
  holds, at each depth, a process id that the ancestor at that depth has already handed out; two
  processes below the same ancestor have different ids there; the global ids are different too.
\<close>

section \<open>The tree\<close>

primrec chain_ok :: "(nat \<Rightarrow> namespace) \<Rightarrow> nat \<Rightarrow> nat \<Rightarrow> bool" where
  "chain_ok t 0 n \<longleftrightarrow> n < NUMNS \<and> ns_used (t n) \<noteq> 0 \<and> ns_depth (t n) = 0 \<and> ns_parent (t n) = None"
| "chain_ok t (Suc d) n \<longleftrightarrow> n < NUMNS \<and> ns_used (t n) \<noteq> 0 \<and> ns_depth (t n) = Suc d
     \<and> (case ns_parent (t n) of None \<Rightarrow> False | Some m \<Rightarrow> chain_ok t d m)"

primrec anc :: "(nat \<Rightarrow> namespace) \<Rightarrow> nat \<Rightarrow> nat \<Rightarrow> nat \<Rightarrow> nat" where
  "anc t 0 n k = n"
| "anc t (Suc d) n k = (if k = Suc d then n else case ns_parent (t n) of None \<Rightarrow> n | Some m \<Rightarrow> anc t d m k)"

text \<open>The namespaces from \<open>n\<close> up to its root.\<close>

definition ancs :: "(nat \<Rightarrow> namespace) \<Rightarrow> nat \<Rightarrow> nat \<Rightarrow> nat set" where
  "ancs t d n = anc t d n ` {..d}"

lemma chain_ok_depth: "chain_ok t d n \<Longrightarrow> ns_depth (t n) = d"
  by (cases d) auto

lemma chain_ok_used: "chain_ok t d n \<Longrightarrow> ns_used (t n) \<noteq> 0"
  by (cases d) auto

lemma chain_ok_bound: "chain_ok t d n \<Longrightarrow> n < NUMNS"
  by (cases d) auto

lemma chain_ok_SucE:
  assumes "chain_ok t (Suc d) n"
  obtains m where "ns_parent (t n) = Some m" "chain_ok t d m"
  using assms by (auto split: option.splits)

lemma anc_self [simp]: "anc t d n d = n"
  by (cases d) auto

lemma chain_ok_anc: "chain_ok t d n \<Longrightarrow> k \<le> d \<Longrightarrow> chain_ok t k (anc t d n k)"
proof (induction d arbitrary: n)
  case (Suc d)
  then obtain m where m: "ns_parent (t n) = Some m" "chain_ok t d m" by (elim chain_ok_SucE)
  show ?case
  proof (cases "k = Suc d")
    case True
    then show ?thesis using Suc.prems(1) by simp
  next
    case False
    then show ?thesis using Suc.IH [OF m(2)] Suc.prems(2) m(1) by simp
  qed
qed simp

lemma anc_inj: "chain_ok t d n \<Longrightarrow> j \<le> d \<Longrightarrow> k \<le> d \<Longrightarrow> anc t d n j = anc t d n k \<longleftrightarrow> j = k"
  by (metis chain_ok_anc chain_ok_depth)

lemma anc_parent: "chain_ok t (Suc d) n \<Longrightarrow> ns_parent (t n) = Some m \<Longrightarrow> k \<le> d \<Longrightarrow> anc t (Suc d) n k = anc t d m k"
  by simp

lemma ancs_Suc:
  assumes "chain_ok t (Suc d) n" "ns_parent (t n) = Some m"
  shows "ancs t (Suc d) n = insert n (ancs t d m)"
proof -
  have "anc t (Suc d) n ` {..d} = anc t d m ` {..d}"
    using assms by (intro image_cong refl) auto
  then show ?thesis by (simp add: ancs_def atMost_Suc del: anc.simps)
qed

lemma ancs_0 [simp]: "ancs t 0 n = {n}"
  by (simp add: ancs_def)

lemma ancs_used: "chain_ok t d n \<Longrightarrow> m \<in> ancs t d n \<Longrightarrow> ns_used (t m) \<noteq> 0"
  by (auto simp: ancs_def dest: chain_ok_anc chain_ok_used)

lemma self_in_ancs: "n \<in> ancs t d n"
  by (auto simp: ancs_def intro!: image_eqI [where x = d])

text \<open>What every operation of the kernel does to the table: namespaces in use stay where they are.\<close>

definition ns_ext :: "(nat \<Rightarrow> namespace) \<Rightarrow> (nat \<Rightarrow> namespace) \<Rightarrow> bool" where
  "ns_ext t t' \<longleftrightarrow> (\<forall>m. ns_used (t m) \<noteq> 0 \<longrightarrow> ns_used (t' m) \<noteq> 0 \<and> ns_parent (t' m) = ns_parent (t m)
     \<and> ns_depth (t' m) = ns_depth (t m) \<and> next_ns_pid (t m) \<le> next_ns_pid (t' m))"

lemma ns_ext_refl [simp, intro]: "ns_ext t t"
  by (simp add: ns_ext_def)

lemma ns_ext_trans: "ns_ext t u \<Longrightarrow> ns_ext u v \<Longrightarrow> ns_ext t v"
  unfolding ns_ext_def by (metis order_trans)

lemma chain_ok_ext: "ns_ext t t' \<Longrightarrow> chain_ok t d n \<Longrightarrow> chain_ok t' d n"
  by (induction d arbitrary: n) (auto simp: ns_ext_def split: option.splits)

lemma anc_ext: "ns_ext t t' \<Longrightarrow> chain_ok t d n \<Longrightarrow> anc t' d n k = anc t d n k"
  by (induction d arbitrary: n) (auto simp: ns_ext_def split: option.splits)

lemma ancs_ext: "ns_ext t t' \<Longrightarrow> chain_ok t d n \<Longrightarrow> ancs t' d n = ancs t d n"
  unfolding ancs_def by (intro image_cong) (auto simp: anc_ext)

section \<open>The two loops over the tree\<close>

lemma compare_ns_from_chain: "chain_ok t d n \<Longrightarrow> compare_ns_from t (Some n) (Some m) = Some (m \<in> ancs t d n)"
proof (induction d arbitrary: n)
  case 0
  then show ?case by (simp add: compare_ns_from.simps)
next
  case (Suc d)
  then obtain q where q: "ns_parent (t n) = Some q" "chain_ok t d q" by (elim chain_ok_SucE)
  then show ?case
    by (subst compare_ns_from.simps) (auto simp: Suc.IH [OF q(2)] ancs_Suc [OF Suc.prems q(1)])
qed

text \<open>The head that \<open>get_ns_head\<close> looks for: the nearest one on the way to the root.\<close>

primrec nearest_head :: "(nat \<Rightarrow> namespace) \<Rightarrow> nat \<Rightarrow> nat \<Rightarrow> nat option" where
  "nearest_head t 0 n = ns_head (t n)"
| "nearest_head t (Suc d) n = (case ns_head (t n) of Some h \<Rightarrow> Some h
     | None \<Rightarrow> (case ns_parent (t n) of None \<Rightarrow> None | Some m \<Rightarrow> nearest_head t d m))"

lemma get_ns_head_from_chain: "chain_ok t d n \<Longrightarrow> get_ns_head_from t n = Some (Some (nearest_head t d n))"
proof (induction d arbitrary: n)
  case (Suc d)
  then obtain q where q: "ns_parent (t n) = Some q" "chain_ok t d q" by (elim chain_ok_SucE)
  then show ?case using Suc.prems
    by (subst get_ns_head_from.simps) (auto simp: Suc.IH [OF q(2)] split: option.splits)
qed (subst get_ns_head_from.simps, simp)

section \<open>The invariant\<close>

definition proc_ok :: "(nat \<Rightarrow> namespace) \<Rightarrow> proc \<Rightarrow> bool" where
  "proc_ok t x \<longleftrightarrow> (\<forall>n. p_ns x = Some n \<longrightarrow>
     ns_depth (t n) < MAXDEPTH \<and> chain_ok t (ns_depth (t n)) n
     \<and> (\<forall>k \<le> ns_depth (t n). 1 \<le> p_pids x k \<and> p_pids x k < next_ns_pid (t (anc t (ns_depth (t n)) n k))))"

definition pids_apart :: "(nat \<Rightarrow> namespace) \<Rightarrow> proc \<Rightarrow> proc \<Rightarrow> bool" where
  "pids_apart t x y \<longleftrightarrow> (\<forall>n m k. p_ns x = Some n \<longrightarrow> p_ns y = Some m \<longrightarrow> k \<le> ns_depth (t n) \<longrightarrow> k \<le> ns_depth (t m)
     \<longrightarrow> anc t (ns_depth (t n)) n k = anc t (ns_depth (t m)) m k \<longrightarrow> p_pids x k \<noteq> p_pids y k)"

definition ns_inv :: "kstate \<Rightarrow> bool" where
  "ns_inv s \<longleftrightarrow>
     (\<forall>p. proc_ok (namespaces s) (procs s p))
     \<and> (\<forall>p q. p \<noteq> q \<longrightarrow> pids_apart (namespaces s) (procs s p) (procs s q))
     \<and> (\<forall>n. ns_used (namespaces s n) \<noteq> 0 \<longrightarrow> 1 \<le> next_ns_pid (namespaces s n))
     \<and> 1 \<le> nextpid s
     \<and> (\<forall>p. 0 \<le> p_pid (procs s p) \<and> p_pid (procs s p) < nextpid s)
     \<and> (\<forall>p q. p \<noteq> q \<longrightarrow> p_pid (procs s p) = p_pid (procs s q) \<longrightarrow> p_pid (procs s p) = 0)
     \<and> (\<forall>p. p_ns (procs s p) \<noteq> None \<longrightarrow> p_pid (procs s p) \<noteq> 0)
     \<and> (\<forall>p. p_parent (procs s p) \<noteq> None \<longrightarrow> p_ns (procs s p) \<noteq> None)
     \<and> (\<forall>p. p_state (procs s p) = UNUSED \<longrightarrow> p_ns (procs s p) = None)"

lemma ns_invD:
  assumes "ns_inv s"
  shows "proc_ok (namespaces s) (procs s p)" "p \<noteq> q \<Longrightarrow> pids_apart (namespaces s) (procs s p) (procs s q)"
    "ns_used (namespaces s n) \<noteq> 0 \<Longrightarrow> 1 \<le> next_ns_pid (namespaces s n)" "1 \<le> nextpid s"
    "0 \<le> p_pid (procs s p)" "p_pid (procs s p) < nextpid s"
    "p \<noteq> q \<Longrightarrow> p_pid (procs s p) = p_pid (procs s q) \<Longrightarrow> p_pid (procs s p) = 0"
    "p_ns (procs s p) \<noteq> None \<Longrightarrow> p_pid (procs s p) \<noteq> 0"
    "p_parent (procs s p) \<noteq> None \<Longrightarrow> p_ns (procs s p) \<noteq> None"
    "p_state (procs s p) = UNUSED \<Longrightarrow> p_ns (procs s p) = None"
  using assms unfolding ns_inv_def by blast+

lemma ns_inv_chain:
  assumes "ns_inv s" "p_ns (procs s p) = Some n"
  shows "chain_ok (namespaces s) (ns_depth (namespaces s n)) n" "ns_depth (namespaces s n) < MAXDEPTH"
  using ns_invD(1) [OF assms(1), of p] assms(2) by (auto simp: proc_ok_def)

lemma coreD:
  assumes "core t = core s"
  shows "p_ns (procs t p) = p_ns (procs s p)" "p_pids (procs t p) = p_pids (procs s p)"
    "p_parent (procs t p) = p_parent (procs s p)" "p_pid (procs t p) = p_pid (procs s p)"
    "namespaces t = namespaces s" "nextpid t = nextpid s" "nextnamespace t = nextnamespace s"
    "initproc t = initproc s" "initnamespace t = initnamespace s"
  using assms by (auto simp: core_def pcore_def fun_eq_iff)

lemma proc_ok_cong: "p_ns y = p_ns x \<Longrightarrow> p_pids y = p_pids x \<Longrightarrow> proc_ok t y = proc_ok t x"
  by (simp add: proc_ok_def)

lemma pids_apart_cong:
  "p_ns x' = p_ns x \<Longrightarrow> p_pids x' = p_pids x \<Longrightarrow> p_ns y' = p_ns y \<Longrightarrow> p_pids y' = p_pids y
   \<Longrightarrow> pids_apart t x' y' = pids_apart t x y"
  by (simp add: pids_apart_def)

lemma pids_apart_sym: "pids_apart t x y \<Longrightarrow> pids_apart t y x"
  unfolding pids_apart_def by metis

lemma ns_inv_kept:
  assumes k: "kept s t" and i: "ns_inv s"
  shows "ns_inv t"
proof -
  note c = coreD [OF conjunct1 [OF k [unfolded kept_def]]]
  have po: "proc_ok T (procs t p) = proc_ok T (procs s p)" for T p
    by (rule proc_ok_cong) (simp_all add: c)
  have pa: "pids_apart T (procs t p) (procs t q) = pids_apart T (procs s p) (procs s q)" for T p q
    by (rule pids_apart_cong) (simp_all add: c)
  have "\<forall>p. p_state (procs t p) = UNUSED \<longrightarrow> p_ns (procs s p) = None"
    using k ns_invD(10) [OF i] by (simp add: kept_def)
  then show ?thesis
    using i unfolding ns_inv_def c po pa by blast
qed

subsection \<open>Growing the table\<close>

lemma proc_ok_ext: "ns_ext t t' \<Longrightarrow> proc_ok t x \<Longrightarrow> proc_ok t' x"
  unfolding proc_ok_def
proof (intro allI impI)
  fix n
  assume e: "ns_ext t t'" and ok: "\<forall>n. p_ns x = Some n \<longrightarrow> ns_depth (t n) < MAXDEPTH \<and> chain_ok t (ns_depth (t n)) n
     \<and> (\<forall>k \<le> ns_depth (t n). 1 \<le> p_pids x k \<and> p_pids x k < next_ns_pid (t (anc t (ns_depth (t n)) n k)))"
    and n: "p_ns x = Some n"
  let ?d = "ns_depth (t n)"
  have c: "chain_ok t ?d n" using ok n by blast
  then have d: "ns_depth (t' n) = ?d" using chain_ok_depth [OF chain_ok_ext [OF e c]] by simp
  have "p_pids x k < next_ns_pid (t' (anc t ?d n k))" if "k \<le> ?d" for k
  proof -
    have "p_pids x k < next_ns_pid (t (anc t ?d n k))" using ok n that by blast
    also have "\<dots> \<le> next_ns_pid (t' (anc t ?d n k))"
      using e chain_ok_used [OF chain_ok_anc [OF c that]] by (simp add: ns_ext_def)
    finally show ?thesis .
  qed
  then show "ns_depth (t' n) < MAXDEPTH \<and> chain_ok t' (ns_depth (t' n)) n \<and>
     (\<forall>k \<le> ns_depth (t' n). 1 \<le> p_pids x k \<and> p_pids x k < next_ns_pid (t' (anc t' (ns_depth (t' n)) n k)))"
    using ok n c d chain_ok_ext [OF e c] by (simp add: anc_ext [OF e c])
qed

lemma pids_apart_ext: "ns_ext t t' \<Longrightarrow> proc_ok t x \<Longrightarrow> proc_ok t y \<Longrightarrow> pids_apart t x y \<Longrightarrow> pids_apart t' x y"
  unfolding pids_apart_def
proof (intro allI impI)
  fix n m k
  assume e: "ns_ext t t'" and ok: "proc_ok t x" "proc_ok t y" and n: "p_ns x = Some n" and m: "p_ns y = Some m"
    and ap: "\<forall>n m k. p_ns x = Some n \<longrightarrow> p_ns y = Some m \<longrightarrow> k \<le> ns_depth (t n) \<longrightarrow> k \<le> ns_depth (t m)
     \<longrightarrow> anc t (ns_depth (t n)) n k = anc t (ns_depth (t m)) m k \<longrightarrow> p_pids x k \<noteq> p_pids y k"
    and k: "k \<le> ns_depth (t' n)" "k \<le> ns_depth (t' m)" "anc t' (ns_depth (t' n)) n k = anc t' (ns_depth (t' m)) m k"
  have c: "chain_ok t (ns_depth (t n)) n" "chain_ok t (ns_depth (t m)) m" using ok n m by (auto simp: proc_ok_def)
  have "ns_depth (t' n) = ns_depth (t n)" "ns_depth (t' m) = ns_depth (t m)"
    using chain_ok_depth [OF chain_ok_ext [OF e]] c by auto
  then show "p_pids x k \<noteq> p_pids y k" using ap n m k by (simp add: anc_ext [OF e] c)
qed

lemma ns_inv_ext:
  assumes i: "ns_inv s" and e: "ns_ext (namespaces s) (namespaces t)"
    and nx: "\<And>n. ns_used (namespaces t n) \<noteq> 0 \<Longrightarrow> 1 \<le> next_ns_pid (namespaces t n)"
    and same: "procs t = procs s" "nextpid t = nextpid s"
  shows "ns_inv t"
proof -
  have "proc_ok (namespaces t) (procs s p)" for p
    by (rule proc_ok_ext [OF e ns_invD(1) [OF i]])
  moreover have "p \<noteq> q \<Longrightarrow> pids_apart (namespaces t) (procs s p) (procs s q)" for p q
    by (rule pids_apart_ext [OF e ns_invD(1) [OF i] ns_invD(1) [OF i] ns_invD(2) [OF i]])
  ultimately show ?thesis
    using i nx unfolding ns_inv_def same by blast
qed

subsection \<open>Changing one process\<close>

text \<open>An update that keeps the identity of a process.\<close>

lemma ns_inv_upd_same:
  assumes i: "ns_inv s"
    and f: "p_ns (f (procs s p)) = p_ns (procs s p)" "p_pids (f (procs s p)) = p_pids (procs s p)"
      "p_pid (f (procs s p)) = p_pid (procs s p)"
    and par: "p_parent (f (procs s p)) \<noteq> None \<Longrightarrow> p_ns (procs s p) \<noteq> None"
    and st: "p_state (f (procs s p)) = UNUSED \<Longrightarrow> p_ns (procs s p) = None"
  shows "ns_inv (upd_proc p f s)"
proof -
  let ?t = "upd_proc p f s"
  have c: "p_ns (procs ?t q) = p_ns (procs s q)" "p_pids (procs ?t q) = p_pids (procs s q)"
    "p_pid (procs ?t q) = p_pid (procs s q)" for q
    by (simp_all add: f)
  have po: "proc_ok T (procs ?t q) = proc_ok T (procs s q)" for T q
    by (rule proc_ok_cong) (simp_all add: f)
  have pa: "pids_apart T (procs ?t q) (procs ?t r) = pids_apart T (procs s q) (procs s r)" for T q r
    by (rule pids_apart_cong) (simp_all add: f)
  have "\<forall>q. p_parent (procs ?t q) \<noteq> None \<longrightarrow> p_ns (procs s q) \<noteq> None" using par ns_invD(9) [OF i] by simp
  moreover have "\<forall>q. p_state (procs ?t q) = UNUSED \<longrightarrow> p_ns (procs s q) = None" using st ns_invD(10) [OF i] by simp
  ultimately show ?thesis
    using i unfolding ns_inv_def c po pa upd_proc_frame by blast
qed

text \<open>A process slot that is given back.\<close>

lemma ns_inv_upd_freed:
  assumes i: "ns_inv s" and f: "p_ns (f (procs s p)) = None" "p_pid (f (procs s p)) = 0" "p_parent (f (procs s p)) = None"
  shows "ns_inv (upd_proc p f s)"
proof -
  let ?t = "upd_proc p f s"
  have po: "proc_ok (namespaces s) (procs ?t q)" for q
    using ns_invD(1) [OF i, of q] by (simp add: proc_ok_def f)
  have pa: "q \<noteq> r \<Longrightarrow> pids_apart (namespaces s) (procs ?t q) (procs ?t r)" for q r
    using ns_invD(2) [OF i, of q r] by (auto simp: pids_apart_def f)
  have "0 \<le> p_pid (procs ?t q) \<and> p_pid (procs ?t q) < nextpid s" for q
    using ns_invD(4-6) [OF i] by (simp add: f order_less_le_trans [OF zero_less_one])
  moreover have "q \<noteq> r \<Longrightarrow> p_pid (procs ?t q) = p_pid (procs ?t r) \<Longrightarrow> p_pid (procs ?t q) = 0" for q r
    using ns_invD(7) [OF i, of q r] by (auto simp: f split: if_splits)
  moreover have "p_ns (procs ?t q) \<noteq> None \<Longrightarrow> p_pid (procs ?t q) \<noteq> 0"
    "p_parent (procs ?t q) \<noteq> None \<Longrightarrow> p_ns (procs ?t q) \<noteq> None"
    "p_state (procs ?t q) = UNUSED \<Longrightarrow> p_ns (procs ?t q) = None" for q
    using ns_invD(8-10) [OF i, of q] by (auto simp: f split: if_splits)
  ultimately show ?thesis
    using po pa ns_invD(3,4) [OF i] unfolding ns_inv_def upd_proc_frame by blast
qed

text \<open>A new process in namespace \<open>n\<close>: every namespace of its chain hands out its next id.\<close>

definition bump :: "(nat \<Rightarrow> namespace) \<Rightarrow> nat set \<Rightarrow> nat \<Rightarrow> namespace" where
  "bump t A = (\<lambda>m. if m \<in> A then (t m)\<lparr>next_ns_pid := next_ns_pid (t m) + 1, num_proc := num_proc (t m) + 1\<rparr> else t m)"

lemma bump_sel [simp]:
  "ns_used (bump t A m) = ns_used (t m)" "ns_parent (bump t A m) = ns_parent (t m)" "ns_depth (bump t A m) = ns_depth (t m)"
  "ns_head (bump t A m) = ns_head (t m)" "ns_id (bump t A m) = ns_id (t m)"
  "next_ns_pid (bump t A m) = next_ns_pid (t m) + (if m \<in> A then 1 else 0)"
  "num_proc (bump t A m) = num_proc (t m) + (if m \<in> A then 1 else 0)"
  by (simp_all add: bump_def)

lemma ns_ext_bump: "ns_ext t (bump t A)"
  by (simp add: ns_ext_def)

lemma ns_inv_alloc:
  assumes i: "ns_inv s" and free: "p_ns (procs s p) = None"
    and ch: "chain_ok (namespaces s) d n" "d < MAXDEPTH"
    and t: "namespaces t = bump (namespaces s) (ancs (namespaces s) d n)" "procs t = (procs s)(p := y)"
      "nextpid t = nextpid s + 1"
    and y: "p_ns y = Some n" "\<And>k. k \<le> d \<Longrightarrow> p_pids y k = next_ns_pid (namespaces s (anc (namespaces s) d n k))"
      "p_pid y = nextpid s" "p_state y \<noteq> UNUSED"
  shows "ns_inv t"
proof -
  let ?T = "namespaces s" and ?T' = "namespaces t"
  have e: "ns_ext ?T ?T'" by (simp add: t ns_ext_bump)
  have d: "ns_depth (?T n) = d" "ns_depth (?T' n) = d" using chain_ok_depth [OF ch(1)] by (simp_all add: t)
  have an: "anc ?T' d n k = anc ?T d n k" for k by (rule anc_ext [OF e ch(1)])
  have oky: "proc_ok ?T' y"
    using chain_ok_ext [OF e ch(1)] ch(2) d an y(1,2) ns_invD(3) [OF i] chain_ok_used [OF chain_ok_anc [OF ch(1)]]
    by (auto simp: proc_ok_def t ancs_def)
  have okq: "proc_ok ?T' (procs s q)" for q by (rule proc_ok_ext [OF e ns_invD(1) [OF i]])
  have apy: "pids_apart ?T' y (procs s q)" for q
    unfolding pids_apart_def
  proof (intro allI impI)
    fix n' m k
    assume a: "p_ns y = Some n'" "p_ns (procs s q) = Some m" "k \<le> ns_depth (?T' n')" "k \<le> ns_depth (?T' m)"
      "anc ?T' (ns_depth (?T' n')) n' k = anc ?T' (ns_depth (?T' m)) m k"
    have n': "n' = n" using a(1) y(1) by simp
    have chm: "chain_ok ?T (ns_depth (?T m)) m" using ns_inv_chain [OF i a(2)] by simp
    have dm: "ns_depth (?T' m) = ns_depth (?T m)" by (simp add: t)
    have "p_pids (procs s q) k < next_ns_pid (?T (anc ?T (ns_depth (?T m)) m k))"
      using ns_invD(1) [OF i, of q] a(2,4) by (simp add: proc_ok_def dm)
    moreover have "anc ?T (ns_depth (?T m)) m k = anc ?T d n k"
      using a(5) an anc_ext [OF e chm] by (simp add: n' d dm)
    ultimately show "p_pids y k \<noteq> p_pids (procs s q) k"
      using y(2) [of k] a(3) by (simp add: n' d)
  qed
  have apq: "q \<noteq> r \<Longrightarrow> pids_apart ?T' (procs s q) (procs s r)" for q r
    by (rule pids_apart_ext [OF e ns_invD(1) [OF i] ns_invD(1) [OF i] ns_invD(2) [OF i]])
  have "proc_ok ?T' (procs t q)" for q using oky okq by (simp add: t)
  moreover have "q \<noteq> r \<Longrightarrow> pids_apart ?T' (procs t q) (procs t r)" for q r
    using apy apq pids_apart_sym [OF apy] by (simp add: t)
  moreover have "ns_used (?T' m) \<noteq> 0 \<Longrightarrow> 1 \<le> next_ns_pid (?T' m)" for m using ns_invD(3) [OF i, of m] by (simp add: t)
  moreover have "1 \<le> nextpid t" "0 \<le> p_pid (procs t q) \<and> p_pid (procs t q) < nextpid t" for q
    using ns_invD(4) [OF i] ns_invD(5,6) [OF i, of q] y(3) by (simp_all add: t)
  moreover have "q \<noteq> r \<Longrightarrow> p_pid (procs t q) = p_pid (procs t r) \<Longrightarrow> p_pid (procs t q) = 0" for q r
    using ns_invD(7) [OF i, of q r] ns_invD(6) [OF i, of q] ns_invD(6) [OF i, of r] y(3) by (auto simp: t split: if_splits)
  moreover have "p_ns (procs t q) \<noteq> None \<Longrightarrow> p_pid (procs t q) \<noteq> 0" "p_parent (procs t q) \<noteq> None \<Longrightarrow> p_ns (procs t q) \<noteq> None"
    "p_state (procs t q) = UNUSED \<Longrightarrow> p_ns (procs t q) = None" for q
    using ns_invD(8-10) [OF i, of q] ns_invD(4) [OF i] y by (auto simp: t split: if_splits)
  ultimately show ?thesis unfolding ns_inv_def by blast
qed

section \<open>What the operations do\<close>

text \<open>
  The part of the state that these operations change, up to the process table's other fields, and the
  rule for the operations in between that leave it alone and do not block.
\<close>

definition pn :: "kstate \<Rightarrow> _" where
  "pn s = (procs s, namespaces s, nextpid s, nextnamespace s, initproc s, initnamespace s)"

abbreviation (input) blocks_not :: "exn \<Rightarrow> kstate \<Rightarrow> bool" where
  "blocks_not \<equiv> \<lambda>e _. e \<noteq> Switch"

definition same_ids :: "kstate \<Rightarrow> kstate \<Rightarrow> bool" where
  "same_ids s t \<longleftrightarrow> initproc t = initproc s \<and> initnamespace t = initnamespace s"

lemma wp_pn:
  assumes "nosw m" "unch pn m"
    and "\<And>a t. procs t = procs s \<Longrightarrow> namespaces t = namespaces s \<Longrightarrow> nextpid t = nextpid s \<Longrightarrow>
      nextnamespace t = nextnamespace s \<Longrightarrow> initproc t = initproc s \<Longrightarrow> initnamespace t = initnamespace s \<Longrightarrow> Q a t"
  shows "wp m Q blocks_not s"
  using assms unfolding wp_def nosw_def unch_def pn_def
  by (auto split: prod.splits res.splits) (metis fst_conv snd_conv)+

lemma mem_blind_pn [simp, unch_rules]: "mem_blind pn"
  by (simp add: mem_blind_def pn_def)

lemma pn_lk [unch_rules]: "unch pn (acquire l)" "unch pn (release l)" "unch pn myproc"
  by (rule unch_lk_ops, simp add: pn_def)+

lemma pn_mem [unch_rules]:
  "unch pn (kfree pa)" "unch pn kalloc"
  "unch pn (mappages pt va sz pa perm)" "unch pn (uvmunmap pt va n df)" "unch pn uvmcreate" "unch pn (uvmfree pt sz)"
  "unch pn (uvmcopy old new sz)" "unch pn (modmem g)"
  by (rule unch_kmem unch_mappages unch_uvmunmap unch_uvmcreate unch_uvmcopy unch_uvmfree unch_modmem, simp)+

lemma pn_uptime [unch_rules]: "unch pn sys_uptime"
  unfolding sys_uptime_def by (intro unch_rules)

lemma pn_proc_pagetable [unch_rules]: "unch pn (proc_pagetable p)" "unch pn (proc_freepagetable pt sz)"
  unfolding proc_pagetable_def proc_freepagetable_def by (intro unch_rules)+

lemma nosw_proc_pagetable [nosw_rules]: "nosw (proc_pagetable p)" "nosw (proc_freepagetable pt sz)"
  unfolding proc_pagetable_def proc_freepagetable_def by (intro nosw_split nosw_rules)+

lemma pn_dups [unch_rules]: "unch pn (filedup f)" "unch pn (idup mip)"
  unfolding filedup_def idup_def by (intro unch_rules; simp add: pn_def)+

lemmas wp_acquire = wp_pn [OF nosw_locks(1) pn_lk(1)]
lemmas wp_release = wp_pn [OF nosw_locks(2) pn_lk(2)]
lemmas wp_uptime = wp_pn [OF nosw_sys_uptime pn_uptime]

lemma wp_assign_pid:
  assumes i: "i < MAXDEPTH"
    and Q: "\<And>u t. procs t = (procs s)(p := (procs s p)\<lparr>p_pids := (p_pids (procs s p))(i := next_ns_pid (namespaces s n))\<rparr>) \<Longrightarrow>
      namespaces t = bump (namespaces s) {n} \<Longrightarrow> nextpid t = nextpid s \<Longrightarrow> nextnamespace t = nextnamespace s \<Longrightarrow>
      same_ids s t \<Longrightarrow> Q u t"
  shows "wp (assign_pid p i n) Q blocks_not s"
  unfolding assign_pid_def wp_kthen wp_kbind
  apply (rule wp_acquire)
  apply (simp add: not_le [THEN iffD2, OF i])
  apply (rule wp_release)
  apply (rule Q)
      apply (simp_all add: upd_proc_def upd_ns_def fun_eq_iff bump_def same_ids_def)
  done

lemma wp_assign_pids:
  assumes "chain_ok (namespaces s) d n" "d < MAXDEPTH"
    and "\<And>u t. procs t = (procs s)(p := (procs s p)\<lparr>p_pids := (\<lambda>k. if k \<le> d then
        next_ns_pid (namespaces s (anc (namespaces s) d n k)) else p_pids (procs s p) k)\<rparr>) \<Longrightarrow>
      namespaces t = bump (namespaces s) (ancs (namespaces s) d n) \<Longrightarrow> nextpid t = nextpid s \<Longrightarrow>
      nextnamespace t = nextnamespace s \<Longrightarrow> same_ids s t \<Longrightarrow> Q u t"
  shows "wp (assign_pids p d (Some n)) Q blocks_not s"
  using assms
proof (induction d arbitrary: s n)
  case 0
  show ?case
    unfolding assign_pids.simps kderef_Some kbind_kret
    by (rule wp_assign_pid) (use 0 in \<open>auto simp: fun_eq_iff\<close>)
next
  case (Suc d)
  let ?T = "namespaces s"
  obtain m where m: "ns_parent (?T n) = Some m" "chain_ok ?T d m" using Suc.prems(1) by (rule chain_ok_SucE)
  show ?case
    unfolding assign_pids.simps kderef_Some kbind_kret wp_kthen wp_kbind
  proof (rule wp_assign_pid)
    show "Suc d < MAXDEPTH" by fact
  next
    fix s1 and u :: unit
    assume s1: "procs s1 = (procs s)(p := (procs s p)\<lparr>p_pids := (p_pids (procs s p))(Suc d := next_ns_pid (?T n))\<rparr>)"
      "namespaces s1 = bump ?T {n}" "nextpid s1 = nextpid s" "nextnamespace s1 = nextnamespace s" "same_ids s s1"
    have par: "ns_parent (namespaces s1 n) = Some m" by (simp add: s1 m)
    have ch: "chain_ok (namespaces s1) d m" using chain_ok_ext [OF ns_ext_bump m(2)] by (simp add: s1)
    have an: "anc (bump ?T {n}) d m k = anc ?T d m k" for k
      by (rule anc_ext [OF ns_ext_bump m(2)])
    have "n \<notin> ancs ?T d m"
      using chain_ok_depth [OF Suc.prems(1)] chain_ok_depth [OF chain_ok_anc [OF m(2)]] by (force simp: ancs_def)
    then have nn: "anc ?T d m k \<noteq> n" if "k \<le> d" for k using that by (auto simp: ancs_def)
    have as: "bump (bump ?T {n}) (ancs ?T d m) = bump ?T (ancs ?T (Suc d) n)"
      using \<open>n \<notin> ancs ?T d m\<close> by (auto simp: ancs_Suc [OF Suc.prems(1) m(1)] bump_def fun_eq_iff)
    show "wp (kget (\<lambda>s. ns_parent (namespaces s n))) (\<lambda>up. wp (assign_pids p d up) Q blocks_not) blocks_not s1"
      unfolding wp_kget par
    proof (rule Suc.IH [OF ch])
      show "d < MAXDEPTH" using Suc.prems(2) by simp
    next
      fix t and u :: unit
      assume t: "procs t = (procs s1)(p := (procs s1 p)\<lparr>p_pids := (\<lambda>k. if k \<le> d then
          next_ns_pid (namespaces s1 (anc (namespaces s1) d m k)) else p_pids (procs s1 p) k)\<rparr>)"
        "namespaces t = bump (namespaces s1) (ancs (namespaces s1) d m)" "nextpid t = nextpid s1"
        "nextnamespace t = nextnamespace s1" "same_ids s1 t"
      show "Q u t"
      proof (rule Suc.prems(3))
        have "(\<lambda>k. if k \<le> d then next_ns_pid (namespaces s1 (anc (namespaces s1) d m k)) else p_pids (procs s1 p) k)
          = (\<lambda>k. if k \<le> Suc d then next_ns_pid (?T (anc ?T (Suc d) n k)) else p_pids (procs s p) k)"
          using nn m(1) by (auto simp: an s1 fun_eq_iff le_Suc_eq)
        then show "procs t = (procs s)(p := (procs s p)\<lparr>p_pids := (\<lambda>k. if k \<le> Suc d then
            next_ns_pid (?T (anc ?T (Suc d) n k)) else p_pids (procs s p) k)\<rparr>)"
          by (simp add: t(1) s1(1))
        show "namespaces t = bump ?T (ancs ?T (Suc d) n)"
          using as ancs_ext [OF ns_ext_bump m(2)] by (simp add: t(2) s1(2))
        show "nextpid t = nextpid s" "nextnamespace t = nextnamespace s" "same_ids s t"
          using t s1 by (simp_all add: same_ids_def)
      qed
    qed
  qed
qed

subsection \<open>freeproc\<close>


definition only_proc :: "nat \<Rightarrow> kstate \<Rightarrow> kstate \<Rightarrow> bool" where
  "only_proc p s t \<longleftrightarrow> (\<forall>q. q \<noteq> p \<longrightarrow> procs t q = procs s q)"

definition freed :: "nat \<Rightarrow> kstate \<Rightarrow> kstate \<Rightarrow> bool" where
  "freed p s t \<longleftrightarrow> only_proc p s t \<and> p_state (procs t p) = UNUSED \<and> p_ns (procs t p) = None \<and> p_pid (procs t p) = 0
     \<and> p_parent (procs t p) = None \<and> (\<forall>k < MAXDEPTH. p_pids (procs t p) k = 0)
     \<and> namespaces t = namespaces s \<and> nextpid t = nextpid s \<and> nextnamespace t = nextnamespace s \<and> same_ids s t"

lemma only_proc_upd: "only_proc p s t \<Longrightarrow> procs t = (procs s)(p := procs t p)"
  by (auto simp: only_proc_def fun_eq_iff)

lemma wp_freeproc:
  assumes "\<And>u t. freed p s t \<Longrightarrow> Q u t"
  shows "wp (freeproc p) Q blocks_not s"
  unfolding freeproc_def wp_kthen wp_kbind
  apply simp
  apply (rule wp_pn, intro nosw_split nosw_rules, intro unch_rules)
  apply (simp add: case_prod_beta)
  apply (rule wp_pn, intro nosw_split nosw_rules, intro unch_rules)
  apply simp
  apply (rule wp_uptime)
  apply (simp add: kwhen_def wp_if split del: if_split cong: if_cong)
  apply (rule conjI [THEN if_split [THEN iffD2]])
   apply (intro impI)
   apply (rule wp_uptime)
   apply (simp, rule assms, simp add: freed_def only_proc_def same_ids_def)
  apply (intro impI)
  apply (rule assms, simp add: freed_def only_proc_def same_ids_def)
  done

lemma ns_inv_cong: "procs t = procs s \<Longrightarrow> namespaces t = namespaces s \<Longrightarrow> nextpid t = nextpid s \<Longrightarrow> ns_inv t = ns_inv s"
  by (simp add: ns_inv_def)

lemma ns_inv_freed:
  assumes "ns_inv s" "freed p s t"
  shows "ns_inv t"
proof -
  let ?f = "\<lambda>_. procs t p"
  have "ns_inv (upd_proc p ?f s)"
    by (rule ns_inv_upd_freed [OF assms(1)]) (use assms(2) in \<open>simp_all add: freed_def\<close>)
  moreover have "procs (upd_proc p ?f s) = procs t"
    using assms(2) by (auto simp: freed_def only_proc_def fun_eq_iff)
  ultimately show ?thesis
    using assms(2) ns_inv_cong [of t "upd_proc p ?f s"] by (simp add: freed_def)
qed

subsection \<open>allocproc\<close>

text \<open>\<open>p\<close> has become a process of namespace \<open>n\<close> at depth \<open>d\<close>.\<close>

definition allocated :: "nat \<Rightarrow> nat \<Rightarrow> nat \<Rightarrow> kstate \<Rightarrow> kstate \<Rightarrow> bool" where
  "allocated p d n s t \<longleftrightarrow> p < NPROC \<and> p_state (procs s p) = UNUSED \<and> only_proc p s t
     \<and> p_state (procs t p) = USED \<and> p_ns (procs t p) = Some n \<and> p_pid (procs t p) = nextpid s
     \<and> p_parent (procs t p) = p_parent (procs s p)
     \<and> (\<forall>k \<le> d. p_pids (procs t p) k = next_ns_pid (namespaces s (anc (namespaces s) d n k)))
     \<and> namespaces t = bump (namespaces s) (ancs (namespaces s) d n)
     \<and> nextpid t = nextpid s + 1 \<and> nextnamespace t = nextnamespace s \<and> same_ids s t"

text \<open>
  No process has been allocated: the table is full, or memory ran out after the ids had been handed
  out, which are then lost.
\<close>

definition alloc_failed :: "nat \<Rightarrow> nat \<Rightarrow> kstate \<Rightarrow> kstate \<Rightarrow> bool" where
  "alloc_failed d n s t \<longleftrightarrow> pn t = pn s \<or> (\<exists>p t'. allocated p d n s t' \<and> freed p t' t)"

lemma wp_allocproc_find:
  assumes "\<And>r t. pn t = pn s \<Longrightarrow> (case r of None \<Rightarrow> True | Some p \<Rightarrow> p \<in> set ps \<and> p_state (procs s p) = UNUSED) \<Longrightarrow> Q r t"
  shows "wp (allocproc_find ps) Q blocks_not s"
  using assms
proof (induction ps arbitrary: s)
  case Nil
  show ?case unfolding allocproc_find.simps wp_kret by (rule Nil) simp_all
next
  case (Cons p ps)
  show ?case
    unfolding allocproc_find.simps wp_kthen wp_kbind
    apply (rule wp_acquire)
    apply (simp add: wp_if)
    apply (intro conjI impI)
     apply (rule Cons.prems; simp add: pn_def)
    apply (rule wp_release)
    apply (rule Cons.IH)
    apply (rule Cons.prems; simp add: pn_def split: option.splits)
    done
qed

lemma wp_allocpid:
  assumes "\<And>t. procs t = procs s \<Longrightarrow> namespaces t = namespaces s \<Longrightarrow> nextpid t = nextpid s + 1 \<Longrightarrow>
      nextnamespace t = nextnamespace s \<Longrightarrow> initproc t = initproc s \<Longrightarrow> initnamespace t = initnamespace s \<Longrightarrow> Q (nextpid s) t"
  shows "wp allocpid Q blocks_not s"
  unfolding allocpid_def wp_kthen wp_kbind
  apply (rule wp_acquire)
  apply simp
  apply (rule wp_release)
  apply (simp add: assms)
  done

lemma wp_allocated:
  assumes "nosw m" "unch pn m" "allocated p d n s0 s" "\<And>a t. allocated p d n s0 t \<Longrightarrow> Q a t"
  shows "wp m Q blocks_not s"
  by (rule wp_pn [OF assms(1,2)]) (use assms(3,4) in \<open>simp add: allocated_def only_proc_def same_ids_def\<close>)

lemma allocated_upd:
  assumes "allocated p d n s0 s"
    "\<And>x. p_state (f x) = p_state x \<and> p_ns (f x) = p_ns x \<and> p_pid (f x) = p_pid x \<and> p_parent (f x) = p_parent x \<and> p_pids (f x) = p_pids x"
  shows "allocated p d n s0 (upd_proc p f s)"
  using assms by (simp add: allocated_def only_proc_def same_ids_def)

text \<open>After the ids have been handed out the process gets its memory, or is given back.\<close>

lemma wp_alloc_memory:
  assumes al: "allocated p d n s0 s"
    and Q: "\<And>t. allocated p d n s0 t \<Longrightarrow> Q (Some p) t" "\<And>t t'. allocated p d n s0 t' \<Longrightarrow> freed p t' t \<Longrightarrow> Q None t"
  shows "wp (kbind kalloc (\<lambda>tf.
         kthen (modp p (\<lambda>x. x\<lparr>p_trapframe := tf\<rparr>)) (
         if tf = 0 then kthen (freeproc p) (kthen (release (L_proc p)) (kret None)) else
         kbind (proc_pagetable p) (\<lambda>pt.
         kthen (modp p (\<lambda>x. x\<lparr>p_pagetable := pt\<rparr>)) (
         if pt = 0 then kthen (freeproc p) (kthen (release (L_proc p)) (kret None)) else
         kbind (kget sym_forkret) (\<lambda>forkret.
         kthen (modp p (\<lambda>x. x\<lparr>p_context := zero_context\<lparr>ctx_ra := forkret, ctx_sp := p_kstack x + PGSIZE\<rparr>\<rparr>))
         (kret (Some p)))))))) Q blocks_not s"
proof -
  have fr: "wp (kthen (freeproc p) (kthen (release (L_proc p)) (kret None))) Q blocks_not t"
    if "allocated p d n s0 t" for t
    unfolding wp_kthen
    apply (rule wp_freeproc)
    apply (rule wp_release)
    apply (unfold wp_kret)
    apply (rule Q(2) [OF that])
    apply (simp add: freed_def only_proc_def same_ids_def)
    done
  show ?thesis
    apply (unfold wp_kthen wp_kbind)
    apply (rule wp_allocated [OF nosw_kmem(2) pn_mem(2) al])
    apply (unfold wp_kmod wp_if)
    apply (split if_split, intro conjI impI)
     apply (rule fr, erule allocated_upd, simp)
    apply (unfold wp_kthen wp_kbind)
    apply (rule wp_allocated [OF nosw_proc_pagetable(1) pn_proc_pagetable(1)], erule allocated_upd, simp)
    apply (unfold wp_kmod wp_if)
    apply (split if_split, intro conjI impI)
     apply (rule fr, erule allocated_upd, simp)
    apply (unfold wp_kthen wp_kbind wp_kget wp_kmod wp_kret)
    apply (rule Q(1), rule allocated_upd, erule allocated_upd, simp_all)
    done
qed

lemma wp_allocproc:
  assumes ch: "chain_ok (namespaces s) d n" "d < MAXDEPTH"
    and Q: "\<And>p t. allocated p d n s t \<Longrightarrow> Q (Some p) t" "\<And>t. alloc_failed d n s t \<Longrightarrow> Q None t"
  shows "wp (allocproc (Some n)) Q blocks_not s"
  unfolding allocproc_def wp_kbind
proof (rule wp_allocproc_find)
  fix r t
  assume t: "pn t = pn s" and r: "case r of None \<Rightarrow> True | Some p \<Rightarrow> p \<in> set [0..<NPROC] \<and> p_state (procs s p) = UNUSED"
  show "wp (case r of None \<Rightarrow> kret None
     | Some p \<Rightarrow>
         kbind allocpid (\<lambda>pid.
         kthen (modp p (\<lambda>x. x\<lparr>p_pid := pid, p_state := USED, p_read_b := 0, p_write_b := 0, p_heap_pages := 0\<rparr>)) (
         kbind sys_uptime (\<lambda>now.
         kthen (modp p (\<lambda>x. x\<lparr>p_last_run_start := now, p_is_kernel := 0, p_kernel_time := 0\<rparr>)) (
         kbind sys_uptime (\<lambda>now.
         kthen (modp p (\<lambda>x. x\<lparr>p_last_kernel_time := now, p_ns := Some n\<rparr>)) (
         kbind (kderef (Some n)) (\<lambda>n.
         kbind (getns n ns_depth) (\<lambda>d.
         kthen (assign_pids p d (Some n)) (
         kbind kalloc (\<lambda>tf.
         kthen (modp p (\<lambda>x. x\<lparr>p_trapframe := tf\<rparr>)) (
         if tf = 0 then kthen (freeproc p) (kthen (release (L_proc p)) (kret None)) else
         kbind (proc_pagetable p) (\<lambda>pt.
         kthen (modp p (\<lambda>x. x\<lparr>p_pagetable := pt\<rparr>)) (
         if pt = 0 then kthen (freeproc p) (kthen (release (L_proc p)) (kret None)) else
         kbind (kget sym_forkret) (\<lambda>forkret.
         kthen (modp p (\<lambda>x. x\<lparr>p_context := zero_context\<lparr>ctx_ra := forkret, ctx_sp := p_kstack x + PGSIZE\<rparr>\<rparr>))
         (kret (Some p))))))))))))))))) Q blocks_not t"
  proof (cases r)
    case None
    then show ?thesis using Q(2) [of t] t by (simp add: alloc_failed_def del: kret_apply)
  next
    case (Some p)
    with r have p: "p < NPROC" "p_state (procs s p) = UNUSED" by simp_all
    have t': "procs t = procs s" "namespaces t = namespaces s" "nextpid t = nextpid s" "nextnamespace t = nextnamespace s"
      "initproc t = initproc s" "initnamespace t = initnamespace s" using t by (simp_all add: pn_def)
    have dn: "ns_depth (namespaces s n) = d" using chain_ok_depth [OF ch(1)] .
    show ?thesis
      unfolding Some option.case kderef_Some kbind_kret
      apply (rule wp_kbindI, rule wp_allocpid)
      apply (rule wp_kthenI, rule wp_kmodI, rule wp_kbindI, rule wp_uptime)
      apply (rule wp_kthenI, rule wp_kmodI, rule wp_kbindI, rule wp_uptime)
      apply (rule wp_kthenI, rule wp_kmodI, rule wp_kbindI, rule wp_kgetI)
      apply (simp only: upd_proc_frame t' dn)
      apply (rule wp_kthenI, rule wp_assign_pids)
        apply (simp add: t' ch)
       apply (rule ch)
      apply (rule wp_alloc_memory [where d = d and n = n and ?s0.0 = s])
        apply (simp add: allocated_def only_proc_def same_ids_def t' p)
       apply (rule Q(1), assumption)
      apply (rule Q(2), unfold alloc_failed_def, blast)
      done
  qed
qed

subsection \<open>allocnamespace\<close>

definition new_namespace :: "int \<Rightarrow> namespace" where
  "new_namespace i = \<lparr>ns_parent = None, ns_head = None, ns_id = i, ns_depth = 0, ns_used = 1, next_ns_pid = 1, num_proc = 0\<rparr>"

text \<open>\<open>n\<close> was the first slot not in use and is now a namespace of its own.\<close>

definition ns_allocated :: "nat \<Rightarrow> kstate \<Rightarrow> kstate \<Rightarrow> bool" where
  "ns_allocated n s t \<longleftrightarrow> n < NUMNS \<and> ns_used (namespaces s n) = 0 \<and> (\<forall>m < n. ns_used (namespaces s m) \<noteq> 0)
     \<and> procs t = procs s \<and> namespaces t = (namespaces s)(n := new_namespace (nextnamespace s))
     \<and> nextpid t = nextpid s \<and> nextnamespace t = nextnamespace s + 1 \<and> same_ids s t"

lemma wp_allocnamespaceid:
  assumes "\<And>t. procs t = procs s \<Longrightarrow> namespaces t = namespaces s \<Longrightarrow> nextpid t = nextpid s \<Longrightarrow>
      nextnamespace t = nextnamespace s + 1 \<Longrightarrow> initproc t = initproc s \<Longrightarrow> initnamespace t = initnamespace s \<Longrightarrow>
      Q (nextnamespace s) t"
  shows "wp allocnamespaceid Q blocks_not s"
  unfolding allocnamespaceid_def wp_kthen wp_kbind
  apply (rule wp_acquire)
  apply simp
  apply (rule wp_release)
  apply (simp add: assms)
  done

lemma new_namespace_upd:
  "x\<lparr>ns_id := i, ns_head := None, ns_parent := None, ns_used := 1, num_proc := 0, ns_depth := 0, next_ns_pid := 1\<rparr>
   = new_namespace i"
  by (cases x) (simp add: new_namespace_def)

lemma wp_allocnamespace_loop:
  assumes "\<forall>m < n. ns_used (namespaces s m) \<noteq> 0" "n \<le> NUMNS"
    and "\<And>m t. ns_allocated m s t \<Longrightarrow> Q (Some m) t"
    and "\<And>t. pn t = pn s \<Longrightarrow> \<forall>m < NUMNS. ns_used (namespaces s m) \<noteq> 0 \<Longrightarrow> Q None t"
  shows "wp (allocnamespace_loop [n..<NUMNS]) Q blocks_not s"
  using assms
proof (induction "NUMNS - n" arbitrary: n s)
  case 0
  then have "[n..<NUMNS] = []" "n = NUMNS" by simp_all
  then show ?case using 0 by (simp add: wp_kret del: kret_apply)
next
  case (Suc k)
  then have n: "[n..<NUMNS] = n # [Suc n..<NUMNS]" "n < NUMNS" by (auto simp: upt_conv_Cons)
  show ?case
    unfolding n allocnamespace_loop.simps
    apply (rule wp_kthenI, rule wp_acquire)
    apply (rule wp_kbindI, rule wp_kgetI)
    apply (simp only: wp_if split: if_split)
    apply (intro conjI impI)
     apply (rule wp_kbindI, rule wp_allocnamespaceid)
     apply (rule wp_kthenI, rule wp_kmodI, rule wp_kthenI, rule wp_release, rule wp_kretI)
     apply (rule Suc.prems(3))
     apply (simp add: ns_allocated_def same_ids_def n Suc.prems(1) upd_ns_def new_namespace_upd)
    apply (rule wp_kthenI, rule wp_release)
    apply (rule Suc.hyps)
    using Suc.hyps(2) apply simp
    using Suc.prems(1) apply (simp add: less_Suc_eq)
    using n apply simp
     apply (rule Suc.prems(3), simp add: ns_allocated_def same_ids_def)
    apply (rule Suc.prems(4); simp add: pn_def)
    done
qed

lemma wp_allocnamespace:
  assumes "\<And>m t. ns_allocated m s t \<Longrightarrow> Q (Some m) t"
    and "\<And>t. pn t = pn s \<Longrightarrow> \<forall>m < NUMNS. ns_used (namespaces s m) \<noteq> 0 \<Longrightarrow> Q None t"
  shows "wp allocnamespace Q blocks_not s"
  unfolding allocnamespace_def by (rule wp_allocnamespace_loop) (simp_all add: assms)

subsection \<open>The common part of fork and clone\<close>

text \<open>Only process \<open>p\<close> has changed, and its identity, state and size have not.\<close>

definition carry :: "nat \<Rightarrow> kstate \<Rightarrow> kstate \<Rightarrow> bool" where
  "carry p s t \<longleftrightarrow> only_proc p s t \<and> pcore (procs t p) = pcore (procs s p) \<and> p_state (procs t p) = p_state (procs s p)
     \<and> p_sz (procs t p) = p_sz (procs s p) \<and> namespaces t = namespaces s \<and> nextpid t = nextpid s
     \<and> nextnamespace t = nextnamespace s \<and> same_ids s t"

interpretation carry: state_rel "carry p" for p
  by unfold_locales (auto simp: carry_def only_proc_def same_ids_def)

lemma carry_pn: "unch pn m \<Longrightarrow> moves (carry p) m"
  by (erule carry.m_unch) (auto simp: pn_def carry_def only_proc_def same_ids_def)

lemma carry_modp:
  "(\<And>x. pcore (f x) = pcore x \<and> p_state (f x) = p_state x \<and> p_sz (f x) = p_sz x) \<Longrightarrow> moves (carry p) (modp p f)"
  by (rule carry.m_kmod) (auto simp: carry_def only_proc_def same_ids_def)

lemma carry_dup_files: "moves (carry np) (dup_files p np)" "nosw (dup_files p np)"
  unfolding dup_files_def
  by (intro carry.split_rules carry_modp carry_pn unch_rules, simp add: pcore_def, intro nosw_split nosw_rules)

lemma wp_moves:
  assumes "nosw m" "moves R m" "\<And>a t. R s t \<Longrightarrow> Q a t"
  shows "wp m Q blocks_not s"
  using assms unfolding wp_def nosw_def moves_def
  by (auto split: prod.splits res.splits) (metis fst_conv snd_conv)+

text \<open>\<open>np\<close> is a runnable child of \<open>p\<close> with a copy of its size.\<close>

definition copied :: "nat \<Rightarrow> nat \<Rightarrow> kstate \<Rightarrow> kstate \<Rightarrow> bool" where
  "copied p np s t \<longleftrightarrow> only_proc np s t \<and> p_state (procs t np) = RUNNABLE \<and> p_parent (procs t np) = Some p
     \<and> p_ns (procs t np) = p_ns (procs s np) \<and> p_pids (procs t np) = p_pids (procs s np) \<and> p_pid (procs t np) = p_pid (procs s np)
     \<and> p_sz (procs t np) = p_sz (procs s p) \<and> namespaces t = namespaces s \<and> nextpid t = nextpid s
     \<and> nextnamespace t = nextnamespace s \<and> same_ids s t"

lemma wp_start_child:
  assumes "\<And>u t. only_proc np s t \<Longrightarrow> p_state (procs t np) = RUNNABLE \<Longrightarrow> pcore (procs t np) = pcore (procs s np) \<Longrightarrow>
      p_sz (procs t np) = p_sz (procs s np) \<Longrightarrow> namespaces t = namespaces s \<Longrightarrow> nextpid t = nextpid s \<Longrightarrow>
      nextnamespace t = nextnamespace s \<Longrightarrow> same_ids s t \<Longrightarrow> Q u t"
  shows "wp (start_child np) Q blocks_not s"
  unfolding start_child_def
  apply (rule wp_kthenI, rule wp_acquire)
  apply (rule wp_kthenI, rule wp_kmodI, rule wp_kbindI, rule wp_uptime)
  apply (rule wp_kthenI, rule wp_kmodI, rule wp_kbindI, rule wp_uptime)
  apply (rule wp_kthenI, rule wp_kmodI, rule wp_release)
  apply (rule assms; simp add: only_proc_def same_ids_def pcore_def)
  done

lemma wp_kderefI: "x = Some a \<Longrightarrow> Q a s \<Longrightarrow> wp (kderef x) Q E s"
  by (simp add: wp_def)

lemma wp_copy_process:
  assumes n: "p_ns (procs s p) = Some n" and ne: "np \<noteq> p"
    and Q: "\<And>t. freed np s t \<Longrightarrow> Q (- 1) t"
      "\<And>t. copied p np s t \<Longrightarrow> Q (p_pids (procs s np) (ns_depth (namespaces s n))) t"
  shows "wp (copy_process p np) Q blocks_not s"
  unfolding copy_process_def
  apply (rule wp_kbindI, rule wp_kgetI, unfold prod.case)
  apply (rule wp_kbindI, rule wp_pn [OF nosw_uvmcopy pn_mem(7)])
  apply (simp only: wp_if split: if_split)
  apply (intro conjI impI)
   apply (rule wp_kthenI, rule wp_freeproc, rule wp_kthenI, rule wp_release, rule wp_kretI)
   apply (rule Q(1))
   apply (simp add: freed_def only_proc_def same_ids_def)
  apply (rule wp_kbindI, rule wp_kgetI, rule wp_kthenI, rule wp_kmodI)
  apply (rule wp_kbindI, rule wp_kgetI, unfold prod.case)
  apply (rule wp_kthenI, rule wp_kmodI, rule wp_kthenI, unfold tf_store_def, rule wp_kbindI, rule wp_kgetI, rule wp_kmodI)
  apply (rule wp_kthenI, rule wp_moves [OF carry_dup_files(2,1)])
  apply (rule wp_kbindI, rule wp_kgetI)
  apply (rule wp_kbindI, rule wp_pn [OF nosw_dups(2) pn_dups(2)])
  apply (rule wp_kthenI, rule wp_kmodI, rule wp_kbindI, rule wp_kgetI, rule wp_kthenI, rule wp_kmodI)
  apply (rule wp_kbindI, rule wp_kgetI)
  apply (rule wp_kbindI, rule wp_kderefI [where a = n], simp add: carry_def only_proc_def ne [symmetric] n)
  apply (rule wp_kbindI, rule wp_kgetI, rule wp_kbindI, rule wp_kgetI)
  apply (rule wp_kthenI, rule wp_release)
  apply (rule wp_kthenI, rule wp_acquire)
  apply (rule wp_kthenI, rule wp_kmodI, rule wp_kthenI, rule wp_release)
  apply (rule wp_kthenI, rule wp_start_child, rule wp_kretI)
  apply (rule subst [where P = "\<lambda>k. Q k _", OF _ Q(2)])
   apply (simp add: carry_def only_proc_def pcore_def)
  apply (simp add: copied_def carry_def only_proc_def same_ids_def pcore_def ne [symmetric])
  done

subsection \<open>fork\<close>

abbreviation cur :: "kstate \<Rightarrow> nat option" where
  "cur s \<equiv> c_proc (mycpu_of (lk s))"

lemma wp_myproc:
  assumes "\<And>t. procs t = procs s \<Longrightarrow> namespaces t = namespaces s \<Longrightarrow> nextpid t = nextpid s \<Longrightarrow>
      nextnamespace t = nextnamespace s \<Longrightarrow> initproc t = initproc s \<Longrightarrow> initnamespace t = initnamespace s \<Longrightarrow> Q (cur s) t"
  shows "wp myproc Q blocks_not s"
proof -
  have "wp myproc (\<lambda>r t. r = cur s) blocks_not s"
    unfolding myproc_def push_off_def pop_off_def spinlock_defs kwhen_def
    by (simp add: wp_if mycpu_of_def)
  moreover have "wp myproc (\<lambda>r t. pn t = pn s) blocks_not s"
    by (rule wp_pn [OF nosw_locks(3) pn_lk(3)]) (simp add: pn_def)
  ultimately have "wp myproc (\<lambda>r t. r = cur s \<and> pn t = pn s) (\<lambda>e t. e \<noteq> Switch \<and> e \<noteq> Switch) s"
    by (rule wp_conj)
  then show ?thesis
    by (rule wp_mono) (auto simp: pn_def intro: assms)
qed

lemma alloc_failed_pn: "alloc_failed d n s0 s \<Longrightarrow> pn t = pn s \<Longrightarrow> alloc_failed d n s0 t"
  unfolding alloc_failed_def
  by (elim disjE) (auto simp: pn_def freed_def only_proc_def same_ids_def)

lemma allocated_from_pn: "allocated p d n s1 t \<Longrightarrow> pn s1 = pn s \<Longrightarrow> allocated p d n s t"
  by (simp add: allocated_def pn_def only_proc_def same_ids_def)

lemma alloc_failed_from_pn: "alloc_failed d n s1 t \<Longrightarrow> pn s1 = pn s \<Longrightarrow> alloc_failed d n s t"
  unfolding alloc_failed_def using allocated_from_pn by metis

text \<open>The child of a successful \<open>fork\<close> or \<open>clone\<close> is a new process in the given namespace.\<close>

definition new_child :: "nat \<Rightarrow> nat \<Rightarrow> nat \<Rightarrow> nat \<Rightarrow> kstate \<Rightarrow> kstate \<Rightarrow> bool" where
  "new_child p np d n s t \<longleftrightarrow> (\<exists>t1. allocated np d n s t1 \<and> copied p np t1 t)"

lemma new_childD:
  assumes "new_child p np d n s t"
  shows "np < NPROC" "p_state (procs s np) = UNUSED" "only_proc np s t" "p_state (procs t np) = RUNNABLE"
    "p_ns (procs t np) = Some n" "p_pid (procs t np) = nextpid s" "p_parent (procs t np) = Some p"
    "\<And>k. k \<le> d \<Longrightarrow> p_pids (procs t np) k = next_ns_pid (namespaces s (anc (namespaces s) d n k))"
    "namespaces t = bump (namespaces s) (ancs (namespaces s) d n)" "nextpid t = nextpid s + 1"
    "nextnamespace t = nextnamespace s" "same_ids s t"
  using assms unfolding new_child_def allocated_def copied_def only_proc_def same_ids_def by auto

lemma wp_fork:
  assumes i: "ns_inv s" and c: "cur s = Some p" and n: "p_ns (procs s p) = Some n"
    and d: "d = ns_depth (namespaces s n)"
    and Q: "\<And>t. alloc_failed d n s t \<Longrightarrow> Q (- 1) t"
      "\<And>np t. new_child p np d n s t \<Longrightarrow> Q (next_ns_pid (namespaces s n)) t"
  shows "wp fork Q blocks_not s"
proof -
  have ch: "chain_ok (namespaces s) d n" "d < MAXDEPTH" using ns_inv_chain [OF i n] by (simp_all add: d)
  have st: "p_state (procs s p) \<noteq> UNUSED" using ns_invD(10) [OF i, of p] n by auto
  have cp: "wp (copy_process p np) Q blocks_not t1" if al: "allocated np d n s t1" for np t1
  proof (rule wp_copy_process)
    show ne: "np \<noteq> p" using al st by (auto simp: allocated_def)
    show "p_ns (procs t1 p) = Some n" using al ne n by (simp add: allocated_def only_proc_def)
    show "Q (- 1) t" if "freed np t1 t" for t using Q(1) al that unfolding alloc_failed_def by blast
    show "Q (p_pids (procs t1 np) (ns_depth (namespaces t1 n))) t" if "copied p np t1 t" for t
    proof -
      have "p_pids (procs t1 np) (ns_depth (namespaces t1 n)) = next_ns_pid (namespaces s n)"
        using al by (simp add: allocated_def d [symmetric])
      moreover have "new_child p np d n s t" using al that unfolding new_child_def by blast
      ultimately show ?thesis using Q(2) by simp
    qed
  qed
  show ?thesis
    unfolding fork_def
    apply (rule wp_kbindI, rule wp_myproc, rule wp_kbindI, rule wp_kderefI [OF c])
    apply (rule wp_kbindI, rule wp_kgetI)
    apply (simp only: n)
    apply (rule wp_kbindI, rule wp_allocproc [where d = d])
       apply (simp add: ch)
      apply (rule ch)
     apply (unfold option.case)
     apply (rule cp, erule allocated_from_pn, simp add: pn_def)
    apply (rule wp_kretI, rule Q(1), erule alloc_failed_from_pn, simp add: pn_def)
    done
qed

lemma ns_inv_allocated:
  assumes "ns_inv s" "allocated p d n s t" "chain_ok (namespaces s) d n" "d < MAXDEPTH"
  shows "ns_inv t"
proof (rule ns_inv_alloc [OF assms(1) _ assms(3,4)])
  show "p_ns (procs s p) = None" using ns_invD(10) [OF assms(1), of p] assms(2) by (simp add: allocated_def)
  show "procs t = (procs s)(p := procs t p)" by (rule only_proc_upd) (use assms(2) in \<open>simp add: allocated_def\<close>)
qed (use assms(2) in \<open>auto simp: allocated_def\<close>)

lemma ns_inv_pn: "pn t = pn s \<Longrightarrow> ns_inv t = ns_inv s"
  by (rule ns_inv_cong) (simp_all add: pn_def)

lemma ns_inv_alloc_failed:
  "ns_inv s \<Longrightarrow> alloc_failed d n s t \<Longrightarrow> chain_ok (namespaces s) d n \<Longrightarrow> d < MAXDEPTH \<Longrightarrow> ns_inv t"
  unfolding alloc_failed_def using ns_inv_pn ns_inv_allocated ns_inv_freed by metis

lemma ns_inv_copied:
  assumes "ns_inv s" "copied p np s t" "p_ns (procs s np) \<noteq> None"
  shows "ns_inv t"
proof -
  let ?f = "\<lambda>_. procs t np"
  have "ns_inv (upd_proc np ?f s)"
    by (rule ns_inv_upd_same [OF assms(1)]) (use assms(2,3) in \<open>simp_all add: copied_def\<close>)
  moreover have "procs (upd_proc np ?f s) = procs t"
    using assms(2) by (auto simp: copied_def only_proc_def fun_eq_iff)
  ultimately show ?thesis
    using assms(2) ns_inv_cong [of t "upd_proc np ?f s"] by (simp add: copied_def)
qed

lemma ns_inv_new_child:
  assumes "ns_inv s" "new_child p np d n s t" "chain_ok (namespaces s) d n" "d < MAXDEPTH"
  shows "ns_inv t"
proof -
  obtain t1 where t1: "allocated np d n s t1" "copied p np t1 t" using assms(2) by (auto simp: new_child_def)
  have "ns_inv t1" by (rule ns_inv_allocated [OF assms(1) t1(1) assms(3,4)])
  then show ?thesis by (rule ns_inv_copied [OF _ t1(2)]) (use t1(1) in \<open>simp add: allocated_def\<close>)
qed

subsection \<open>clone\<close>

text \<open>
  The table after \<open>clone\<close> has taken slot \<open>m\<close> for a child of namespace \<open>n\<close>: with its depth set, and
  as it is left behind when the depth limit has been reached.
\<close>

definition cloned_table :: "nat \<Rightarrow> nat \<Rightarrow> nat \<Rightarrow> kstate \<Rightarrow> nat \<Rightarrow> namespace" where
  "cloned_table m n d s = (namespaces s)(m := (new_namespace (nextnamespace s))\<lparr>ns_parent := Some n, ns_depth := d\<rparr>)"

definition ns_taken :: "nat \<Rightarrow> nat \<Rightarrow> nat \<Rightarrow> kstate \<Rightarrow> kstate \<Rightarrow> bool" where
  "ns_taken m n d s t \<longleftrightarrow> m < NUMNS \<and> ns_used (namespaces s m) = 0 \<and> (\<forall>k < m. ns_used (namespaces s k) \<noteq> 0)
     \<and> namespaces t = cloned_table m n d s \<and> procs t = procs s \<and> nextpid t = nextpid s
     \<and> nextnamespace t = nextnamespace s + 1 \<and> same_ids s t"

lemma ns_ext_taken: "ns_taken m n d s t \<Longrightarrow> ns_ext (namespaces s) (namespaces t)"
  by (simp add: ns_taken_def ns_ext_def cloned_table_def)

lemma ns_inv_taken:
  assumes i: "ns_inv s" and t: "ns_taken m n d s t"
  shows "ns_inv t"
proof (rule ns_inv_ext [OF i ns_ext_taken [OF t]])
  show "1 \<le> next_ns_pid (namespaces t k)" if "ns_used (namespaces t k) \<noteq> 0" for k
    using ns_invD(3) [OF i, of k] t that by (simp add: ns_taken_def cloned_table_def new_namespace_def split: if_splits)
qed (use t in \<open>simp_all add: ns_taken_def\<close>)

lemma chain_ok_taken:
  assumes "chain_ok (namespaces s) d n" "ns_taken m n (Suc d) s t"
  shows "chain_ok (namespaces t) (Suc d) m"
proof -
  have "chain_ok (namespaces t) d n" by (rule chain_ok_ext [OF ns_ext_taken [OF assms(2)] assms(1)])
  then show ?thesis using assms(2) by (simp add: ns_taken_def cloned_table_def new_namespace_def)
qed

text \<open>A new child in the new namespace, which it heads.\<close>

definition new_ns_child :: "nat \<Rightarrow> nat \<Rightarrow> nat \<Rightarrow> nat \<Rightarrow> nat \<Rightarrow> kstate \<Rightarrow> kstate \<Rightarrow> bool" where
  "new_ns_child p np m d n s t \<longleftrightarrow> (\<exists>t1 t2. ns_taken m n (Suc d) s t1 \<and> allocated np (Suc d) m t1 t2
     \<and> copied p np (upd_ns m (\<lambda>x. x\<lparr>ns_head := Some np\<rparr>) t2) t)"

text \<open>The allocation of the process failed; the new namespace stays behind.\<close>

definition ns_child_failed :: "nat \<Rightarrow> nat \<Rightarrow> nat \<Rightarrow> kstate \<Rightarrow> kstate \<Rightarrow> bool" where
  "ns_child_failed m d n s t \<longleftrightarrow> (\<exists>t1. ns_taken m n (Suc d) s t1
     \<and> (alloc_failed (Suc d) m t1 t
        \<or> (\<exists>np t2. allocated np (Suc d) m t1 t2 \<and> freed np (upd_ns m (\<lambda>x. x\<lparr>ns_head := Some np\<rparr>) t2) t)))"

lemma ns_allocated_from_pn: "ns_allocated m s1 t \<Longrightarrow> pn s1 = pn s \<Longrightarrow> ns_allocated m s t"
  by (simp add: ns_allocated_def pn_def same_ids_def)

lemma wp_clone:
  assumes i: "ns_inv s" and c: "cur s = Some p" and n: "p_ns (procs s p) = Some n"
    and d: "d = ns_depth (namespaces s n)"
    and full: "\<And>t. pn t = pn s \<Longrightarrow> \<forall>m < NUMNS. ns_used (namespaces s m) \<noteq> 0 \<Longrightarrow> Q (- 1) t"
    and deep: "\<And>m t. MAXDEPTH \<le> d + 1 \<Longrightarrow> ns_taken m n 0 s t \<Longrightarrow> Q (- 1) t"
    and fail: "\<And>m t. d + 1 < MAXDEPTH \<Longrightarrow> ns_child_failed m d n s t \<Longrightarrow> Q (- 1) t"
    and ok: "\<And>m np t. d + 1 < MAXDEPTH \<Longrightarrow> new_ns_child p np m d n s t \<Longrightarrow> Q (next_ns_pid (namespaces s n)) t"
  shows "wp clone Q blocks_not s"
proof -
  have ch: "chain_ok (namespaces s) d n" using ns_inv_chain [OF i n] by (simp add: d)
  have st: "p_state (procs s p) \<noteq> UNUSED" using ns_invD(10) [OF i, of p] n by auto
  have cp: "wp (copy_process p np) Q blocks_not (upd_ns m (\<lambda>x. x\<lparr>ns_head := Some np\<rparr>) t2)"
    if lt: "d + 1 < MAXDEPTH" and t1: "ns_taken m n (Suc d) s t1" and al: "allocated np (Suc d) m t1 t2" for m np t1 t2
  proof -
    let ?t3 = "upd_ns m (\<lambda>x. x\<lparr>ns_head := Some np\<rparr>) t2"
    have ne: "np \<noteq> p" using al t1 st by (auto simp: allocated_def ns_taken_def)
    have mn: "m \<noteq> n" using t1 chain_ok_used [OF ch] by (auto simp: ns_taken_def)
    have pn: "p_ns (procs ?t3 p) = Some n" using al t1 ne n by (simp add: allocated_def only_proc_def ns_taken_def)
    have "anc (namespaces t1) (Suc d) m d = n"
      using t1 by (simp add: ns_taken_def cloned_table_def new_namespace_def)
    then have "p_pids (procs ?t3 np) (ns_depth (namespaces ?t3 n)) = next_ns_pid (namespaces s n)"
      using al t1 mn by (simp add: allocated_def ns_taken_def cloned_table_def d [symmetric])
    then have "Q (p_pids (procs ?t3 np) (ns_depth (namespaces ?t3 n))) t" if "copied p np ?t3 t" for t
      using ok [OF lt, of np m t] t1 al that unfolding new_ns_child_def by metis
    moreover have "Q (- 1) t" if "freed np ?t3 t" for t
      using fail [OF lt, of m t] t1 al that unfolding ns_child_failed_def by blast
    ultimately show ?thesis by (intro wp_copy_process [OF pn ne])
  qed
  have al: "wp (kbind (allocproc (Some m)) (\<lambda>np. case np of None \<Rightarrow> kret (- 1)
       | Some np \<Rightarrow> kthen (modns m (\<lambda>x. x\<lparr>ns_head := Some np\<rparr>)) (copy_process p np))) Q blocks_not t1"
    if lt: "d + 1 < MAXDEPTH" and t1: "ns_taken m n (Suc d) s t1" for m t1
    apply (rule wp_kbindI, rule wp_allocproc [OF chain_ok_taken [OF ch t1]])
    using lt apply simp
     apply (unfold option.case)
     apply (rule wp_kthenI, rule wp_kmodI, erule cp [OF lt t1])
    apply (rule wp_kretI, rule fail [OF lt, of m])
    using t1 apply (auto simp: ns_child_failed_def)
    done
  have rest: "wp (kthen (modns m (\<lambda>x. x\<lparr>ns_parent := Some n\<rparr>)) (kbind (kderef (Some n)) (\<lambda>pn. kbind (getns pn ns_depth) (\<lambda>d.
       if d + 1 \<ge> MAXDEPTH then kret (- 1) else kthen (modns m (\<lambda>x. x\<lparr>ns_depth := d + 1\<rparr>))
         (kbind (allocproc (Some m)) (\<lambda>np. case np of None \<Rightarrow> kret (- 1)
       | Some np \<Rightarrow> kthen (modns m (\<lambda>x. x\<lparr>ns_head := Some np\<rparr>)) (copy_process p np))))))) Q blocks_not t0"
    if t0: "ns_allocated m s t0" for m t0
  proof -
    have mn: "m \<noteq> n" using t0 chain_ok_used [OF ch] by (auto simp: ns_allocated_def)
    let ?t1 = "upd_ns m (\<lambda>x. x\<lparr>ns_parent := Some n\<rparr>) t0"
    have dn: "ns_depth (namespaces ?t1 n) = d" using t0 mn by (simp add: ns_allocated_def d)
    have tk0: "ns_taken m n 0 s ?t1"
      using t0 by (simp add: ns_allocated_def ns_taken_def cloned_table_def new_namespace_def upd_ns_def same_ids_def)
    have tk1: "ns_taken m n (Suc d) s (upd_ns m (\<lambda>x. x\<lparr>ns_depth := d + 1\<rparr>) ?t1)"
      using t0 by (simp add: ns_allocated_def ns_taken_def cloned_table_def new_namespace_def upd_ns_def same_ids_def)
    show ?thesis
      unfolding kderef_Some kbind_kret
      apply (rule wp_kthenI, rule wp_kmodI, rule wp_kbindI, rule wp_kgetI)
      apply (subst dn)
      apply (simp only: wp_if split: if_split)
      apply (intro conjI impI)
       apply (rule wp_kretI, erule deep, rule tk0)
      apply (rule wp_kthenI, rule wp_kmodI)
      apply (subst dn)
      apply (rule al [OF _ tk1], simp)
      done
  qed
  have pn_of: "p_ns (procs t p) = Some n" if "procs t1 = procs s" "ns_allocated m t1 t" for m t1 t
    using that n by (simp add: ns_allocated_def)
  show ?thesis
    unfolding clone_def
    apply (rule wp_kbindI, rule wp_myproc, rule wp_kbindI, rule wp_allocnamespace)
     apply (unfold option.case)
     apply (rule wp_kbindI, rule wp_kderefI [OF c], rule wp_kbindI, rule wp_kgetI)
     apply (subst pn_of, assumption+)
     apply (subst pn_of, assumption+)
     apply (rule rest, erule ns_allocated_from_pn, simp add: pn_def)
    apply (rule wp_kretI, rule full; simp add: pn_def)
    done
qed

end
