(* ===== verification/Xv6_NsInv.thy ===== *)
theory Xv6_NsInv
  imports Xv6_Namespace Xv6_Trap
begin

text \<open>
  Every operation of the kernel keeps the invariant of process identifiers and PID namespaces.
\<close>

section \<open>The invariant is kept\<close>

text \<open>
  \<open>evolves s t\<close>: from a state with the invariant, \<open>t\<close> has it too, and the namespaces in use in \<open>s\<close> are
  still there in \<open>t\<close>, in the same place of the tree.
\<close>

definition evolves :: "kstate \<Rightarrow> kstate \<Rightarrow> bool" where
  "evolves s t \<longleftrightarrow> (ns_inv s \<longrightarrow> ns_inv t \<and> ns_ext (namespaces s) (namespaces t))"

interpretation evolves: state_rel evolves
proof
  show "evolves s s" for s by (simp add: evolves_def)
  show "evolves s u" if "evolves s t" "evolves t u" for s t u
    using that ns_ext_trans unfolding evolves_def by metis
qed

lemma evolvesI: "(ns_inv s \<Longrightarrow> ns_inv t) \<Longrightarrow> ns_ext (namespaces s) (namespaces t) \<Longrightarrow> evolves s t"
  unfolding evolves_def by blast

lemma evolves_kept:
  assumes "kept s t"
  shows "evolves s t"
proof (rule evolvesI)
  show "ns_inv s \<Longrightarrow> ns_inv t" by (rule ns_inv_kept [OF assms])
  show "ns_ext (namespaces s) (namespaces t)"
    unfolding coreD(5) [OF conjunct1 [OF assms [unfolded kept_def]]] by (rule ns_ext_refl)
qed

lemma evolves_pn: "pn t = pn s \<Longrightarrow> evolves s t"
  by (rule evolvesI, erule (1) ns_inv_pn [THEN iffD2]) (simp add: pn_def)

lemma lives_kept: "moves kept m \<Longrightarrow> lives evolves m"
  by (rule lives_moves, erule moves_mono, rule evolves_kept)

lemma evolves_freed: "freed p s t \<Longrightarrow> evolves s t"
  by (rule evolvesI, erule (1) ns_inv_freed) (simp add: freed_def)

lemma evolves_allocated:
  assumes "allocated p d n s t" "chain_ok (namespaces s) d n" "d < MAXDEPTH"
  shows "evolves s t"
  by (rule evolvesI, rule ns_inv_allocated [OF _ assms]) (use assms(1) in \<open>simp_all add: allocated_def ns_ext_bump\<close>)

lemma evolves_alloc_failed:
  assumes "alloc_failed d n s t" "chain_ok (namespaces s) d n" "d < MAXDEPTH"
  shows "evolves s t"
  using assms(1) evolves_allocated [OF _ assms(2,3)] evolves_freed evolves_pn evolves.trans unfolding alloc_failed_def by metis

lemma evolves_copied:
  assumes "copied p np s t" "p_ns (procs s np) \<noteq> None"
  shows "evolves s t"
proof (rule evolvesI)
  show "ns_inv s \<Longrightarrow> ns_inv t" by (rule ns_inv_copied [OF _ assms])
  have "namespaces t = namespaces s" using assms(1) unfolding copied_def by blast
  then show "ns_ext (namespaces s) (namespaces t)" by simp
qed

lemma evolves_new_child:
  assumes "new_child p np d n s t" "chain_ok (namespaces s) d n" "d < MAXDEPTH"
  shows "evolves s t"
proof -
  obtain t1 where t1: "allocated np d n s t1" "copied p np t1 t" using assms(1) by (auto simp: new_child_def)
  show ?thesis
    by (rule evolves.trans [OF evolves_allocated [OF t1(1) assms(2,3)] evolves_copied [OF t1(2)]])
      (use t1(1) in \<open>simp add: allocated_def\<close>)
qed

lemma evolves_taken: "ns_taken m n d s t \<Longrightarrow> evolves s t"
  by (rule evolvesI, erule (1) ns_inv_taken) (rule ns_ext_taken)

lemma evolves_head: "evolves s (upd_ns m (\<lambda>x. x\<lparr>ns_head := h\<rparr>) s)"
  unfolding evolves_def
proof (intro impI conjI)
  assume i: "ns_inv s"
  show e: "ns_ext (namespaces s) (namespaces (upd_ns m (\<lambda>x. x\<lparr>ns_head := h\<rparr>) s))" by (simp add: ns_ext_def)
  show "ns_inv (upd_ns m (\<lambda>x. x\<lparr>ns_head := h\<rparr>) s)"
    by (rule ns_inv_ext [OF i e]) (use ns_invD(3) [OF i] in \<open>auto split: if_splits\<close>)
qed

lemma evolves_new_ns_child:
  assumes "new_ns_child p np m d n s t" "chain_ok (namespaces s) d n" "d + 1 < MAXDEPTH"
  shows "evolves s t"
proof -
  obtain t1 t2 where t: "ns_taken m n (Suc d) s t1" "allocated np (Suc d) m t1 t2"
      "copied p np (upd_ns m (\<lambda>x. x\<lparr>ns_head := Some np\<rparr>) t2) t"
    using assms(1) by (auto simp: new_ns_child_def)
  have "evolves t1 t2" by (rule evolves_allocated [OF t(2) chain_ok_taken [OF assms(2) t(1)]]) (use assms(3) in simp)
  moreover have "evolves (upd_ns m (\<lambda>x. x\<lparr>ns_head := Some np\<rparr>) t2) t"
    by (rule evolves_copied [OF t(3)]) (use t(2) in \<open>simp add: allocated_def\<close>)
  ultimately show ?thesis
    using evolves.trans [OF evolves_taken [OF t(1)]] evolves.trans [OF evolves_head [of t2 m "Some np"]] evolves.trans by metis
qed

lemma evolves_ns_child_failed:
  assumes "ns_child_failed m d n s t" "chain_ok (namespaces s) d n" "d + 1 < MAXDEPTH"
  shows "evolves s t"
proof -
  obtain t1 where t1: "ns_taken m n (Suc d) s t1" and
    alt: "alloc_failed (Suc d) m t1 t \<or> (\<exists>np t2. allocated np (Suc d) m t1 t2 \<and> freed np (upd_ns m (\<lambda>x. x\<lparr>ns_head := Some np\<rparr>) t2) t)"
    using assms(1) by (auto simp: ns_child_failed_def)
  note ch = chain_ok_taken [OF assms(2) t1]
  have "evolves t1 t"
    using alt
  proof (elim disjE exE conjE)
    show "alloc_failed (Suc d) m t1 t \<Longrightarrow> evolves t1 t" by (erule evolves_alloc_failed) (use ch assms(3) in simp_all)
  next
    fix np t2
    assume a: "allocated np (Suc d) m t1 t2" "freed np (upd_ns m (\<lambda>x. x\<lparr>ns_head := Some np\<rparr>) t2) t"
    have "evolves t1 t2" by (rule evolves_allocated [OF a(1) ch]) (use assms(3) in simp)
    then show "evolves t1 t" using evolves_head evolves_freed [OF a(2)] evolves.trans by blast
  qed
  then show ?thesis using evolves_taken [OF t1] evolves.trans by blast
qed


subsection \<open>fork and clone\<close>

lemma nosw_alloc [nosw_rules]: "nosw (allocproc ns)" "nosw allocnamespace" "nosw (freeproc p)"
proof -
  have fp: "nosw (freeproc p)" for p unfolding freeproc_def by (intro nosw_split nosw_rules)
  then show "nosw (freeproc p)" .
  have "nosw (allocproc_find ps)" for ps
    by (induction ps) (auto intro!: nosw_split nosw_rules simp del: kret_apply kexc_apply)
  moreover have "nosw (assign_pids p d c)" for p d c
    by (induction d arbitrary: c) (auto simp: assign_pid_def intro!: nosw_split nosw_rules simp del: kret_apply kexc_apply)
  moreover have "nosw allocpid" unfolding allocpid_def by (intro nosw_split nosw_rules)
  ultimately show "nosw (allocproc ns)" unfolding allocproc_def by (intro nosw_split nosw_rules fp)
  have "nosw (allocnamespace_loop ns)" for ns
    by (induction ns) (auto simp: allocnamespaceid_def intro!: nosw_split nosw_rules simp del: kret_apply kexc_apply)
  then show "nosw allocnamespace" unfolding allocnamespace_def .
qed

lemma nosw_fork_clone: "nosw fork" "nosw clone"
proof -
  have cp: "nosw (copy_process p np)" for p np
    unfolding copy_process_def tf_store_def start_child_def by (intro nosw_split nosw_rules carry_dup_files(2))
  show "nosw fork" unfolding fork_def by (intro nosw_split nosw_rules cp)
  show "nosw clone" unfolding clone_def by (intro nosw_split nosw_rules cp)
qed

lemma wp_allocproc_None:
  assumes "\<And>t. pn t = pn s \<Longrightarrow> Q None t"
  shows "wp (allocproc None) Q blocks_not s"
  unfolding allocproc_def
  apply (rule wp_kbindI, rule wp_allocproc_find)
  apply (case_tac r)
   apply (simp only: option.case, rule wp_kretI, erule assms)
  apply (simp only: option.case)
  apply (rule wp_kbindI, rule wp_allocpid)
  apply (rule wp_kthenI, rule wp_kmodI, rule wp_kbindI, rule wp_uptime)
  apply (rule wp_kthenI, rule wp_kmodI, rule wp_kbindI, rule wp_uptime)
  apply (rule wp_kthenI, rule wp_kmodI)
  apply (simp add: wp_def)
  done

lemma wp_weaken_exc: "wp m Q blocks_not s \<Longrightarrow> wp m Q (\<lambda>e t. e = Switch \<longrightarrow> X t) s"
  by (erule wp_mono, assumption) (rule impI, erule (1) notE)

lemma wp_nosw: "nosw m \<Longrightarrow> (\<And>a t. Q a t) \<Longrightarrow> wp m Q blocks_not s"
  by (simp add: wp_def nosw_def split: prod.splits res.splits) (metis fst_conv)


lemma lives_fork: "lives evolves fork"
proof (rule lives_wp, rule wp_weaken_exc)
  fix s
  consider (none) "cur s = None" | (free) p where "cur s = Some p" "p_ns (procs s p) = None"
    | (bad) "\<not> ns_inv s" | (ok) p n where "ns_inv s" "cur s = Some p" "p_ns (procs s p) = Some n"
    by (cases "cur s"; cases "ns_inv s"; metis option.exhaust)
  then show "wp fork (\<lambda>_. evolves s) blocks_not s"
  proof cases
    case none
    show ?thesis unfolding fork_def
      by (rule wp_kbindI, rule wp_myproc) (simp add: none wp_def)
  next
    case free
    show ?thesis unfolding fork_def
      apply (rule wp_kbindI, rule wp_myproc, rule wp_kbindI, rule wp_kderefI [OF free(1)])
      apply (rule wp_kbindI, rule wp_kgetI)
      apply (simp only: free)
      apply (rule wp_kbindI, rule wp_allocproc_None)
      apply (unfold option.case, rule wp_kretI, rule evolves_pn, simp add: pn_def)
      done
  next
    case bad
    then show ?thesis by (intro wp_nosw nosw_fork_clone) (simp add: evolves_def)
  next
    case ok
    note ch = ns_inv_chain [OF ok(1,3)]
    show ?thesis
      by (rule wp_fork [OF ok refl], erule evolves_alloc_failed [OF _ ch], erule evolves_new_child [OF _ ch])
  qed
qed

lemma lives_clone: "lives evolves clone"
proof (rule lives_wp, rule wp_weaken_exc)
  fix s
  consider (none) "cur s = None" | (free) p where "cur s = Some p" "p_ns (procs s p) = None"
    | (bad) "\<not> ns_inv s" | (ok) p n where "ns_inv s" "cur s = Some p" "p_ns (procs s p) = Some n"
    by (cases "cur s"; cases "ns_inv s"; metis option.exhaust)
  then show "wp clone (\<lambda>_. evolves s) blocks_not s"
  proof cases
    case none
    show ?thesis unfolding clone_def
      apply (rule wp_kbindI, rule wp_myproc, rule wp_kbindI, rule wp_allocnamespace; unfold option.case)
       apply (simp add: none wp_def)
      apply (rule wp_kretI, rule evolves_pn, simp add: pn_def)
      done
  next
    case free
    show ?thesis unfolding clone_def
      apply (rule wp_kbindI, rule wp_myproc, rule wp_kbindI, rule wp_allocnamespace; unfold option.case)
       apply (rule wp_kbindI, rule wp_kderefI [OF free(1)], rule wp_kbindI, rule wp_kgetI, rule wp_kthenI, rule wp_kmodI)
       apply (simp add: ns_allocated_def free wp_def)
      apply (rule wp_kretI, rule evolves_pn, simp add: pn_def)
      done
  next
    case bad
    then show ?thesis by (intro wp_nosw nosw_fork_clone) (simp add: evolves_def)
  next
    case ok
    note ch = ns_inv_chain [OF ok(1,3)]
    show ?thesis
      by (rule wp_clone [OF ok refl], erule evolves_pn, erule evolves_taken, erule (1) evolves_ns_child_failed [OF _ ch(1)],
          erule (1) evolves_new_ns_child [OF _ ch(1)])
  qed
qed

subsection \<open>exit and wait\<close>

lemma lives_wpD:
  assumes "lives R m" "\<And>a t. R s t \<Longrightarrow> Q a t" "\<And>t. R s t \<Longrightarrow> E Switch t" "\<And>e t. e \<noteq> Switch \<Longrightarrow> E e t"
  shows "wp m Q E s"
proof -
  obtain r t where ms: "m s = (r, t)" by (cases "m s")
  then show ?thesis using livesD [OF assms(1) ms] assms(2-4) by (cases r) (auto simp: wp_def, metis)
qed

lemma wp_get_ns_head:
  "(\<And>h. Q h s) \<Longrightarrow> (\<And>e. e \<noteq> Switch \<Longrightarrow> E e s) \<Longrightarrow> wp (get_ns_head ns) Q E s"
  unfolding get_ns_head_def
  by (cases ns) (auto simp: wp_def kbind_def split: option.splits)

lemma evolves_parent:
  assumes "p_parent (procs s q) \<noteq> None"
  shows "evolves s (upd_proc q (\<lambda>x. x\<lparr>p_parent := h\<rparr>) s)"
proof (rule evolvesI)
  assume i: "ns_inv s"
  show "ns_inv (upd_proc q (\<lambda>x. x\<lparr>p_parent := h\<rparr>) s)"
    by (rule ns_inv_upd_same [OF i]) (use ns_invD(10) [OF i, of q] ns_invD(9) [OF i, of q] assms in auto)
qed simp

lemma lives_reparent: "lives evolves (reparent p)"
  unfolding reparent_def
proof (intro evolves.lives_rules lives_wp)
  fix q s
  show "wp (reparent_one p q) (\<lambda>_. evolves s) (\<lambda>e t. e = Switch \<longrightarrow> evolves s t) s"
    unfolding reparent_one_def
    apply (rule wp_kbindI, rule wp_kgetI)
    apply (cases "p_parent (procs s q) = Some p"; simp only: kwhen_True kwhen_False simp_thms)
     apply (rule wp_kbindI, rule wp_kgetI, rule wp_kbindI, rule wp_get_ns_head)
      apply (rule wp_kthenI, rule wp_kmodI, rule lives_wpD [OF lives_kept [OF core_wakeup(1)]])
        apply (erule evolves.trans [OF evolves_parent, rotated], simp)
       apply (rule impI, erule evolves.trans [OF evolves_parent, rotated], simp)
      apply simp
     apply simp
    apply (rule wp_kretI, rule evolves.refl)
    done
qed

lemma core_close_files [core_rules]: "moves kept (close_files p)"
  unfolding close_files_def by (intro core_split core_rules) (simp add: pcore_def)

lemma lives_freeproc: "lives evolves (freeproc p)"
  by (rule lives_wp, rule wp_weaken_exc, rule wp_freeproc, erule evolves_freed)

lemma lives_exit: "lives evolves (exit st)"
proof -
  have *: "lives evolves (exit_finish p st)" for p
    unfolding exit_finish_def
    by (intro evolves.lives_rules lives_reparent; intro lives_kept core_rules core_split; simp add: pcore_def)
  show ?thesis
    unfolding exit_def
    by (intro evolves.lives_rules *; intro lives_kept core_rules core_split; simp add: pcore_def)
qed

lemma lives_wait_loop: "lives evolves (wait_loop p addr)"
proof -
  have *: "lives evolves (wait_scan ps p addr hk)" for ps hk
  proof (induction ps arbitrary: hk)
    case (Cons q ps)
    show ?case unfolding wait_scan.simps
      by (intro evolves.lives_rules lives_freeproc Cons; intro lives_kept core_rules core_split)
  qed (unfold wait_scan.simps, intro evolves.lives_rules)
  show ?thesis
    unfolding wait_loop_def
    by (intro evolves.lives_rules *; intro lives_kept core_rules core_split)
qed

lemma lives_wait: "lives evolves (wait addr)"
  unfolding wait_def by (intro evolves.lives_rules lives_wait_loop; intro lives_kept core_rules)

section \<open>System calls and traps\<close>

lemma core_tf [core_rules]: "moves kept (tf_store p off v)" "moves kept (tf_load p off)"
  unfolding tf_store_def tf_load_def by (intro core_split core_rules)+

lemma core_pagetables [core_rules]: "moves kept (proc_pagetable p)" "moves kept (proc_freepagetable pt sz)"
  unfolding proc_pagetable_def proc_freepagetable_def by (intro core_split core_rules)+

lemma core_growproc [core_rules]: "moves kept (growproc n)"
  unfolding growproc_def by (intro core_split core_rules; simp add: pcore_def)

lemma core_ns_walks [core_rules]: "moves kept (compare_ns a b)" "moves kept (get_ns_head ns)" "moves kept myns"
  unfolding compare_ns_def get_ns_head_def myns_def by (intro core_split core_rules)+

lemma core_ps_list [core_rules]: "moves kept (ps_list limit pids glob)"
proof -
  have v: "moves kept (ps_visible p)" for p
    unfolding ps_visible_def by (intro core_split core_rules)
  have c: "moves kept (ps_count ps n)" for ps n
    by (induction ps arbitrary: n) (unfold ps_count.simps, intro core_split, intro core_split v)
  have l: "moves kept (ps_list_loop ps limit pids glob n)" for ps limit n
  proof (induction ps arbitrary: n)
    case (Cons p ps)
    show ?case unfolding ps_list_loop.simps by (intro core_split core_rules v Cons)
  qed (unfold ps_list_loop.simps, intro core_split)
  show ?thesis unfolding ps_list_def Let_def by (intro core_split c l)
qed

lemma core_ps_info [core_rules]: "moves kept (ps_info pid a)"
proof -
  have f: "moves kept (ps_find ps pid c)" for ps c
  proof (induction ps arbitrary: c)
    case (Cons p ps)
    show ?case unfolding ps_find.simps by (intro core_split core_rules Cons)
  qed (unfold ps_find.simps, intro core_split)
  have q: "moves kept (ps_put p ptr bs rest)" if "moves kept rest" for p ptr bs rest
    unfolding ps_put_def by (intro core_split core_rules that)
  have pp: "moves kept (ps_parent_pid p)" for p
    unfolding ps_parent_pid_def by (intro core_split core_rules)
  show ?thesis unfolding ps_info_def by (intro core_split core_rules f q pp)
qed

lemma core_args [core_rules]:
  "moves kept (fetchaddr a)" "moves kept (fetchstr a n)" "moves kept (argraw i)" "moves kept (argint i)" "moves kept (argaddr i)"
  "moves kept (argstr i n)" "moves kept (argfd i)"
  unfolding fetchaddr_def fetchstr_def argint_def argaddr_def argstr_def argfd_def argraw_def
  by (intro core_split core_rules)+

lemma core_fdalloc [core_rules]: "moves kept (fdalloc f)"
proof -
  have *: "moves kept (fdalloc_loop fds p f)" for fds p
  proof (induction fds)
    case (Cons fd fds)
    show ?case unfolding fdalloc_loop.simps by (intro core_split core_rules Cons) (simp add: pcore_def)
  qed (unfold fdalloc_loop.simps, intro core_split)
  show ?thesis unfolding fdalloc_def by (intro core_split core_rules *)
qed

lemma core_sys_proc [core_rules]:
  "moves kept sys_getpid" "moves kept sys_sbrk" "moves kept sys_sleep" "moves kept sys_kill" "moves kept sys_ps_list"
  "moves kept sys_ps_list_global" "moves kept sys_ps_info" "moves kept sys_poweroff" "moves kept sys_dup" "moves kept sys_read"
  "moves kept sys_write" "moves kept sys_close" "moves kept sys_fstat"
  unfolding sys_getpid_def sys_sbrk_def sys_sleep_def sys_sleep_loop_def sys_kill_def sys_ps_list_def sys_ps_list_global_def
    sys_ps_info_def sys_poweroff_def sys_dup_def sys_read_def sys_write_def sys_close_def sys_fstat_def Let_def
  by (intro core_split core_rules; simp add: pcore_def)+

lemma core_dirs [core_rules]: "moves kept (isdirempty dp)" "moves kept (create path ty ma mi)"
proof -
  have *: "moves kept (isdirempty_loop k dp off)" for k off
  proof (induction k arbitrary: off)
    case (Suc k)
    show ?case unfolding isdirempty_loop.simps by (intro core_split core_rules Suc)
  qed (unfold isdirempty_loop.simps, intro core_split)
  show "moves kept (isdirempty dp)" unfolding isdirempty_def by (intro core_split *)
  show "moves kept (create path ty ma mi)"
    unfolding create_def create_fail_def by (intro core_split core_rules core_kmod; simp)
qed

lemma core_sys_file [core_rules]:
  "moves kept sys_link" "moves kept sys_unlink" "moves kept sys_open" "moves kept sys_mkdir" "moves kept sys_mknod"
  "moves kept sys_chdir" "moves kept sys_pipe"
  unfolding sys_link_def link_bad_def sys_unlink_def unlink_bad_def sys_open_def open_inode_def open_fail_def sys_mkdir_def
    sys_mknod_def sys_chdir_def sys_pipe_def
  by (intro core_split core_rules core_kmod; simp add: pcore_def)+

lemma core_loadseg [core_rules]: "moves kept (loadseg pt va ip off sz)"
proof -
  have "moves kept (loadseg_loop pt va ip off sz i)" for i
  proof (induction pt va ip off sz i rule: loadseg_loop.induct)
    case (1 pt va ip off sz i)
    show ?case by (subst loadseg_loop.simps, unfold Let_def, intro core_split core_rules 1; simp)
  qed
  then show ?thesis unfolding loadseg_def .
qed

lemma core_exec [core_rules]: "moves kept sys_exec"
proof -
  have bad: "moves kept (exec_bad pt sz ip)" for pt sz ip
    unfolding exec_bad_def by (intro core_split core_rules)
  have load: "moves kept (exec_load k pt ip off sz)" for k pt ip off sz
  proof (induction k arbitrary: off sz)
    case (Suc k)
    show ?case unfolding exec_load.simps Let_def by (intro core_split core_rules Suc)
  qed (unfold exec_load.simps, intro core_split)
  have push: "moves kept (exec_push as n pt sp sb us)" for as n pt sp sb us
  proof (induction as arbitrary: n sp us)
    case (Cons a as)
    show ?case unfolding exec_push.simps Let_def by (intro core_split core_rules Cons)
  qed (unfold exec_push.simps, intro core_split)
  have stack: "moves kept (exec_stack path as e pt sz)" for path as e pt sz
    unfolding exec_stack_def Let_def by (intro core_split core_rules bad push; simp add: pcore_def)
  have ex: "moves kept (exec path as)" for path as
    unfolding exec_def by (intro core_split core_rules bad load stack)
  have args: "moves kept (exec_args k i u as)" for k i u as
  proof (induction k arbitrary: i as)
    case (Suc k)
    show ?case unfolding exec_args.simps by (intro core_split core_rules Suc)
  qed (unfold exec_args.simps, intro core_split)
  show ?thesis unfolding sys_exec_def by (intro core_split core_rules ex args)
qed

lemma lives_sys_ids: "lives evolves sys_fork" "lives evolves sys_clone" "lives evolves sys_exit" "lives evolves sys_wait"
  unfolding sys_fork_def sys_clone_def sys_exit_def sys_wait_def
  by (intro evolves.lives_rules lives_fork lives_clone lives_exit lives_wait; intro lives_kept core_rules core_split)+

lemma pred_option_if: "pred_option P x \<Longrightarrow> pred_option P y \<Longrightarrow> pred_option P (if b then x else y)"
  by simp

lemma lives_syscalls: "pred_option (lives evolves) (syscalls num)"
  unfolding syscalls_def
  by (intro pred_option_if option.pred_inject(1) option.pred_inject(2) [THEN iffD2] lives_sys_ids;
    intro lives_kept core_rules core_split)

lemma lives_syscall: "lives evolves syscall"
proof -
  have f: "lives evolves f" if "syscalls num = Some f" for num f
    using lives_syscalls [of num] that by simp
  have *: "lives evolves (case (if 0 < num \<and> num < 28 then syscalls num else None) of
       Some f \<Rightarrow> kbind f (\<lambda>r. tf_store p (tf_a 0) r)
     | None \<Rightarrow>
         kbind (kget (\<lambda>s. procs s p)) (\<lambda>x.
         kthen (printf (''%d %s: unknown sys call %d'' @ [CHR 0x0A])
           [Fint (p_pid x), Fstr (Some (cstr (p_name x))), Fint num])
         (tf_store p (tf_a 0) (- 1))))" for p num
  proof (cases "if 0 < num \<and> num < 28 then syscalls num else None")
    case None
    show ?thesis unfolding None option.case by (intro lives_kept core_rules core_split)
  next
    case (Some g)
    then have "syscalls num = Some g" by (simp split: if_split_asm)
    then show ?thesis unfolding Some option.case by (intro evolves.l_kbind f lives_kept core_rules)
  qed
  show ?thesis
    unfolding syscall_def Let_def by (intro evolves.l_kbind *; intro lives_kept core_rules core_split)
qed

subsection \<open>Traps and the scheduler\<close>

lemma core_csr [core_rules]: "moves kept (modcsr f)"
  by (rule core_kmod) simp

lemma core_devintr [core_rules]: "moves kept devintr"
  unfolding devintr_def plic_claim_def plic_complete_def by (intro core_split core_rules)

lemma core_returns [core_rules]:
  "moves kept usertrapret" "moves kept (usertrap_leave p)" "moves kept kerneltrap" "moves kept forkret"
  unfolding usertrapret_def usertrap_leave_def kerneltrap_def forkret_def
  by (intro core_split core_rules core_kmod; simp add: pcore_def)+

lemma core_resumes [core_rules]: "moves kept (sched_resume b)" "moves kept (yield_resume p b)" "moves kept (sleep_resume p b l)"
  unfolding sched_resume_def yield_resume_def sleep_resume_def
  by (intro core_split core_rules; simp add: pcore_def)+

lemma lives_usertrap: "lives evolves usertrap"
  unfolding usertrap_def
  by (intro evolves.lives_rules lives_exit lives_syscall; intro lives_kept core_rules core_split; simp add: pcore_def)

text \<open>
  A step of the machine, as far as processes and namespaces are concerned: a hart runs a piece of
  kernel code from one of the places where control enters or is given back, up to the point where
  it returns or switches; or anything happens outside the kernel's tables (user code, a device, another
  hart becoming the one that is looked at).
\<close>

inductive kernel_code :: "unit op \<Rightarrow> bool" where
  "kernel_code usertrap"
| "kernel_code kerneltrap"
| "kernel_code forkret"
| "kernel_code scheduler_enter"
| "kernel_code (kbind (scheduler_try p) (\<lambda>_. kret ()))"
| "kernel_code (scheduler_back p)"
| "kernel_code (yield_resume p b)"
| "kernel_code (sleep_resume p b l)"
| "kernel_code (usertrap_leave p)"
| "kernel_code (kbind (wait_loop p a) (\<lambda>r. tf_store p (tf_a 0) (of_int r)))"
| "kernel_code (kbind (sys_sleep_loop n t0) (\<lambda>r. tf_store p (tf_a 0) r))"
| "kernel_code (acquiresleep_loop l)"

inductive kstep :: "kstate \<Rightarrow> kstate \<Rightarrow> bool" where
  code: "kernel_code m \<Longrightarrow> m s = (r, t) \<Longrightarrow> live r \<Longrightarrow> kstep s t"
| outside: "pn t = pn s \<Longrightarrow> kstep s t"

inductive_cases kstepE: "kstep s t"

lemma lives_kernel_code: "kernel_code m \<Longrightarrow> lives evolves m"
proof (induction rule: kernel_code.induct)
  case 1 show ?case by (rule lives_usertrap)
next
  case 10 show ?case by (intro evolves.l_kbind lives_wait_loop lives_kept core_rules)
qed (unfold sys_sleep_loop_def acquiresleep_loop_def, (intro lives_kept core_rules core_split core_kmod; simp)+)

lemma evolves_kstep: "kstep s t \<Longrightarrow> evolves s t"
  by (erule kstepE) (auto intro: evolves_pn dest: livesD [OF lives_kernel_code])

lemma evolves_ksteps: "kstep\<^sup>*\<^sup>* s t \<Longrightarrow> evolves s t"
  by (induction rule: rtranclp_induct) (auto intro: evolves.refl evolves.trans evolves_kstep)

section \<open>Boot\<close>

definition fresh :: "kstate \<Rightarrow> bool" where
  "fresh s \<longleftrightarrow> (\<forall>p. p_ns (procs s p) = None \<and> p_parent (procs s p) = None \<and> p_pid (procs s p) = 0)
     \<and> (\<forall>n. ns_used (namespaces s n) = 0) \<and> nextpid s = 1"

lemma ns_inv_fresh: "fresh s \<Longrightarrow> ns_inv s"
  by (simp add: fresh_def ns_inv_def proc_ok_def pids_apart_def)

definition stays_fresh :: "kstate \<Rightarrow> kstate \<Rightarrow> bool" where
  "stays_fresh s t \<longleftrightarrow> (fresh s \<longrightarrow> fresh t)"

interpretation stays_fresh: state_rel stays_fresh
  by unfold_locales (simp_all add: stays_fresh_def)

lemma fresh_kept: "moves kept m \<Longrightarrow> moves stays_fresh m"
proof (erule moves_mono)
  fix s t
  assume "kept s t"
  then have "core t = core s" by (simp add: kept_def)
  note c = coreD [OF this]
  show "stays_fresh s t" unfolding stays_fresh_def fresh_def c by simp
qed

lemma fresh_tables: "moves stays_fresh procinit" "moves stays_fresh namespaceinit"
  unfolding procinit_def namespaceinit_def
  by (intro stays_fresh.split_rules fresh_kept [OF core_locks(8)] stays_fresh.m_kmod; simp add: stays_fresh_def fresh_def)+

lemma core_inits [core_rules]:
  "moves kept consoleinit" "moves kept printfinit" "moves kept kvminithart" "moves kept trapinit" "moves kept trapinithart"
  "moves kept plicinit" "moves kept plicinithart" "moves kept binit" "moves kept iinit" "moves kept fileinit"
  unfolding consoleinit_def uartinit_def WriteReg_def printfinit_def kvminithart_def trapinit_def trapinithart_def plicinit_def
    plicinithart_def binit_def initsleeplock_def link_front_def iinit_def fileinit_def
  by (intro core_split core_rules core_kmod; simp)+

lemma core_kinit [core_rules]: "moves kept kinit"
proof -
  have "moves kept (freerange_loop p e)" for p e
    by (induction p e rule: freerange_loop.induct) (subst freerange_loop.simps, intro core_split core_rules; simp)
  then show ?thesis unfolding kinit_def freerange_def by (intro core_split core_rules)
qed

lemma core_kvminit [core_rules]: "moves kept kvminit"
proof -
  have *: "moves kept (kvmmap pt va pa sz perm)" for pt va pa sz perm
    unfolding kvmmap_def by (intro core_split core_rules)
  show ?thesis unfolding kvminit_def kvmmake_def proc_mapstacks_def by (intro core_split core_rules core_kmod *) simp_all
qed

lemma core_virtio_disk_init [core_rules]: "moves kept virtio_disk_init"
  unfolding virtio_disk_init_def Let_def
  by (intro core_split core_rules core_kmod; simp)

lemma wp_any: "wp m Q blocks_not s \<Longrightarrow> wp m Q (\<lambda>_ _. True) s"
  by (erule wp_mono) simp_all

lemma wp_moves_any: "moves R m \<Longrightarrow> (\<And>a t. R s t \<Longrightarrow> Q a t) \<Longrightarrow> wp m Q (\<lambda>_ _. True) s"
  by (simp add: moves_def wp_def split: prod.splits res.splits) (metis snd_conv)

text \<open>What \<open>userinit\<close> leaves: one process, the head of the only namespace.\<close>

definition booted :: "kstate \<Rightarrow> bool" where
  "booted t \<longleftrightarrow> (\<exists>p n. initproc t = Some p \<and> initnamespace t = Some n \<and> p_state (procs t p) = RUNNABLE
     \<and> p_ns (procs t p) = Some n \<and> p_pid (procs t p) = 1 \<and> p_pids (procs t p) 0 = 1
     \<and> ns_head (namespaces t n) = Some p \<and> ns_depth (namespaces t n) = 0 \<and> next_ns_pid (namespaces t n) = 2
     \<and> (\<forall>q. q \<noteq> p \<longrightarrow> p_ns (procs t q) = None))"

lemma ns_inv_allocated_ns:
  assumes "ns_inv s" "ns_allocated n s t"
  shows "ns_inv t" "chain_ok (namespaces t) 0 n"
proof -
  have e: "ns_ext (namespaces s) (namespaces t)" using assms(2) by (simp add: ns_allocated_def ns_ext_def)
  show "ns_inv t"
    by (rule ns_inv_ext [OF assms(1) e])
      (use ns_invD(3) [OF assms(1)] assms(2) in \<open>auto simp: ns_allocated_def new_namespace_def split: if_split_asm\<close>)
  show "chain_ok (namespaces t) 0 n" using assms(2) by (simp add: ns_allocated_def new_namespace_def)
qed

definition first_process :: "nat \<Rightarrow> nat \<Rightarrow> kstate \<Rightarrow> bool" where
  "first_process p n t \<longleftrightarrow> ns_inv t \<and> initproc t = Some p \<and> initnamespace t = Some n \<and> p_ns (procs t p) = Some n
     \<and> p_pid (procs t p) = 1 \<and> p_pids (procs t p) 0 = 1 \<and> ns_depth (namespaces t n) = 0 \<and> next_ns_pid (namespaces t n) = 2
     \<and> (\<forall>q. q \<noteq> p \<longrightarrow> p_ns (procs t q) = None)"

lemma first_process_kept:
  assumes "kept s t" "first_process p n s"
  shows "first_process p n t"
proof -
  note c = coreD [OF conjunct1 [OF assms(1) [unfolded kept_def]]]
  show ?thesis using assms(2) ns_inv_kept [OF assms(1)] unfolding first_process_def c by blast
qed

lemma wp_first_kept:
  assumes "moves kept m" "first_process p n s" "\<And>a t. first_process p n t \<Longrightarrow> Q a t"
  shows "wp m Q (\<lambda>_ _. True) s"
  by (rule wp_moves_any [OF assms(1)]) (rule assms(3), erule first_process_kept, rule assms(2))

lemma wp_first_running:
  assumes "moves (carry p) m" "first_process p n s" "p_state (procs s p) = st"
    and Q: "\<And>a t. first_process p n t \<Longrightarrow> p_state (procs t p) = st \<Longrightarrow> namespaces t = namespaces s \<Longrightarrow> Q a t"
  shows "wp m Q (\<lambda>_ _. True) s"
proof (rule wp_moves_any [OF assms(1)])
  fix a t
  assume t: "carry p s t"
  have "kept s t"
    using t by (auto simp: kept_def core_def carry_def only_proc_def same_ids_def fun_eq_iff) (metis+)
  then show "Q a t" using first_process_kept assms(2,3) t by (intro Q) (auto simp: carry_def)
qed

lemma first_process_allocated:
  assumes f: "fresh s" and t: "ns_allocated n s t" and a: "allocated p 0 n (t\<lparr>initnamespace := Some n\<rparr>) u"
  shows "first_process p n (u\<lparr>initproc := Some p\<rparr>)"
proof -
  note i = ns_inv_allocated_ns [OF ns_inv_fresh [OF f] t]
  have "ns_inv (t\<lparr>initnamespace := Some n\<rparr>)" using i(1) by (rule ns_inv_cong [THEN iffD2, rotated 3]) simp_all
  then have "ns_inv u" by (rule ns_inv_allocated [OF _ a]) (use i(2) in \<open>simp_all add: MAXDEPTH_def\<close>)
  then have "ns_inv (u\<lparr>initproc := Some p\<rparr>)" by (rule ns_inv_cong [THEN iffD2, rotated 3]) simp_all
  then show ?thesis
    using a t f by (auto simp: first_process_def allocated_def ns_allocated_def fresh_def only_proc_def same_ids_def new_namespace_def
        bump_def ancs_def)
qed


lemma first_process_head:
  assumes "first_process p n s"
  shows "first_process p n (upd_ns n (\<lambda>x. x\<lparr>ns_head := h, num_proc := k\<rparr>) s)" (is "first_process p n ?t")
proof -
  have i: "ns_inv s" using assms by (simp add: first_process_def)
  have "ns_inv ?t"
    by (rule ns_inv_ext [OF i]) (use ns_invD(3) [OF i] in \<open>auto simp: ns_ext_def split: if_split_asm\<close>)
  then show ?thesis using assms by (simp add: first_process_def)
qed

lemma upd_proc_same_ns: "p_ns (procs s p) = Some n \<Longrightarrow> upd_proc p (\<lambda>x. x\<lparr>p_ns := Some n\<rparr>) s = s"
  by (simp add: upd_proc_def fun_upd_idem)

lemma wp_userinit:
  assumes f: "fresh s"
  shows "wp userinit (\<lambda>_ t. ns_inv t \<and> booted t) (\<lambda>_ _. True) s"
  unfolding userinit_def
  apply (rule wp_kbindI, rule wp_any, rule wp_allocnamespace)
   apply (rule wp_kthenI, rule wp_kmodI, rule wp_kbindI, rule wp_any, rule wp_allocproc [where d = 0])
      apply (simp add: ns_inv_allocated_ns(2) [OF ns_inv_fresh [OF f]] del: chain_ok.simps)
     apply (simp add: MAXDEPTH_def)
    apply (rule wp_kthenI, rule wp_kmodI, drule (1) first_process_allocated [OF f])
    apply (rule wp_kbindI, rule wp_kderefI [OF refl], rule wp_kbindI, rule wp_kgetI)
    apply (rule wp_kthenI, rule wp_first_kept, rule core_vm, assumption)
    apply (rule wp_kthenI, rule wp_first_kept, rule core_modp, simp add: pcore_def, assumption)
    apply (rule wp_kthenI, rule wp_first_kept, rule core_tf, assumption)
    apply (rule wp_kthenI, rule wp_first_kept, rule core_tf, assumption)
    apply (rule wp_kthenI, rule wp_first_kept, rule core_modp, simp add: pcore_def, assumption)
    apply (rule wp_kbindI, rule wp_first_kept, rule core_namei, assumption)
    apply (rule wp_kthenI, rule wp_kmodI, rule wp_kbindI, rule wp_first_running [where st = RUNNABLE, OF carry_pn [OF pn_uptime]])
      apply (erule first_process_kept [rotated], rule kept_upd_proc; simp add: pcore_def)
     apply simp
    apply (rule wp_kthenI, rule wp_first_running [OF carry_modp], simp add: pcore_def, assumption, assumption)
    apply (rule wp_kbindI, rule wp_first_running [OF carry_pn [OF pn_uptime]], assumption, assumption)
    apply (rule wp_kthenI, rule wp_first_running [OF carry_modp], simp add: pcore_def, assumption, assumption)
    apply (rule wp_kbindI, rule wp_kderefI [OF refl])
    apply (rule wp_kthenI, rule wp_first_running [OF carry_pn [OF pn_lk(1)]], assumption, assumption)
    apply (rule wp_kthenI, rule wp_kmodI)
    apply (rule wp_kthenI, rule wp_first_running [where st = RUNNABLE, OF carry_pn [OF pn_lk(2)]])
      apply (erule first_process_head)
     apply simp
    apply (rule wp_kthenI, rule wp_kmodI, subst upd_proc_same_ns, simp add: first_process_def)
    apply (rule wp_first_running [OF carry_pn [OF pn_lk(2)]], assumption, assumption)
    apply (simp add: booted_def first_process_def)
   apply (rule wp_kthenI, rule wp_kmodI, simp add: wp_def)
  apply (drule spec [of _ 0], simp add: f [unfolded fresh_def] NUMNS_def)
  done

lemma wp_kseq_Cons: "wp (kthen m (kseq ms)) Q E s \<Longrightarrow> wp (kseq (m # ms)) Q E s"
  by simp

lemma wp_fresh:
  assumes "fresh s" "moves stays_fresh m" "\<And>a t. fresh t \<Longrightarrow> Q a t"
  shows "wp m Q (\<lambda>_ _. True) s"
  by (rule wp_moves_any [OF assms(2)]) (use assms(1,3) in \<open>simp add: stays_fresh_def\<close>)

lemma wp_main_hart0:
  assumes "fresh s"
  shows "wp main_hart0 (\<lambda>_ t. ns_inv t \<and> booted t) (\<lambda>_ _. True) s"
  unfolding main_hart0_def
  apply (insert assms)
  apply (rule wp_kseq_Cons, rule wp_kthenI, rule wp_fresh, assumption, (rule fresh_tables | rule fresh_kept, rule core_rules))+
  apply (rule wp_kseq_Cons, rule wp_kthenI, rule wp_mono [OF wp_userinit], assumption)
   apply (rule wp_kseq_Cons, rule wp_kthenI, rule wp_kmodI, simp only: kseq.simps, rule wp_kretI)
   apply (rule conjI, erule ns_inv_cong [THEN iffD2, rotated 3, OF conjunct1], simp_all add: booted_def)
  done

end
