(* ===== verification/Xv6_NsProps.thy ===== *)
theory Xv6_NsProps
  imports Xv6_NsInv
begin

text \<open>
  What the invariant of process identifiers and PID namespaces gives: properties of the boot sequence, of
  \<open>fork\<close>, \<open>clone\<close>, \<open>wait\<close>, \<open>exit\<close> and \<open>ps_list\<close>, and of every state the machine can get into.
\<close>

section \<open>The tree, without its representation\<close>

text \<open>\<open>a\<close> is \<open>n\<close> or one of the namespaces above it.\<close>

definition ns_up :: "(nat \<Rightarrow> namespace) \<Rightarrow> nat \<Rightarrow> nat \<Rightarrow> bool" where
  "ns_up t x y \<longleftrightarrow> ns_parent (t x) = Some y"

abbreviation ns_above :: "(nat \<Rightarrow> namespace) \<Rightarrow> nat \<Rightarrow> nat \<Rightarrow> bool" where
  "ns_above t \<equiv> (ns_up t)\<^sup>*\<^sup>*"

lemma ns_above_ancs: "chain_ok t d n \<Longrightarrow> ns_above t n a \<longleftrightarrow> a \<in> ancs t d n"
proof (induction d arbitrary: n)
  case 0
  then have "\<not> ns_up t n x" for x by (simp add: ns_up_def)
  then show ?case by (auto elim: converse_rtranclpE)
next
  case (Suc d)
  then obtain m where m: "ns_parent (t n) = Some m" "chain_ok t d m" by (elim chain_ok_SucE)
  have "ns_above t n a \<longleftrightarrow> a = n \<or> ns_above t m a"
  proof
    assume "ns_above t n a"
    then show "a = n \<or> ns_above t m a" by (cases rule: converse_rtranclpE) (use m(1) in \<open>auto simp: ns_up_def\<close>)
  next
    assume "a = n \<or> ns_above t m a"
    then show "ns_above t n a" using m(1) by (auto simp: ns_up_def intro: converse_rtranclp_into_rtranclp)
  qed
  then show ?case using Suc.IH [OF m(2)] ancs_Suc [OF Suc.prems m(1)] by auto
qed

lemma ancs_depthE:
  assumes "chain_ok t d n" "a \<in> ancs t d n"
  obtains "ns_depth (t a) \<le> d" "anc t d n (ns_depth (t a)) = a"
proof -
  from assms(2) obtain k where k: "k \<le> d" "a = anc t d n k" by (auto simp: ancs_def)
  with chain_ok_depth [OF chain_ok_anc [OF assms(1) k(1)]] that show thesis by simp
qed

lemma ns_inv_apart:
  assumes i: "ns_inv t" and ne: "p \<noteq> q" and n: "p_ns (procs t p) = Some n" and m: "p_ns (procs t q) = Some m"
    and a: "ns_above (namespaces t) n a" "ns_above (namespaces t) m a"
  shows "p_pids (procs t p) (ns_depth (namespaces t a)) \<noteq> p_pids (procs t q) (ns_depth (namespaces t a))"
proof -
  note cn = ns_inv_chain(1) [OF i n] and cm = ns_inv_chain(1) [OF i m]
  have an: "a \<in> ancs (namespaces t) (ns_depth (namespaces t n)) n" and am: "a \<in> ancs (namespaces t) (ns_depth (namespaces t m)) m"
    using a by (simp_all add: ns_above_ancs [OF cn] ns_above_ancs [OF cm])
  show ?thesis
    using ancs_depthE [OF cn an] ancs_depthE [OF cm am] ns_invD(2) [OF i ne] n m unfolding pids_apart_def by metis
qed

section \<open>A small instance\<close>

text \<open>
  The first process in the root namespace; a namespace below it with a head, which is running,
  and a zombie child of that head.
\<close>

definition nested_ns :: "nat \<Rightarrow> namespace" where
  "nested_ns = (\<lambda>_. zero_namespace)(
     0 := \<lparr>ns_parent = None, ns_head = Some 0, ns_id = 1, ns_depth = 0, ns_used = 1, next_ns_pid = 4, num_proc = 3\<rparr>,
     1 := \<lparr>ns_parent = Some 0, ns_head = Some 1, ns_id = 2, ns_depth = 1, ns_used = 1, next_ns_pid = 3, num_proc = 2\<rparr>)"

definition nested_procs :: "nat \<Rightarrow> proc" where
  "nested_procs = (\<lambda>_. zero_proc)(
     0 := zero_proc\<lparr>p_state := SLEEPING, p_pid := 1, p_ns := Some 0, p_pids := (\<lambda>_. 0)(0 := 1)\<rparr>,
     1 := zero_proc\<lparr>p_state := RUNNING, p_pid := 2, p_parent := Some 0, p_ns := Some 1, p_pids := (\<lambda>_. 0)(0 := 2, 1 := 1)\<rparr>,
     2 := zero_proc\<lparr>p_state := ZOMBIE, p_pid := 3, p_parent := Some 1, p_ns := Some 1, p_pids := (\<lambda>_. 0)(0 := 3, 1 := 2)\<rparr>)"

definition nested_state :: kstate where
  "nested_state = zero_state\<lparr>lk := setcur (Some 1) (lk zero_state), procs := nested_procs, namespaces := nested_ns,
     nextpid := 4, nextnamespace := 3, initproc := Some 0, initnamespace := Some 0\<rparr>"

lemma nested_sel [simp]:
  "procs nested_state = nested_procs" "namespaces nested_state = nested_ns" "nextpid nested_state = 4"
  "lk nested_state = setcur (Some 1) (lk zero_state)" "cur nested_state = Some 1"
  by (simp_all add: nested_state_def)

lemma nested_quiet: "quiet (lk nested_state)"
  by (simp add: zero_quiet)

lemma nested_chain: "chain_ok nested_ns 0 0" "chain_ok nested_ns 1 1"
  by (simp_all add: nested_ns_def NUMNS_def zero_namespace_def)

lemma nested_ns_simps [simp]:
  "nested_ns 0 = \<lparr>ns_parent = None, ns_head = Some 0, ns_id = 1, ns_depth = 0, ns_used = 1, next_ns_pid = 4, num_proc = 3\<rparr>"
  "nested_ns 1 = \<lparr>ns_parent = Some 0, ns_head = Some 1, ns_id = 2, ns_depth = 1, ns_used = 1, next_ns_pid = 3, num_proc = 2\<rparr>"
  "nested_ns (Suc 0) = \<lparr>ns_parent = Some 0, ns_head = Some 1, ns_id = 2, ns_depth = 1, ns_used = 1, next_ns_pid = 3, num_proc = 2\<rparr>"
  by (simp_all add: nested_ns_def)

lemma nested_proc_cases:
  obtains "p = 0" | "p = 1" | "p = 2" | "nested_procs p = zero_proc"
  by (cases "p = 0"; cases "p = 1"; cases "p = 2") (auto simp: nested_procs_def)

lemma nested_procs_simps [simp]:
  "nested_procs 0 = zero_proc\<lparr>p_state := SLEEPING, p_pid := 1, p_ns := Some 0, p_pids := (\<lambda>_. 0)(0 := 1)\<rparr>"
  "nested_procs 1 = zero_proc\<lparr>p_state := RUNNING, p_pid := 2, p_parent := Some 0, p_ns := Some 1, p_pids := (\<lambda>_. 0)(0 := 2, 1 := 1)\<rparr>"
  "nested_procs (Suc 0) = zero_proc\<lparr>p_state := RUNNING, p_pid := 2, p_parent := Some 0, p_ns := Some 1, p_pids := (\<lambda>_. 0)(0 := 2, 1 := 1)\<rparr>"
  "nested_procs 2 = zero_proc\<lparr>p_state := ZOMBIE, p_pid := 3, p_parent := Some 1, p_ns := Some 1, p_pids := (\<lambda>_. 0)(0 := 3, 1 := 2)\<rparr>"
  by (simp_all add: nested_procs_def)

lemma nested_inv: "ns_inv nested_state"
proof -
  have ok: "proc_ok nested_ns (nested_procs p)" for p
    by (cases p rule: nested_proc_cases)
      (auto simp: proc_ok_def nested_chain [simplified] MAXDEPTH_def zero_proc_def le_Suc_eq NUMNS_def)
  have ap: "pids_apart nested_ns (nested_procs p) (nested_procs q)" if "p \<noteq> q" for p q
    using that
    by (cases p rule: nested_proc_cases; cases q rule: nested_proc_cases)
      (auto simp: pids_apart_def zero_proc_def le_Suc_eq)
  have used: "1 \<le> next_ns_pid (nested_ns n)" if "ns_used (nested_ns n) \<noteq> 0" for n
    using that by (auto simp: nested_ns_def zero_namespace_def split: if_splits)
  have gid: "p_pid (nested_procs p) = (if p = 0 then 1 else if p = 1 then 2 else if p = 2 then 3 else 0)" for p
    by (simp add: nested_procs_def zero_proc_def)
  have "p_ns (nested_procs p) \<noteq> None \<longrightarrow> p_pid (nested_procs p) \<noteq> 0" "p_parent (nested_procs p) \<noteq> None \<longrightarrow> p_ns (nested_procs p) \<noteq> None"
    "p_state (nested_procs p) = UNUSED \<longrightarrow> p_ns (nested_procs p) = None" for p
    by (cases p rule: nested_proc_cases; simp add: zero_proc_def)+
  with ok ap used show ?thesis unfolding ns_inv_def nested_sel gid by (auto split: if_splits)
qed


lemma nested_above: "ns_above nested_ns 1 0" "ns_above nested_ns 1 1" "ns_above nested_ns 0 0"
  by (auto simp: ns_up_def)

section \<open>Properties of the process tree\<close>



text \<open>
  C21. A namespace is never given back. Once a slot of \<open>namespaces\<close> is in use it stays in use, with
  the same parent and depth, in every later state: nothing in the kernel resets \<open>used\<close>.
\<close>

theorem namespaces_never_freed:
  assumes "ns_inv s" "kstep\<^sup>*\<^sup>* s t" "ns_used (namespaces s n) \<noteq> 0"
  shows "ns_used (namespaces t n) \<noteq> 0 \<and> ns_parent (namespaces t n) = ns_parent (namespaces s n)
     \<and> ns_depth (namespaces t n) = ns_depth (namespaces s n) \<and> next_ns_pid (namespaces s n) \<le> next_ns_pid (namespaces t n)"
  using evolves_ksteps [OF assms(2)] assms(1,3) by (simp add: evolves_def ns_ext_def)

theorem namespaces_never_freed_witness:
  "ns_inv nested_state \<and> kstep\<^sup>*\<^sup>* nested_state (nested_state\<lparr>ticks := 5\<rparr>)
   \<and> ns_used (namespaces (nested_state\<lparr>ticks := 5\<rparr>) 1) \<noteq> 0"
proof -
  have st: "kstep\<^sup>*\<^sup>* nested_state (nested_state\<lparr>ticks := 5\<rparr>)"
    by (rule r_into_rtranclp, rule kstep.outside) (simp add: pn_def)
  show ?thesis using namespaces_never_freed [OF nested_inv st, of 1] nested_inv st by simp
qed



text \<open>
  C22. \<open>compare_ns\<close> returns, and decides whether the second namespace is the first one or lies above it in
  the tree, for the namespace of any process.
\<close>

theorem compare_ns_decides_above:
  assumes "ns_inv s" "p_ns (procs s p) = Some n"
  shows "compare_ns (Some n) (Some m) s = (Ret (ns_above (namespaces s) n m), s)"
proof -
  note c = ns_inv_chain(1) [OF assms]
  show ?thesis by (simp add: compare_ns_def compare_ns_from_chain [OF c] ns_above_ancs [OF c])
qed

theorem compare_ns_decides_above_witness:
  "ns_inv nested_state \<and> p_ns (procs nested_state 2) = Some 1
   \<and> compare_ns (Some 1) (Some 0) nested_state = (Ret True, nested_state)
   \<and> compare_ns (Some 0) (Some 1) nested_state = (Ret False, nested_state)"
proof -
  have n: "p_ns (procs nested_state 2) = Some 1" "p_ns (procs nested_state 0) = Some 0" by simp_all
  have "\<not> ns_above nested_ns 0 1"
    by (simp add: ns_above_ancs [OF nested_chain(1)])
  with compare_ns_decides_above [OF nested_inv n(1), of 0] compare_ns_decides_above [OF nested_inv n(2), of 1]
    nested_above nested_inv n
  show ?thesis by simp
qed

section \<open>fork and clone\<close>

lemma alloc_failed_rest:
  assumes "alloc_failed d n s t" "p_state (procs s q) \<noteq> UNUSED"
  shows "procs t q = procs s q"
  using assms(1) unfolding alloc_failed_def
proof (elim disjE exE conjE)
  fix p u
  assume a: "allocated p d n s u" "freed p u t"
  have "q \<noteq> p" using a(1) assms(2) by (auto simp: allocated_def)
  then show ?thesis using a by (simp add: allocated_def freed_def only_proc_def)
qed (simp add: pn_def)

text \<open>The pid that a child has been given in the namespace of its parent is new there.\<close>

lemma new_pid_fresh:
  assumes i: "ns_inv s" and n: "p_ns (procs s q) = Some m" "ns_above (namespaces s) m n"
  shows "p_pids (procs s q) (ns_depth (namespaces s n)) < next_ns_pid (namespaces s n)"
proof -
  note c = ns_inv_chain(1) [OF i n(1)]
  have "n \<in> ancs (namespaces s) (ns_depth (namespaces s m)) m" using n(2) by (simp add: ns_above_ancs [OF c])
  from ancs_depthE [OF c this] ns_invD(1) [OF i, of q] n(1) show ?thesis unfolding proc_ok_def by metis
qed

lemma ns_inv_next: "ns_inv s \<Longrightarrow> p_ns (procs s p) = Some n \<Longrightarrow> 1 \<le> next_ns_pid (namespaces s n)"
  using ns_inv_chain chain_ok_used ns_invD(3) by blast

text \<open>
  C4. \<open>fork\<close>. It returns -1, and every process is as it was; or it returns the pid, in the caller's
  namespace, of a new process: runnable, a child of the caller, in the caller's namespace, in a slot of the
  table that was free. The pid is positive and differs from that of every process visible in that
  namespace; no other process has changed. \<open>fork\<close> does not block.
\<close>

theorem fork_new_child:
  assumes "ns_inv s" "cur s = Some p" "p_ns (procs s p) = Some n"
  shows "wp fork (\<lambda>r t.
      r = - 1 \<and> (\<forall>q. p_state (procs s q) \<noteq> UNUSED \<longrightarrow> procs t q = procs s q)
    \<or> 1 \<le> r \<and> (\<exists>c < NPROC. p_state (procs s c) = UNUSED \<and> (\<forall>q. q \<noteq> c \<longrightarrow> procs t q = procs s q)
        \<and> p_state (procs t c) = RUNNABLE \<and> p_parent (procs t c) = Some p \<and> p_ns (procs t c) = Some n
        \<and> p_pids (procs t c) (ns_depth (namespaces s n)) = r
        \<and> (\<forall>q m. p_ns (procs s q) = Some m \<longrightarrow> ns_above (namespaces s) m n
              \<longrightarrow> p_pids (procs s q) (ns_depth (namespaces s n)) \<noteq> r))) (\<lambda>e _. e \<noteq> Switch) s"
proof (rule wp_fork [OF assms refl])
  fix t
  assume "alloc_failed (ns_depth (namespaces s n)) n s t"
  then show "- 1 = (- 1 :: int) \<and> (\<forall>q. p_state (procs s q) \<noteq> UNUSED \<longrightarrow> procs t q = procs s q) \<or> 1 \<le> (- 1 :: int) \<and> X" for X
    by (auto dest: alloc_failed_rest)
next
  fix c t
  assume t: "new_child p c (ns_depth (namespaces s n)) n s t"
  note D = new_childD [OF t]
  have "p_pids (procs t c) (ns_depth (namespaces s n)) = next_ns_pid (namespaces s n)"
    using D(8) [of "ns_depth (namespaces s n)"] by simp
  moreover have "p_pids (procs s q) (ns_depth (namespaces s n)) \<noteq> next_ns_pid (namespaces s n)"
    if "p_ns (procs s q) = Some m" "ns_above (namespaces s) m n" for q m
    using new_pid_fresh [OF assms(1) that] by simp
  ultimately show "next_ns_pid (namespaces s n) = - 1 \<and> (\<forall>q. p_state (procs s q) \<noteq> UNUSED \<longrightarrow> procs t q = procs s q)
      \<or> 1 \<le> next_ns_pid (namespaces s n) \<and> (\<exists>c < NPROC. p_state (procs s c) = UNUSED \<and> (\<forall>q. q \<noteq> c \<longrightarrow> procs t q = procs s q)
        \<and> p_state (procs t c) = RUNNABLE \<and> p_parent (procs t c) = Some p \<and> p_ns (procs t c) = Some n
        \<and> p_pids (procs t c) (ns_depth (namespaces s n)) = next_ns_pid (namespaces s n)
        \<and> (\<forall>q m. p_ns (procs s q) = Some m \<longrightarrow> ns_above (namespaces s) m n
              \<longrightarrow> p_pids (procs s q) (ns_depth (namespaces s n)) \<noteq> next_ns_pid (namespaces s n)))"
    using D(1-5,7) ns_inv_next [OF assms(1,3)] by (intro disjI2 conjI exI [of _ c]) (auto simp: only_proc_def)
qed

theorem fork_new_child_witness:
  "ns_inv nested_state \<and> cur nested_state = Some 1 \<and> p_ns (procs nested_state 1) = Some 1
   \<and> wp fork (\<lambda>r t. r = - 1 \<or> 1 \<le> r) (\<lambda>e _. e \<noteq> Switch) nested_state"
proof -
  have c: "cur nested_state = Some 1" and n: "p_ns (procs nested_state 1) = Some 1" by simp_all
  show ?thesis using nested_inv c n by (auto intro: wp_mono [OF fork_new_child [OF nested_inv c n]])
qed

lemma ns_child_failed_rest:
  assumes "ns_child_failed m d n s t" "p_state (procs s q) \<noteq> UNUSED"
  shows "procs t q = procs s q"
proof -
  obtain u where u: "procs u = procs s"
    and alt: "alloc_failed (Suc d) m u t \<or> (\<exists>c v. allocated c (Suc d) m u v \<and> freed c (upd_ns m (\<lambda>x. x\<lparr>ns_head := Some c\<rparr>) v) t)"
    using assms(1) unfolding ns_child_failed_def ns_taken_def by blast
  from alt show ?thesis
  proof (elim disjE exE conjE)
    assume "alloc_failed (Suc d) m u t"
    from alloc_failed_rest [OF this] show ?thesis using assms(2) by (simp add: u)
  next
    fix c v
    assume a: "allocated c (Suc d) m u v" "freed c (upd_ns m (\<lambda>x. x\<lparr>ns_head := Some c\<rparr>) v) t"
    have "q \<noteq> c" using a(1) assms(2) by (auto simp: allocated_def u)
    then show ?thesis using a by (simp add: allocated_def freed_def only_proc_def u)
  qed
qed

lemma new_ns_childD:
  assumes t: "new_ns_child p c m d n s t" and ch: "chain_ok (namespaces s) d n"
  shows "m < NUMNS" "ns_used (namespaces s m) = 0" "ns_used (namespaces t m) \<noteq> 0" "ns_parent (namespaces t m) = Some n"
    "ns_depth (namespaces t m) = Suc d" "ns_head (namespaces t m) = Some c" "c < NPROC" "p_state (procs s c) = UNUSED"
    "\<And>q. q \<noteq> c \<Longrightarrow> procs t q = procs s q" "p_state (procs t c) = RUNNABLE" "p_parent (procs t c) = Some p"
    "p_ns (procs t c) = Some m" "p_pids (procs t c) (Suc d) = 1" "p_pids (procs t c) d = next_ns_pid (namespaces s n)"
proof -
  obtain u v where u: "ns_taken m n (Suc d) s u" and v: "allocated c (Suc d) m u v"
    and w: "copied p c (upd_ns m (\<lambda>x. x\<lparr>ns_head := Some c\<rparr>) v) t"
    using t unfolding new_ns_child_def by blast
  have ne: "n \<noteq> m" using u chain_ok_used [OF ch] by (auto simp: ns_taken_def)
  have pids: "p_pids (procs t c) k = next_ns_pid (namespaces u (anc (namespaces u) (Suc d) m k))" if "k \<le> Suc d" for k
    using v w that by (simp add: allocated_def copied_def)
  have par: "ns_parent (namespaces u m) = Some n" "ns_depth (namespaces u m) = Suc d" "ns_used (namespaces u m) \<noteq> 0"
    "next_ns_pid (namespaces u m) = 1" "namespaces u n = namespaces s n" "procs u = procs s"
    using u ne by (simp_all add: ns_taken_def cloned_table_def new_namespace_def)
  have un: "anc (namespaces u) (Suc d) m d = n" using par(1) by simp
  show "p_pids (procs t c) (Suc d) = 1" using pids [of "Suc d"] par(4) by simp
  show "p_pids (procs t c) d = next_ns_pid (namespaces s n)" using pids [of d] par(5) un by (simp del: anc.simps)
  show "m < NUMNS" "ns_used (namespaces s m) = 0" using u by (simp_all add: ns_taken_def)
  have tm: "ns_used (namespaces t m) = ns_used (namespaces u m)" "ns_parent (namespaces t m) = ns_parent (namespaces u m)"
    "ns_depth (namespaces t m) = ns_depth (namespaces u m)" "ns_head (namespaces t m) = Some c"
    using v w by (simp_all add: allocated_def copied_def)
  show "ns_used (namespaces t m) \<noteq> 0" "ns_parent (namespaces t m) = Some n" "ns_depth (namespaces t m) = Suc d"
    "ns_head (namespaces t m) = Some c" using tm par by simp_all
  show "c < NPROC" "p_state (procs s c) = UNUSED" "p_state (procs t c) = RUNNABLE" "p_parent (procs t c) = Some p"
    "p_ns (procs t c) = Some m" using v w par(6) by (simp_all add: allocated_def copied_def)
  show "procs t q = procs s q" if "q \<noteq> c" for q
    using v w par(6) that by (simp add: allocated_def copied_def only_proc_def)
qed

text \<open>
  C3. \<open>clone\<close>. It returns -1, and every process is as it was; or a slot of \<open>namespaces\<close> that was
  free is now a namespace directly below the caller's, headed by a new runnable child of the caller. The
  child has pid 1 in its own namespace, and the value returned is its pid in the caller's namespace, where
  no visible process has it. \<open>clone\<close> does not block.
\<close>

theorem clone_new_namespace:
  assumes "ns_inv s" "cur s = Some p" "p_ns (procs s p) = Some n"
  shows "wp clone (\<lambda>r t.
      r = - 1 \<and> (\<forall>q. p_state (procs s q) \<noteq> UNUSED \<longrightarrow> procs t q = procs s q)
    \<or> 1 \<le> r \<and> (\<exists>m c. m < NUMNS \<and> ns_used (namespaces s m) = 0 \<and> ns_used (namespaces t m) \<noteq> 0
        \<and> ns_parent (namespaces t m) = Some n \<and> ns_depth (namespaces t m) = Suc (ns_depth (namespaces s n))
        \<and> Suc (ns_depth (namespaces s n)) < MAXDEPTH \<and> ns_head (namespaces t m) = Some c
        \<and> c < NPROC \<and> p_state (procs s c) = UNUSED \<and> (\<forall>q. q \<noteq> c \<longrightarrow> procs t q = procs s q)
        \<and> p_state (procs t c) = RUNNABLE \<and> p_parent (procs t c) = Some p \<and> p_ns (procs t c) = Some m
        \<and> p_pids (procs t c) (Suc (ns_depth (namespaces s n))) = 1
        \<and> p_pids (procs t c) (ns_depth (namespaces s n)) = r
        \<and> (\<forall>q k. p_ns (procs s q) = Some k \<longrightarrow> ns_above (namespaces s) k n
              \<longrightarrow> p_pids (procs s q) (ns_depth (namespaces s n)) \<noteq> r))) (\<lambda>e _. e \<noteq> Switch) s"
  (is "wp _ (\<lambda>r t. r = - 1 \<and> ?same t \<or> 1 \<le> r \<and> ?new r t) _ _")
proof (rule wp_clone [OF assms refl], goal_cases)
  case (1 t)
  then have "?same t" by (simp add: pn_def)
  then show ?case by blast
next
  case (2 m t)
  then have "?same t" by (simp add: ns_taken_def)
  then show ?case by blast
next
  case (3 m t)
  then have "?same t" by (auto dest: ns_child_failed_rest)
  then show ?case by blast
next
  case (4 m c t)
  note D = new_ns_childD [OF 4(2) ns_inv_chain(1) [OF assms(1,3)]]
  have fr: "p_pids (procs s q) (ns_depth (namespaces s n)) \<noteq> next_ns_pid (namespaces s n)"
    if "p_ns (procs s q) = Some k" "ns_above (namespaces s) k n" for q k
    using new_pid_fresh [OF assms(1) that] by simp
  have "?new (next_ns_pid (namespaces s n)) t"
    by (rule exI [of _ m], rule exI [of _ c], intro conjI D allI impI fr) (use 4(1) in auto)
  then show ?case using ns_inv_next [OF assms(1,3)] by blast
qed


theorem clone_new_namespace_witness:
  "ns_inv nested_state \<and> cur nested_state = Some 1 \<and> p_ns (procs nested_state 1) = Some 1
   \<and> wp clone (\<lambda>r t. r = - 1 \<or> (\<exists>m c. ns_parent (namespaces t m) = Some 1 \<and> p_ns (procs t c) = Some m \<and> p_pids (procs t c) 2 = 1))
       (\<lambda>e _. e \<noteq> Switch) nested_state"
proof -
  have c: "cur nested_state = Some 1" and n: "p_ns (procs nested_state 1) = Some 1" by simp_all
  have two: "Suc (ns_depth (namespaces nested_state 1)) = 2" by simp
  show ?thesis
    using nested_inv c n
    by (intro conjI wp_mono [OF clone_new_namespace [OF nested_inv c n, unfolded two]]) blast+
qed

section \<open>Failing clones\<close>

lemma allocnamespace_loop_eq:
  assumes "quiet (lk s)"
  shows "allocnamespace_loop ns s = (case find (\<lambda>n. ns_used (namespaces s n) = 0) ns of
     None \<Rightarrow> (Ret None, s)
   | Some n \<Rightarrow> (Ret (Some n), upd_ns n (\<lambda>_. new_namespace (nextnamespace s)) (s\<lparr>nextnamespace := nextnamespace s + 1\<rparr>)))"
proof (induction ns)
  case (Cons n ns)
  show ?case
  proof (cases "ns_used (namespaces s n) = 0")
    case True
    then show ?thesis using assms
      by (simp add: allocnamespaceid_def upd_ns_def new_namespace_upd)
  next
    case False
    then show ?thesis using assms Cons by simp
  qed
qed simp

lemma clone_full:
  assumes "quiet (lk s)" "\<forall>m < NUMNS. ns_used (namespaces s m) \<noteq> 0"
  shows "clone s = (Ret (- 1), s)"
proof -
  have "find (\<lambda>n. ns_used (namespaces s n) = 0) [0..<NUMNS] = None" using assms(2) by (auto simp: find_None_iff)
  then show ?thesis using assms(1) by (simp add: clone_def allocnamespace_def allocnamespace_loop_eq del: allocnamespace_loop.simps)
qed

lemma clone_too_deep:
  assumes q: "quiet (lk s)" and c: "cur s = Some p" and n: "p_ns (procs s p) = Some n" "MAXDEPTH \<le> ns_depth (namespaces s n) + 1"
    and u: "ns_used (namespaces s n) \<noteq> 0"
    and m: "m < NUMNS" "ns_used (namespaces s m) = 0" "\<forall>k < m. ns_used (namespaces s k) \<noteq> 0"
  shows "clone s = (Ret (- 1), upd_ns m (\<lambda>_. (new_namespace (nextnamespace s))\<lparr>ns_parent := Some n\<rparr>)
     (s\<lparr>nextnamespace := nextnamespace s + 1\<rparr>))"
proof -
  have "find (\<lambda>n. ns_used (namespaces s n) = 0) [0..<NUMNS] = Some m"
    using m by (auto simp: find_Some_iff intro!: exI [of _ m])
  moreover have "n \<noteq> m" using u m(2) by auto
  ultimately show ?thesis using q c n
    by (simp add: clone_def allocnamespace_def allocnamespace_loop_eq upd_ns_def del: allocnamespace_loop.simps)
qed

definition free_ns :: "kstate \<Rightarrow> nat set" where
  "free_ns s = {m. m < NUMNS \<and> ns_used (namespaces s m) = 0}"

lemma finite_free_ns [simp]: "finite (free_ns s)"
  by (simp add: free_ns_def)

lemma clone_too_deep_step:
  assumes "quiet (lk s)" "cur s = Some p" "p_ns (procs s p) = Some n" "MAXDEPTH \<le> ns_depth (namespaces s n) + 1"
    "ns_used (namespaces s n) \<noteq> 0"
  obtains t where "clone s = (Ret (- 1), t)" "lk t = lk s" "procs t = procs s" "namespaces t n = namespaces s n"
    "card (free_ns t) = card (free_ns s) - 1"
proof (cases "free_ns s = {}")
  case True
  then have "clone s = (Ret (- 1), s)" by (intro clone_full assms(1)) (auto simp: free_ns_def)
  with True show thesis by (intro that) simp_all
next
  case False
  define m where "m = (LEAST m. m \<in> free_ns s)"
  have m: "m \<in> free_ns s" "\<And>k. k < m \<Longrightarrow> k \<notin> free_ns s"
    using False LeastI_ex [of "\<lambda>m. m \<in> free_ns s"] not_less_Least unfolding m_def by blast+
  let ?t = "upd_ns m (\<lambda>_. (new_namespace (nextnamespace s))\<lparr>ns_parent := Some n\<rparr>) (s\<lparr>nextnamespace := nextnamespace s + 1\<rparr>)"
  have "clone s = (Ret (- 1), ?t)"
    by (rule clone_too_deep [OF assms]) (use m in \<open>auto simp: free_ns_def\<close>)
  moreover have "free_ns ?t = free_ns s - {m}" by (auto simp: free_ns_def new_namespace_def)
  then have "card (free_ns ?t) = card (free_ns s) - 1" using m(1) by simp
  moreover have "n \<noteq> m" using assms(5) m(1) by (auto simp: free_ns_def)
  ultimately show thesis by (intro that) simp_all
qed

text \<open>
  C20. \<open>clone\<close> takes a namespace before it looks at the depth. A process in a namespace of the deepest level that
  calls \<open>clone\<close> over and over gets -1 every time, and each call uses up one namespace: after as many
  calls as there were free slots the table is full, and from then on \<open>clone\<close> fails for everybody.
\<close>

theorem failing_clones_exhaust_namespaces:
  assumes "quiet (lk s)" "cur s = Some p" "p_ns (procs s p) = Some n" "MAXDEPTH \<le> ns_depth (namespaces s n) + 1"
    "ns_used (namespaces s n) \<noteq> 0"
  shows "(\<forall>k. fst (clone (((\<lambda>x. snd (clone x)) ^^ k) s)) = Ret (- 1) \<and> procs (((\<lambda>x. snd (clone x)) ^^ k) s) = procs s)
    \<and> (\<forall>k m. card (free_ns s) \<le> k \<longrightarrow> m < NUMNS \<longrightarrow> ns_used (namespaces (((\<lambda>x. snd (clone x)) ^^ k) s) m) \<noteq> 0)"
proof -
  let ?f = "\<lambda>k. ((\<lambda>x. snd (clone x)) ^^ k) s"
  have inv: "lk (?f k) = lk s \<and> procs (?f k) = procs s \<and> namespaces (?f k) n = namespaces s n
      \<and> card (free_ns (?f k)) = card (free_ns s) - k \<and> fst (clone (?f k)) = Ret (- 1)" for k
  proof (induction k)
    case 0
    from clone_too_deep_step [OF assms] show ?case by (metis diff_zero fst_conv funpow_0)
  next
    case (Suc k)
    have a: "quiet (lk (?f k))" "cur (?f k) = Some p" "p_ns (procs (?f k) p) = Some n" "MAXDEPTH \<le> ns_depth (namespaces (?f k) n) + 1"
      "ns_used (namespaces (?f k) n) \<noteq> 0" using Suc assms by simp_all
    from clone_too_deep_step [OF a] obtain t where t: "clone (?f k) = (Ret (- 1), t)" "lk t = lk (?f k)" "procs t = procs (?f k)"
      "namespaces t n = namespaces (?f k) n" "card (free_ns t) = card (free_ns (?f k)) - 1" by metis
    have b: "quiet (lk t)" "cur t = Some p" "p_ns (procs t p) = Some n" "MAXDEPTH \<le> ns_depth (namespaces t n) + 1"
      "ns_used (namespaces t n) \<noteq> 0" using a t by simp_all
    have "fst (clone t) = Ret (- 1)" using clone_too_deep_step [OF b] by (metis fst_conv)
    then show ?case using Suc t by simp
  qed
  have "ns_used (namespaces (?f k) m) \<noteq> 0" if "card (free_ns s) \<le> k" "m < NUMNS" for k m
  proof -
    have "free_ns (?f k) = {}" using inv [of k] that(1) by (simp flip: card_0_eq)
    then show ?thesis using that(2) by (auto simp: free_ns_def)
  qed
  with inv show ?thesis by blast
qed

definition deep_state :: kstate where
  "deep_state = zero_state\<lparr>lk := setcur (Some 1) (lk zero_state),
     procs := (procs zero_state)(1 := zero_proc\<lparr>p_state := RUNNING, p_pid := 1, p_ns := Some 7\<rparr>),
     namespaces := (\<lambda>i. if i < 8 then zero_namespace\<lparr>ns_depth := i, ns_used := 1, next_ns_pid := 2,
       ns_parent := if i = 0 then None else Some (i - 1)\<rparr> else zero_namespace)\<rparr>"

theorem failing_clones_exhaust_namespaces_witness:
  "quiet (lk deep_state) \<and> cur deep_state = Some 1 \<and> p_ns (procs deep_state 1) = Some 7
   \<and> fst (clone (((\<lambda>x. snd (clone x)) ^^ 3) deep_state)) = Ret (- 1)
   \<and> card (free_ns deep_state) = 56 \<and> ns_used (namespaces (((\<lambda>x. snd (clone x)) ^^ 56) deep_state) 63) \<noteq> 0"
proof -
  have a: "quiet (lk deep_state)" "cur deep_state = Some 1" "p_ns (procs deep_state 1) = Some 7"
    "MAXDEPTH \<le> ns_depth (namespaces deep_state 7) + 1" "ns_used (namespaces deep_state 7) \<noteq> 0"
    by (simp_all add: deep_state_def zero_quiet MAXDEPTH_def)
  have "free_ns deep_state = {8..<64}"
    by (auto simp: free_ns_def deep_state_def NUMNS_def zero_namespace_def split: if_splits)
  then have b: "card (free_ns deep_state) = 56" by simp
  show ?thesis using failing_clones_exhaust_namespaces [OF a] a b by (simp add: NUMNS_def)
qed

end
