(* ===== verification/Xv6_VmProps.thy ===== *)
theory Xv6_VmProps
  imports Xv6_Vm
begin

text \<open>
  Address translation and the copies between kernel and user memory as functions of the physical memory
  alone, and what they promise.
\<close>

section \<open>Translation\<close>

text \<open>
  The page table that \<open>walk\<close> arrives at without allocating, the entry of a page, and the physical
  address of a user page (0 if there is none).
\<close>

primrec table_at :: "memory \<Rightarrow> nat list \<Rightarrow> u64 \<Rightarrow> u64 \<Rightarrow> u64 option" where
  "table_at m [] pt va = Some pt"
| "table_at m (l # ls) pt va =
     (let v = load64 m (pte_at pt l va) in if v AND PTE_V \<noteq> 0 then table_at m ls (PTE2PA v) va else None)"

definition leaf_cell :: "memory \<Rightarrow> u64 \<Rightarrow> u64 \<Rightarrow> u64" where
  "leaf_cell m pt va = (case table_at m [2, 1] pt va of None \<Rightarrow> 0 | Some t \<Rightarrow> pte_at t 0 va)"

definition xlate :: "memory \<Rightarrow> u64 \<Rightarrow> u64 \<Rightarrow> u64" where
  "xlate m pt va =
     (if MAXVA \<le> va \<or> leaf_cell m pt va = 0 then 0 else
      let v = load64 m (leaf_cell m pt va) in
      if v AND PTE_V = 0 \<or> v AND PTE_U = 0 then 0 else PTE2PA v)"

lemma walk_levels_False: "walk_levels ls pt va False s = (Ret (table_at (mem s) ls pt va), s)"
  by (induction ls arbitrary: pt) (simp_all add: Let_def)

lemma walk_False: "walk pt va False s = (if MAXVA \<le> va then (Exc (Panic ''walk''), s) else (Ret (leaf_cell (mem s) pt va), s))"
  by (simp add: walk_def walk_levels_False leaf_cell_def del: walk_levels.simps)

lemma walkaddr_eq: "walkaddr pt va s = (Ret (xlate (mem s) pt va), s)"
  by (simp add: walkaddr_def walk_False xlate_def Let_def)

section \<open>Copies\<close>

function put_user :: "memory \<Rightarrow> u64 \<Rightarrow> u64 \<Rightarrow> u8 list \<Rightarrow> int \<times> memory" where
  "put_user m pt va bs =
     (if bs = [] then (0, m) else
      let pa = xlate m pt (PGROUNDDOWN va); n = page_chunk va (length bs) in
      if pa = 0 then (- 1, m)
      else put_user (store_bytes m (pa + (va - PGROUNDDOWN va)) (take n bs)) pt (PGROUNDDOWN va + PGSIZE) (drop n bs))"
  by auto
termination
  by (relation "measure (\<lambda>(m, pt, va, bs). length bs)") (auto simp: page_chunk_pos)

function get_user :: "memory \<Rightarrow> u64 \<Rightarrow> u64 \<Rightarrow> nat \<Rightarrow> int \<times> u8 list" where
  "get_user m pt va len =
     (if len = 0 then (0, []) else
      let pa = xlate m pt (PGROUNDDOWN va); n = page_chunk va len in
      if pa = 0 then (- 1, [])
      else let (r, rest) = get_user m pt (PGROUNDDOWN va + PGSIZE) (len - n)
           in (r, mem_bytes m (pa + (va - PGROUNDDOWN va)) n @ rest))"
  by auto
termination
  by (relation "measure (\<lambda>(m, pt, va, len). len)") (auto simp: page_chunk_pos)

declare put_user.simps [simp del] get_user.simps [simp del]

lemma copyout_eq: "copyout pt va bs s = (Ret (fst (put_user (mem s) pt va bs)), s\<lparr>mem := snd (put_user (mem s) pt va bs)\<rparr>)"
proof (induction pt va bs arbitrary: s rule: copyout.induct)
  case (1 pt va bs)
  show ?case
  proof (cases "bs = [] \<or> xlate (mem s) pt (PGROUNDDOWN va) = 0")
    case True
    then show ?thesis by (subst copyout.simps, subst (1 2) put_user.simps) (auto simp: Let_def walkaddr_eq)
  next
    case False
    then show ?thesis
      using 1 [OF _ refl _ refl, of "xlate (mem s) pt (PGROUNDDOWN va)"]
      by (subst copyout.simps, subst (1 2) put_user.simps) (simp add: Let_def walkaddr_eq)
  qed
qed

lemma copyin_eq: "copyin pt va len s = (Ret (get_user (mem s) pt va len), s)"
proof (induction pt va len arbitrary: s rule: copyin.induct)
  case (1 pt va len)
  show ?case
  proof (cases "len = 0 \<or> xlate (mem s) pt (PGROUNDDOWN va) = 0")
    case True
    then show ?thesis by (subst copyin.simps, subst get_user.simps) (auto simp: Let_def walkaddr_eq)
  next
    case False
    then show ?thesis
      using 1 [OF _ refl _ refl, of "xlate (mem s) pt (PGROUNDDOWN va)"]
      by (subst copyin.simps, subst get_user.simps) (simp add: Let_def walkaddr_eq split: prod.splits)
  qed
qed

section \<open>Pages\<close>

lemma pg_aligned_add:
  assumes "pg_aligned p" "i < 4096"
  shows "unat (p + of_nat i) = unat p + i" "PGROUNDDOWN (p + of_nat i) = p"
proof -
  have a: "unat p mod 4096 = 0" using assms(1) by (simp add: pg_aligned_unat)
  have "unat p + i < 2 ^ 64"
  proof -
    define k where "k = unat p div 4096"
    have k: "unat p = 4096 * k" using a mult_div_mod_eq [of 4096 "unat p"] by (simp add: k_def)
    then have "k < 2 ^ 52" using unat_lt64 [of p] by simp
    then show ?thesis using k assms(2) by simp
  qed
  then show u: "unat (p + of_nat i) = unat p + i" using assms(2) by (simp add: unat_add64)
  have "(unat p + i) mod 4096 = i" using a assms(2) by (metis add.left_neutral mod_add_left_eq mod_less)
  then show "PGROUNDDOWN (p + of_nat i) = p" by (simp add: word_unat_eq_iff unat_PGROUNDDOWN u)
qed

lemma pg_aligned_PTE2PA [simp]: "pg_aligned (PTE2PA v)"
proof -
  have "PTE2PA v = drop_bit 10 v * 4096" by (simp add: PTE2PA_def push_bit_eq_mult)
  then have "unat (PTE2PA v) = unat (drop_bit 10 v) * 4096 mod 2 ^ 64" by (simp add: unat_word_ariths)
  then have "unat (PTE2PA v) mod 4096 = 0" by (simp add: mod_mod_cancel)
  then show ?thesis by (simp add: pg_aligned_unat)
qed

lemma PX_bound: "unat (PX l va) < 512"
proof -
  have "PX l va \<le> 0x1FF" unfolding PX_def by (rule word_and_le1)
  then show ?thesis by (simp add: word_le_nat_alt)
qed

lemma pte_at_page:
  assumes "pg_aligned t" "i < 8"
  shows "PGROUNDDOWN (pte_at t l va + of_nat i) = t"
proof -
  define k where "k = 8 * unat (PX l va) + i"
  have k: "k < 4096" using PX_bound [of l va] assms(2) by (simp add: k_def)
  have "pte_at t l va + of_nat i = t + of_nat k" by (simp add: pte_at_def k_def)
  then show ?thesis using pg_aligned_add(2) [OF assms(1) k] by simp
qed

definition agree :: "u64 set \<Rightarrow> memory \<Rightarrow> memory \<Rightarrow> bool" where
  "agree P m m' \<longleftrightarrow> (\<forall>x. PGROUNDDOWN x \<in> P \<longrightarrow> m x = m' x)"

lemma agree_refl [simp]: "agree P m m"
  by (simp add: agree_def)

lemma agree_trans: "agree P m m' \<Longrightarrow> agree P m' m'' \<Longrightarrow> agree P m m''"
  by (simp add: agree_def)

lemma agree_subset: "agree P m m' \<Longrightarrow> Q \<subseteq> P \<Longrightarrow> agree Q m m'"
  by (auto simp: agree_def)

lemma load64_agree:
  assumes "agree P m m'" "pg_aligned t" "t \<in> P"
  shows "load64 m (pte_at t l va) = load64 m' (pte_at t l va)"
  using assms by (intro load64_cong) (auto simp: agree_def pte_at_page)

text \<open>The pages of the page table that the translation of an address reads.\<close>

primrec tables_on :: "memory \<Rightarrow> nat list \<Rightarrow> u64 \<Rightarrow> u64 \<Rightarrow> u64 set" where
  "tables_on m [] pt va = {pt}"
| "tables_on m (l # ls) pt va =
     insert pt (let v = load64 m (pte_at pt l va) in if v AND PTE_V \<noteq> 0 then tables_on m ls (PTE2PA v) va else {})"

abbreviation tables :: "memory \<Rightarrow> u64 \<Rightarrow> u64 \<Rightarrow> u64 set" where
  "tables m pt va \<equiv> tables_on m [2, 1] pt va"

lemma tables_on_agree:
  assumes "agree (tables_on m ls pt va) m m'" "pg_aligned pt"
  shows "table_at m' ls pt va = table_at m ls pt va" "tables_on m' ls pt va = tables_on m ls pt va"
proof -
  have "table_at m' ls pt va = table_at m ls pt va \<and> tables_on m' ls pt va = tables_on m ls pt va"
    using assms
  proof (induction ls arbitrary: pt)
    case (Cons l ls)
    let ?v = "load64 m (pte_at pt l va)"
    have v: "load64 m' (pte_at pt l va) = ?v"
      using load64_agree [OF Cons.prems] by simp
    show ?case
    proof (cases "?v AND PTE_V = 0")
      case False
      then have "agree (tables_on m ls (PTE2PA ?v) va) m m'"
        by (intro agree_subset [OF Cons.prems(1)]) (auto simp: Let_def)
      with False show ?thesis using Cons.IH [of "PTE2PA ?v"] by (simp add: Let_def v)
    qed (simp add: Let_def v)
  qed simp
  then show "table_at m' ls pt va = table_at m ls pt va" "tables_on m' ls pt va = tables_on m ls pt va" by simp_all
qed

lemma table_at_tables: "table_at m ls pt va = Some t \<Longrightarrow> t \<in> tables_on m ls pt va"
  by (induction ls arbitrary: pt) (auto simp: Let_def split: if_splits)

lemma table_at_aligned: "table_at m ls pt va = Some t \<Longrightarrow> pg_aligned pt \<Longrightarrow> pg_aligned t"
  by (induction ls arbitrary: pt) (auto simp: Let_def split: if_splits)

lemma xlate_agree:
  assumes "agree (tables m pt va) m m'" "pg_aligned pt"
  shows "xlate m' pt va = xlate m pt va"
proof (cases "table_at m [2, 1] pt va")
  case None
  then show ?thesis using tables_on_agree(1) [OF assms] by (simp add: xlate_def leaf_cell_def del: table_at.simps)
next
  case (Some t)
  have "load64 m' (pte_at t 0 va) = load64 m (pte_at t 0 va)"
    by (rule load64_agree [OF assms(1) table_at_aligned [OF Some assms(2)] table_at_tables [OF Some], symmetric])
  then show ?thesis
    using Some tables_on_agree(1) [OF assms] by (simp add: xlate_def leaf_cell_def Let_def del: table_at.simps)
qed

lemma pg_aligned_0 [simp]: "pg_aligned 0"
  by (simp add: pg_aligned_def)

lemma pg_aligned_xlate [simp]: "pg_aligned (xlate m pt va)"
  by (simp add: xlate_def Let_def)

section \<open>Writing and reading back\<close>

text \<open>The virtual pages that a copy of \<open>len\<close> bytes at \<open>va\<close> goes through.\<close>

function pages :: "u64 \<Rightarrow> nat \<Rightarrow> u64 list" where
  "pages va len = (if len = 0 then [] else
     PGROUNDDOWN va # pages (PGROUNDDOWN va + PGSIZE) (len - page_chunk va len))"
  by auto
termination
  by (relation "measure (\<lambda>(va, len). len)") (auto simp: page_chunk_pos)

declare pages.simps [simp del]

text \<open>
  The pages are mapped for the user, to different frames, and none of the frames belongs to the part of
  the page table that maps them.
\<close>

definition separate :: "memory \<Rightarrow> u64 \<Rightarrow> u64 list \<Rightarrow> bool" where
  "separate m pt ps \<longleftrightarrow> pg_aligned pt \<and> (\<forall>v \<in> set ps. xlate m pt v \<noteq> 0) \<and> distinct (map (xlate m pt) ps)
     \<and> (\<forall>v \<in> set ps. \<forall>w \<in> set ps. xlate m pt w \<notin> tables m pt v)"

lemma page_chunk_le: "page_chunk va len \<le> len" "unat (va - PGROUNDDOWN va) + page_chunk va len \<le> 4096"
proof -
  show "page_chunk va len \<le> len" by (simp add: page_chunk_def)
  have "unat (PGSIZE - (va - PGROUNDDOWN va)) = 4096 - unat (va - PGROUNDDOWN va)"
    using page_off_lt [of va] by (simp add: PGSIZE_def unat_sub word_le_nat_alt)
  then show "unat (va - PGROUNDDOWN va) + page_chunk va len \<le> 4096"
    using page_off_lt [of va] by (simp add: page_chunk_def)
qed

lemma chunk_page:
  assumes "pg_aligned pa" "i < page_chunk va len"
  shows "PGROUNDDOWN (pa + (va - PGROUNDDOWN va) + of_nat i) = pa"
proof -
  define k where "k = unat (va - PGROUNDDOWN va) + i"
  have "k < 4096" using page_chunk_le(2) [of va len] assms(2) by (simp add: k_def)
  moreover have "pa + (va - PGROUNDDOWN va) + of_nat i = pa + of_nat k" by (simp add: k_def)
  ultimately show ?thesis using pg_aligned_add(2) [OF assms(1)] by metis
qed

lemma store_chunk_agree:
  assumes "pg_aligned pa"
  shows "agree (- {pa}) m (store_bytes m (pa + (va - PGROUNDDOWN va)) (take (page_chunk va (length bs)) bs))"
  unfolding agree_def
proof (intro allI impI)
  fix x
  assume x: "PGROUNDDOWN x \<in> - {pa}"
  let ?a = "pa + (va - PGROUNDDOWN va)"
  have "\<not> unat (x - ?a) < page_chunk va (length bs)"
  proof
    assume "unat (x - ?a) < page_chunk va (length bs)"
    from chunk_page [OF assms this] have "PGROUNDDOWN x = pa" by simp
    with x show False by simp
  qed
  then show "m x = store_bytes m ?a (take (page_chunk va (length bs)) bs) x" by (simp add: store_bytes_def)
qed

lemma separate_agree:
  assumes "separate m pt ps" "agree (- F) m m'" "F \<subseteq> xlate m pt ` set ps" "v \<in> set ps"
  shows "xlate m' pt v = xlate m pt v" "tables m' pt v = tables m pt v"
proof -
  have "tables m pt v \<subseteq> - F"
  proof
    fix x assume "x \<in> tables m pt v"
    then show "x \<in> - F" using assms(1,3,4) unfolding separate_def by blast
  qed
  then have a: "agree (tables m pt v) m m'" by (rule agree_subset [OF assms(2)])
  have p: "pg_aligned pt" using assms(1) by (simp add: separate_def)
  show "xlate m' pt v = xlate m pt v" by (rule xlate_agree [OF a p])
  show "tables m' pt v = tables m pt v" by (rule tables_on_agree [OF a p])
qed

lemma separate_tl:
  assumes "separate m pt (v # ps)" "agree (- {xlate m pt v}) m m'"
  shows "separate m' pt ps" "map (xlate m' pt) ps = map (xlate m pt) ps"
proof -
  have e: "xlate m' pt w = xlate m pt w" "tables m' pt w = tables m pt w" if "w \<in> set ps" for w
    by (rule separate_agree [OF assms]; use that in simp)+
  show f: "map (xlate m' pt) ps = map (xlate m pt) ps" using e by simp
  show "separate m' pt ps" using assms(1) e unfolding separate_def by (simp add: f)
qed

lemma put_get_user:
  assumes "separate m pt (pages va (length bs))" "length bs < 2 ^ 64"
  shows "fst (put_user m pt va bs) = 0
     \<and> agree (- (xlate m pt ` set (pages va (length bs)))) m (snd (put_user m pt va bs))
     \<and> get_user (snd (put_user m pt va bs)) pt va (length bs) = (0, bs)"
  using assms
proof (induction m pt va bs rule: put_user.induct)
  case (1 m pt va bs)
  show ?case
  proof (cases "bs = []")
    case True
    then show ?thesis by (simp add: put_user.simps get_user.simps)
  next
    case False
    let ?v = "PGROUNDDOWN va" and ?n = "page_chunk va (length bs)"
    let ?pa = "xlate m pt ?v" and ?ps = "pages (?v + PGSIZE) (length (drop ?n bs))"
    let ?m1 = "store_bytes m (?pa + (va - ?v)) (take ?n bs)"
    let ?m' = "snd (put_user ?m1 pt (?v + PGSIZE) (drop ?n bs))"
    have ps: "pages va (length bs) = ?v # ?ps" using False by (subst pages.simps) simp
    have sep: "separate m pt (?v # ?ps)" using "1.prems"(1) by (simp only: ps)
    then have pa: "?pa \<noteq> 0" by (simp add: separate_def)
    have m1: "agree (- {?pa}) m ?m1" by (rule store_chunk_agree) simp
    note t = separate_tl [OF sep m1]
    have put: "put_user m pt va bs = put_user ?m1 pt (?v + PGSIZE) (drop ?n bs)"
      using False pa by (subst put_user.simps) (simp add: Let_def)
    have ih: "fst (put_user ?m1 pt (?v + PGSIZE) (drop ?n bs)) = 0"
      "agree (- (xlate ?m1 pt ` set ?ps)) ?m1 ?m'"
      "get_user ?m' pt (?v + PGSIZE) (length (drop ?n bs)) = (0, drop ?n bs)"
      using "1.IH" [OF False refl refl pa t(1)] "1.prems"(2) by simp_all
    have fr: "xlate ?m1 pt ` set ?ps = xlate m pt ` set ?ps" using t(2) by (metis set_map)
    have ag: "agree (- (xlate m pt ` set (?v # ?ps))) m ?m'"
      by (rule agree_trans [OF agree_subset [OF m1] agree_subset [OF ih(2) [unfolded fr]]]) auto
    have x': "xlate ?m' pt ?v = ?pa"
      by (rule separate_agree(1) [OF sep ag]) simp_all
    have "mem_bytes ?m' (?pa + (va - ?v)) ?n = mem_bytes ?m1 (?pa + (va - ?v)) ?n"
    proof (rule mem_bytes_cong)
      fix i assume i: "i < ?n"
      have "?pa \<notin> xlate m pt ` set ?ps" using sep by (simp add: separate_def)
      then show "?m' (?pa + (va - ?v) + of_nat i) = ?m1 (?pa + (va - ?v) + of_nat i)"
        using ih(2) [unfolded fr] chunk_page [OF pg_aligned_xlate [of m pt ?v] i] by (simp add: agree_def)
    qed
    also have "\<dots> = take ?n bs"
      using mem_bytes_store_bytes_same [of "take ?n bs" m "?pa + (va - ?v)"] page_chunk_le(1) [of va "length bs"] "1.prems"(2)
      by (simp add: min_absorb2)
    finally have "get_user ?m' pt va (length bs) = (0, bs)"
      using False pa ih(3) by (subst get_user.simps) (simp add: Let_def x')
    then show ?thesis using ih(1) ag by (simp only: put ps)
  qed
qed


section \<open>Properties\<close>

text \<open>
  C7. What \<open>copyout\<close> writes, \<open>copyin\<close> reads back, over any number of pages. If the pages from \<open>va\<close> on are
  mapped for the user to different frames outside their own page table, \<open>copyout\<close> succeeds, \<open>copyin\<close> of the
  same range then succeeds with the same bytes, and only bytes of those frames have changed.
\<close>

theorem copyout_copyin_round_trip:
  assumes "separate (mem s) pt (pages va (length bs))" "length bs < 2 ^ 64"
  shows "\<exists>t. copyout pt va bs s = (Ret 0, t) \<and> copyin pt va (length bs) t = (Ret (0, bs), t) \<and> t\<lparr>mem := mem s\<rparr> = s
     \<and> (\<forall>x. (\<forall>v \<in> set (pages va (length bs)). PGROUNDDOWN x \<noteq> xlate (mem s) pt v) \<longrightarrow> mem t x = mem s x)"
proof -
  let ?t = "s\<lparr>mem := snd (put_user (mem s) pt va bs)\<rparr>"
  note pg = put_get_user [OF assms]
  have "copyout pt va bs s = (Ret 0, ?t)" using pg by (simp add: copyout_eq)
  moreover have "copyin pt va (length bs) ?t = (Ret (0, bs), ?t)" using pg by (simp add: copyin_eq)
  moreover have "mem ?t x = mem s x" if "\<forall>v \<in> set (pages va (length bs)). PGROUNDDOWN x \<noteq> xlate (mem s) pt v" for x
  proof -
    have "PGROUNDDOWN x \<in> - (xlate (mem s) pt ` set (pages va (length bs)))" using that by blast
    then show ?thesis using pg unfolding agree_def by simp
  qed
  ultimately show ?thesis by (intro exI [of _ ?t]) simp
qed

definition two_pages :: memory where
  "two_pages = store64 (store64 (store64 (store64 (\<lambda>_. 0) 0x80001000 0x20000801) 0x80002000 0x20000C01)
     0x80003000 0x20004017) 0x80003008 0x20008017"

lemma two_pages_load:
  "load64 two_pages 0x80001000 = 0x20000801" "load64 two_pages 0x80002000 = 0x20000C01"
  "load64 two_pages 0x80003000 = 0x20004017" "load64 two_pages 0x80003008 = 0x20008017"
  by (simp_all add: two_pages_def load64_store64_other cell_aligned_def)

lemma two_pages_walk:
  assumes "va = 0 \<or> va = 0x1000"
  shows "table_at two_pages [2, 1] 0x80001000 va = Some 0x80003000" "tables two_pages 0x80001000 va = {0x80001000, 0x80002000, 0x80003000}"
    "xlate two_pages 0x80001000 va = (if va = 0 then 0x80010000 else 0x80020000)"
  using assms
  by (auto simp: Let_def pte_at_def PX_def PXSHIFT_def two_pages_load PTE_V_def PTE_U_def PTE2PA_def xlate_def leaf_cell_def MAXVA_def)

lemma two_pages_pages: "pages 0xFFE 4 = [0, 0x1000]"
  by (simp add: pages.simps page_chunk_def PGROUNDDOWN_def PGSIZE_def)

theorem copyout_copyin_round_trip_witness:
  "separate (mem (zero_state\<lparr>mem := two_pages\<rparr>)) 0x80001000 (pages 0xFFE (length [1, 2, 3, 4 :: u8]))
   \<and> (\<exists>t. copyout 0x80001000 0xFFE [1, 2, 3, 4] (zero_state\<lparr>mem := two_pages\<rparr>) = (Ret 0, t)
        \<and> copyin 0x80001000 0xFFE 4 t = (Ret (0, [1, 2, 3, 4]), t))"
proof -
  have len: "length [1, 2, 3, 4 :: u8] = 4" by simp
  have a: "separate (mem (zero_state\<lparr>mem := two_pages\<rparr>)) 0x80001000 (pages 0xFFE (length [1, 2, 3, 4 :: u8]))"
    using two_pages_walk [where va = 0] two_pages_walk [where va = "0x1000"]
    unfolding len two_pages_pages
    by (simp add: separate_def pg_aligned_def PGSIZE_def del: tables_on.simps table_at.simps)
  have b: "length [1, 2, 3, 4 :: u8] < 2 ^ 64" by simp
  show ?thesis using copyout_copyin_round_trip [OF a b] a unfolding len by blast
qed

section \<open>Mapping a page\<close>

lemma PTE2PA_PA2PTE:
  assumes "pg_aligned pa" "flags < 1024"
  shows "PTE2PA (PA2PTE pa OR flags) = pa"
proof -
  have lo: "\<not> bit pa k" if "k < 12" for k
  proof -
    have "take_bit 12 pa = 0" using assms(1) by (simp add: take_bit_eq_mod pg_aligned_def PGSIZE_def)
    then show ?thesis using that by (metis bit_take_bit_iff bit_0_eq bot_apply bot_bool_def)
  qed
  have hi: "\<not> bit flags k" if "10 \<le> k" for k
  proof -
    have "take_bit 10 flags = flags" using assms(2) by (simp add: take_bit_eq_mod mod_word_less)
    then show ?thesis using that by (metis bit_take_bit_iff leD)
  qed
  show ?thesis
  proof (rule bit_word_eqI)
    fix k assume "k < LENGTH(64)"
    then have k: "k < 64" by simp
    show "bit (PTE2PA (PA2PTE pa OR flags)) k = bit pa k"
    proof (cases "k < 12")
      case True
      then show ?thesis using lo by (auto simp: PTE2PA_def bit_simps)
    next
      case False
      then have "10 + (k - 12) - 10 + 12 = k" "\<not> bit flags (10 + (k - 12))" "10 + (k - 12) < 64" using hi k by simp_all
      then show ?thesis using False k
        by (auto simp: PTE2PA_def PA2PTE_def bit_simps)
    qed
  qed
qed

lemma flag_in_pte:
  assumes "f AND 1023 = f"
  shows "(PA2PTE pa OR flags) AND f = flags AND f"
proof -
  have "PA2PTE pa AND mask 10 = 0"
    by (rule bit_word_eqI) (auto simp: PA2PTE_def bit_and_iff bit_push_bit_iff bit_mask_iff)
  then have "PA2PTE pa AND 1023 = 0" by (simp add: mask_eq_exp_minus_1)
  moreover have "PA2PTE pa AND f = (PA2PTE pa AND 1023) AND f" using assms(1) by (metis and.assoc and.commute)
  ultimately have "PA2PTE pa AND f = 0" by simp
  then show ?thesis by (simp add: bit.conj_disj_distrib2)
qed

lemma less_1024_take_bit: "(w :: u64) < 1024 \<longleftrightarrow> take_bit 10 w = w"
proof
  show "w < 1024 \<Longrightarrow> take_bit 10 w = w" by (simp add: take_bit_eq_mod mod_word_less)
  show "take_bit 10 w = w \<Longrightarrow> w < 1024" using word_mod_less_divisor [of 1024 w] by (simp add: take_bit_eq_mod)
qed

lemma walk_levels_valid: "table_at (mem s) ls pt va = Some t \<Longrightarrow> walk_levels ls pt va al s = (Ret (Some t), s)"
  by (induction ls arbitrary: pt) (auto simp: Let_def split: if_splits)

lemma cell_aligned_pte: "pg_aligned t \<Longrightarrow> cell_aligned (pte_at t l va)"
proof -
  assume t: "pg_aligned t"
  define k where "k = 8 * unat (PX l va)"
  have k: "k < 4096" using PX_bound [of l va] by (simp add: k_def)
  have "pte_at t l va = t + of_nat k" by (simp add: pte_at_def k_def)
  then have u: "unat (pte_at t l va) = unat t + k" using pg_aligned_add(1) [OF t k] by simp
  have "unat t mod 8 = 0" using t mod_mod_cancel [of 8 4096 "unat t"] by (simp add: pg_aligned_unat)
  then show "cell_aligned (pte_at t l va)" by (simp add: cell_aligned_def u k_def)
qed


text \<open>
  C18. \<open>mappages\<close> and \<open>walkaddr\<close>. Mapping one page at an address whose tables are there and whose entry
  is not in use succeeds without touching anything but that entry; afterwards the address translates to the given
  frame if the permissions let the user at it, and to nothing otherwise.
\<close>

theorem mappages_then_walkaddr:
  assumes "pg_aligned pt" "pg_aligned va" "va < MAXVA" "pg_aligned pa" "perm < 1024"
    and t: "table_at (mem s) [2] pt va = Some t1" "table_at (mem s) [1] t1 va = Some t" "t \<noteq> pt" "t \<noteq> t1"
    and "pte_at t 0 va \<noteq> 0" "load64 (mem s) (pte_at t 0 va) AND PTE_V = 0"
  shows "\<exists>u. mappages pt va PGSIZE pa perm s = (Ret 0, s\<lparr>mem := store64 (mem s) (pte_at t 0 va) u\<rparr>)
    \<and> walkaddr pt va (s\<lparr>mem := store64 (mem s) (pte_at t 0 va) u\<rparr>)
        = (Ret (if perm AND PTE_U \<noteq> 0 then pa else 0), s\<lparr>mem := store64 (mem s) (pte_at t 0 va) u\<rparr>)"
proof -
  let ?u = "PA2PTE pa OR perm OR PTE_V" and ?c = "pte_at t 0 va"
  let ?m = "store64 (mem s) ?c ?u"
  have al: "pg_aligned t1" "pg_aligned t" using table_at_aligned [OF t(1) assms(1)] table_at_aligned [OF t(2)] by simp_all
  have t21: "table_at (mem s) [2, 1] pt va = Some t" using t(1,2) by (simp add: Let_def split: if_splits)
  have down: "PGROUNDDOWN va = va" "PGROUNDDOWN (va + PGSIZE - 1) = va"
    using assms(2) pg_aligned_add(2) [OF assms(2), of 4095] by (simp_all add: PGROUNDDOWN_id PGSIZE_def add.commute)
  have "walk pt va True s = (Ret ?c, s)"
    using walk_levels_valid [OF t21, of True] assms(3) by (simp add: walk_def not_le [symmetric] del: walk_levels.simps)
  moreover have "PGSIZE \<noteq> 0" by (simp add: PGSIZE_def)
  ultimately have map: "mappages pt va PGSIZE pa perm s = (Ret 0, s\<lparr>mem := ?m\<rparr>)"
    unfolding mappages_def down by (subst mappages_loop.simps) (use assms(10,11) in simp)
  have ne: "?c \<noteq> pte_at pt 2 va" "?c \<noteq> pte_at t1 1 va"
    using pte_at_page [OF al(2), of 0 0 va] pte_at_page [OF assms(1), of 0 2 va] pte_at_page [OF al(1), of 0 1 va] t(3,4) by auto
  have "load64 ?m (pte_at pt 2 va) = load64 (mem s) (pte_at pt 2 va)" "load64 ?m (pte_at t1 1 va) = load64 (mem s) (pte_at t1 1 va)"
    by (rule load64_store64_other; use ne al assms(1) cell_aligned_pte in simp)+
  then have "table_at ?m [2, 1] pt va = Some t" using t(1,2) by (simp add: Let_def split: if_splits)
  then have leaf: "leaf_cell ?m pt va = ?c" by (simp add: leaf_cell_def del: table_at.simps)
  have v: "?u AND PTE_V \<noteq> 0" by (simp add: PTE_V_def bit.conj_disj_distrib2)
  have pa: "PTE2PA ?u = pa"
  proof -
    have "perm OR PTE_V < 1024" using assms(5) by (simp add: less_1024_take_bit take_bit_or PTE_V_def)
    then show ?thesis using PTE2PA_PA2PTE [OF assms(4)] by simp
  qed
  have u: "?u AND PTE_U = perm AND PTE_U"
  proof -
    have "?u AND PTE_U = (perm OR PTE_V) AND PTE_U" unfolding or.assoc by (rule flag_in_pte) (simp add: PTE_U_def)
    then show ?thesis by (simp add: PTE_U_def PTE_V_def bit.conj_disj_distrib2)
  qed
  have "xlate ?m pt va = (if perm AND PTE_U \<noteq> 0 then pa else 0)"
    using assms(3,10) v pa u by (auto simp: xlate_def leaf Let_def)
  then show ?thesis using map by (intro exI [of _ ?u]) (simp add: walkaddr_eq)
qed


theorem mappages_then_walkaddr_witness:
  "\<exists>t :: kstate. mappages 0x80001000 0x2000 PGSIZE 0x80030000 (PTE_R OR PTE_U) (zero_state\<lparr>mem := two_pages\<rparr>) = (Ret 0, t)
     \<and> walkaddr 0x80001000 0x2000 t = (Ret 0x80030000, t)"
proof -
  have al: "pg_aligned 0x80001000" "pg_aligned 0x2000" "pg_aligned 0x80030000" "(0x2000 :: u64) < MAXVA" "PTE_R OR PTE_U < 1024"
    by (simp_all add: pg_aligned_def PGSIZE_def MAXVA_def PTE_R_def PTE_U_def)
  have ld: "load64 two_pages 0x80003010 = 0"
    by (simp add: two_pages_def load64_store64_other cell_aligned_def)
      (simp add: load64_def mem_bytes_def le_word_def upt_rec)
  have w: "table_at (mem (zero_state\<lparr>mem := two_pages\<rparr>)) [2] 0x80001000 0x2000 = Some 0x80002000"
    "table_at (mem (zero_state\<lparr>mem := two_pages\<rparr>)) [1] 0x80002000 0x2000 = Some 0x80003000"
    "(0x80003000 :: u64) \<noteq> 0x80001000" "(0x80003000 :: u64) \<noteq> 0x80002000" "pte_at 0x80003000 0 0x2000 \<noteq> 0"
    "load64 (mem (zero_state\<lparr>mem := two_pages\<rparr>)) (pte_at 0x80003000 0 0x2000) AND PTE_V = 0"
    by (simp_all add: Let_def pte_at_def PX_def PXSHIFT_def two_pages_load PTE_V_def PTE2PA_def ld)
  have "(PTE_R OR PTE_U) AND PTE_U \<noteq> 0" by (simp add: PTE_R_def PTE_U_def)
  then show ?thesis
    using mappages_then_walkaddr [OF al(1,2,4,3,5) w] by auto
qed

end
