(* ===== verification/Xv6_Ps.thy ===== *)
theory Xv6_Ps
  imports Xv6_NsProps Xv6_VmProps
begin

text \<open>
  \<open>ps_list\<close>, \<open>wait\<close>, \<open>reparent\<close>, \<open>getpid\<close> and the missing \<open>getppid\<close>, run in a state in which no lock is held.
\<close>

section \<open>ps_list\<close>

text \<open>Process \<open>q\<close> is visible from namespace \<open>m\<close>: its namespace is \<open>m\<close> or lies below it.\<close>

definition visible :: "kstate \<Rightarrow> nat \<Rightarrow> nat \<Rightarrow> bool" where
  "visible s m q \<longleftrightarrow> p_state (procs s q) \<noteq> UNUSED \<and> (\<exists>n. p_ns (procs s q) = Some n \<and> ns_above (namespaces s) n m)"

text \<open>The reference: the pids of the visible processes in table order, written out one by one.\<close>

definition pid_in :: "kstate \<Rightarrow> int \<Rightarrow> nat \<Rightarrow> nat \<Rightarrow> int" where
  "pid_in s glob m q = (if glob = 1 then p_pid (procs s q) else p_pids (procs s q) (ns_depth (namespaces s m)))"

primrec put_pids :: "u64 \<Rightarrow> u64 \<Rightarrow> int list \<Rightarrow> memory \<Rightarrow> bool \<times> memory" where
  "put_pids pt dst [] m = (True, m)"
| "put_pids pt dst (v # vs) m =
     (let (r, m') = put_user m pt dst (le_bytes 4 (of_int v :: u32))
      in if r \<noteq> 0 then (False, m') else put_pids pt (dst + 4) vs m')"

lemma visible_frame [simp]: "visible (s\<lparr>mem := x\<rparr>) = visible s" "visible (s\<lparr>lk := k\<rparr>) = visible s"
  by (simp_all add: visible_def fun_eq_iff)

lemma ns_inv_frame [simp]: "ns_inv (s\<lparr>mem := x\<rparr>) = ns_inv s" "ns_inv (s\<lparr>lk := k\<rparr>) = ns_inv s"
  by (rule ns_inv_cong; simp)+

lemma pid_in_frame [simp]: "pid_in (s\<lparr>mem := x\<rparr>) = pid_in s" "pid_in (s\<lparr>lk := k\<rparr>) = pid_in s"
  by (simp_all add: pid_in_def fun_eq_iff)

lemma ps_visible_eq:
  assumes "ns_inv s" "cpu_ok (lk s)" "cur s = Some p" "p_ns (procs s p) = Some m"
  shows "ps_visible q s = (Ret (visible s m q), s)"
proof (cases "p_state (procs s q) = UNUSED")
  case True
  then show ?thesis by (simp add: ps_visible_def visible_def)
next
  case False
  have my: "myns s = (Ret (Some m), s)" using assms by (simp add: myns_def)
  show ?thesis
  proof (cases "p_ns (procs s q)")
    case None
    have "compare_ns None (Some m) s = (Ret False, s)" by (simp add: compare_ns_def compare_ns_from.simps)
    then show ?thesis using None False my by (simp add: ps_visible_def visible_def)
  next
    case (Some n)
    note c = ns_inv_chain(1) [OF assms(1) Some]
    have "compare_ns (Some n) (Some m) s = (Ret (ns_above (namespaces s) n m), s)"
      by (simp add: compare_ns_def compare_ns_from_chain [OF c] ns_above_ancs [OF c])
    then show ?thesis using Some False my by (simp add: ps_visible_def visible_def)
  qed
qed

lemma ps_count_eq:
  assumes "ns_inv s" "cpu_ok (lk s)" "cur s = Some p" "p_ns (procs s p) = Some m"
  shows "ps_count ps n s = (Ret (n + length (filter (visible s m) ps)), s)"
  by (induction ps arbitrary: n) (simp_all add: ps_visible_eq [OF assms])

lemma ps_list_loop_eq:
  assumes "ns_inv s" "quiet (lk s)" "cur s = Some p" "p_ns (procs s p) = Some m"
  shows "ps_list_loop ps limit pids glob i s =
    (let (ok, m') = put_pids (p_pagetable (procs s p)) (pids + of_nat (i * 4))
        (take (nat (limit - int i)) (map (pid_in s glob m) (filter (visible s m) ps))) (mem s)
     in (Ret ok, s\<lparr>mem := m'\<rparr>))"
  using assms
proof (induction ps arbitrary: s i)
  case Nil
  then show ?case by simp
next
  case (Cons q ps)
  note v = ps_visible_eq [OF Cons.prems(1) quietD(1) [OF Cons.prems(2)] Cons.prems(3,4), of q]
  show ?case
  proof (cases "visible s m q \<and> int i < limit")
    case False
    then show ?thesis using Cons v by (auto simp: Let_def)
  next
    case True
    let ?pt = "p_pagetable (procs s p)" and ?d = "pids + of_nat (i * 4)"
    let ?w = "put_user (mem s) ?pt ?d (le_bytes 4 (of_int (pid_in s glob m q) :: u32))"
    have n: "nat (limit - int i) = Suc (nat (limit - int (Suc i)))" using True by arith
    have d: "pids + of_nat (Suc i * 4) = ?d + 4" by simp
    show ?thesis
    proof (cases "fst ?w = 0")
      case False
      then show ?thesis using True Cons.prems v n
        by (simp add: myns_def copyout_eq Let_def case_prod_beta flip: pid_in_def)
    next
      case ok: True
      let ?s = "s\<lparr>mem := snd ?w\<rparr>"
      have "ps_list_loop (q # ps) limit pids glob i s = ps_list_loop ps limit pids glob (Suc i) ?s"
        using True Cons.prems v ok by (simp add: myns_def copyout_eq flip: pid_in_def)
      also have "\<dots> = (let (ok, m') = put_pids ?pt (?d + 4) (take (nat (limit - int (Suc i)))
          (map (pid_in s glob m) (filter (visible s m) ps))) (snd ?w) in (Ret ok, ?s\<lparr>mem := m'\<rparr>))"
        using Cons.IH [of ?s "Suc i"] Cons.prems by (simp only: d) simp
      finally show ?thesis using True ok n by (simp add: Let_def case_prod_beta)
    qed
  qed
qed


text \<open>
  C2. \<open>ps_list\<close> is its specification. Called by a process of namespace \<open>m\<close>, it writes the pids (those of the
  namespace, or the global ones) of the first \<open>limit\<close> processes visible from \<open>m\<close>, in the order of the process
  table, to consecutive integers of the caller's buffer; it returns the number of visible processes, or -1 as soon as
  an integer cannot be written. Nothing but memory changes.
\<close>

theorem ps_list_writes_visible:
  assumes "ns_inv s" "quiet (lk s)" "cur s = Some p" "p_ns (procs s p) = Some m"
  shows "ps_list limit pids glob s =
    (let vis = filter (visible s m) [0..<NPROC];
         (ok, m') = put_pids (p_pagetable (procs s p)) pids (take (nat limit) (map (pid_in s glob m) vis)) (mem s)
     in (Ret (if ok then int (length vis) else - 1), s\<lparr>mem := m'\<rparr>))"
proof -
  define vis where "vis = filter (visible s m) [0..<NPROC]"
  have cnt: "ps_count [0..<NPROC] 0 s = (Ret (length vis), s)"
    using ps_count_eq [OF assms(1) quietD(1) [OF assms(2)] assms(3,4), of "[0..<NPROC]" 0] by (simp add: vis_def)
  have tk: "take (nat (if limit > int (length vis) then int (length vis) else limit)) (map f vis) = take (nat limit) (map f vis)"
    for f :: "nat \<Rightarrow> int"
    by (auto intro: take_all [symmetric])
  show ?thesis
    using cnt tk ps_list_loop_eq [OF assms, of "[0..<NPROC]" _ pids glob 0, folded vis_def]
    unfolding ps_list_def vis_def [symmetric] by (simp add: Let_def case_prod_beta)
qed

lemma nested_visible: "filter (visible nested_state 1) [0..<NPROC] = [1, 2]"
proof -
  have no: "\<not> ns_above nested_ns 0 1" by (simp add: ns_above_ancs [OF nested_chain(1)])
  have z: "nested_procs q = zero_proc" if "3 \<le> q" for q using that by (simp add: nested_procs_def)
  have "visible nested_state 1 q \<longleftrightarrow> q = 1 \<or> q = 2" for q
  proof -
    have "q < 3 \<or> nested_procs q = zero_proc" using z [of q] by linarith
    then show ?thesis using no nested_above
      by (auto simp: visible_def zero_proc_def less_Suc_eq numeral_3_eq_3 numeral_2_eq_2 nested_procs_simps(4) [unfolded numeral_2_eq_2])
  qed
  moreover have "[0..<NPROC] = [0, 1, 2] @ [3..<NPROC]" by (simp add: NPROC_def upt_rec)
  ultimately show ?thesis by (simp add: filter_False)
qed

theorem ps_list_writes_visible_witness:
  "ns_inv nested_state \<and> quiet (lk nested_state) \<and> ps_list 0 0 0 nested_state = (Ret 2, nested_state)"
proof -
  have c: "cur nested_state = Some 1" and n: "p_ns (procs nested_state 1) = Some 1" by simp_all
  show ?thesis
    using ps_list_writes_visible [OF nested_inv nested_quiet c n, of 0 0 0] nested_inv nested_quiet
    by (simp add: nested_visible [simplified] Let_def)
qed

section \<open>getpid\<close>

lemma sys_getpid_eq:
  assumes "cpu_ok (lk s)" "cur s = Some p" "p_ns (procs s p) = Some n"
  shows "sys_getpid s = (Ret (of_int (p_pids (procs s p) (ns_depth (namespaces s n)))), s)"
  using assms by (simp add: sys_getpid_def)



section \<open>wait\<close>

text \<open>\<open>q\<close> is a child of \<open>p\<close> in the table.\<close>

definition child_of :: "kstate \<Rightarrow> nat \<Rightarrow> nat \<Rightarrow> bool" where
  "child_of s p q \<longleftrightarrow> q < NPROC \<and> p_parent (procs s q) = Some p"

lemma quiet_wait [simp]: "quiet k \<Longrightarrow> procs_free (lock1 L_wait k)"
  by simp

lemma wait_scan_skip:
  assumes "procs_free (lk s)" "\<And>q. q \<in> set ps \<Longrightarrow> p_parent (procs s q) = Some p \<Longrightarrow> p_state (procs s q) \<noteq> ZOMBIE"
  shows "wait_scan (ps @ qs) p addr hk s = wait_scan qs p addr (hk \<or> (\<exists>q \<in> set ps. p_parent (procs s q) = Some p)) s"
  using assms(2)
proof (induction ps arbitrary: hk)
  case (Cons q ps)
  have IH: "wait_scan (ps @ qs) p addr hk s = wait_scan qs p addr (hk \<or> (\<exists>q \<in> set ps. p_parent (procs s q) = Some p)) s" for hk
    using Cons by simp
  show ?case
  proof (cases "p_parent (procs s q) = Some p")
    case True
    then have "wait_scan ((q # ps) @ qs) p addr hk s = wait_scan (ps @ qs) p addr True s"
      using assms(1) Cons.prems by simp
    then show ?thesis using True by (simp add: IH)
  qed (simp add: IH)
qed simp

lemma wait_no_zombie:
  assumes "quiet (lk s)" "cur s = Some p" "\<And>q. child_of s p q \<Longrightarrow> p_state (procs s q) \<noteq> ZOMBIE"
  shows "wait addr s = (if (\<nexists>q. child_of s p q) \<or> p_killed (procs s p) \<noteq> 0 then (Ret (- 1), s)
     else sleep (Chan_proc p) L_wait (s\<lparr>lk := lock1 L_wait (lk s)\<rparr>))"
proof -
  let ?s = "s\<lparr>lk := lock1 L_wait (lk s)\<rparr>"
  have sc: "wait_scan [0..<NPROC] p addr False ?s = (Ret (Inr (\<exists>q. child_of s p q)), ?s)"
    using wait_scan_skip [of ?s "[0..<NPROC]" p "[]" addr False] assms by (auto simp: child_of_def simp del: upt_Suc)
  have k: "killed p ?s = (Ret (p_killed (procs s p)), ?s)" using assms(1) by (simp add: killed_eq)
  show ?thesis
    using assms sc k by (auto simp: wait_def wait_loop_def simp del: wait_scan.simps)
qed

text \<open>
  C32. \<open>wait\<close> while no child has exited: with no children at all, or if the caller has been killed, it returns -1 and
  nothing changes; otherwise it gives up \<open>wait_lock\<close> and the CPU, asleep on its own channel, which is the one that the
  exit of a child wakes.
\<close>

theorem wait_without_zombies:
  assumes "quiet (lk s)" "cur s = Some p" "\<forall>q. child_of s p q \<longrightarrow> p_state (procs s q) \<noteq> ZOMBIE"
  shows "if (\<nexists>q. child_of s p q) \<or> p_killed (procs s p) \<noteq> 0 then wait addr s = (Ret (- 1), s)
    else \<exists>t. wait addr s = (Exc Switch, t) \<and> p_state (procs t p) = SLEEPING \<and> p_chan (procs t p) = Some (Chan_proc p)
      \<and> lk t = lock1 (L_proc p) (lk s) \<and> (\<forall>q. q \<noteq> p \<longrightarrow> procs t q = procs s q)"
proof -
  have w: "wait addr s = (if (\<nexists>q. child_of s p q) \<or> p_killed (procs s p) \<noteq> 0 then (Ret (- 1), s)
     else sleep (Chan_proc p) L_wait (s\<lparr>lk := lock1 L_wait (lk s)\<rparr>))"
    by (rule wait_no_zombie) (use assms in auto)
  have sl: "sleep (Chan_proc p) L_wait (s\<lparr>lk := lock1 L_wait (lk s)\<rparr>) = (Exc Switch :: int res,
      upd_proc p (\<lambda>x. (charge (ticks s) (x\<lparr>p_chan := Some (Chan_proc p)\<rparr>))\<lparr>p_state := SLEEPING\<rparr>) (s\<lparr>lk := lock1 (L_proc p) (lk s)\<rparr>))"
    using sleep_eq [of "s\<lparr>lk := lock1 L_wait (lk s)\<rparr>" L_wait "lk s" p "Chan_proc p"] assms(1,2) by simp
  show ?thesis unfolding w sl by (auto simp: charge_def)
qed

lemma nested_children: "child_of nested_state 1 q \<longleftrightarrow> q = 2" "\<not> child_of nested_state 2 q"
proof -
  have "p_parent (nested_procs q) = (if q = 1 then Some 0 else if q = 2 then Some 1 else None)"
    by (simp add: nested_procs_def zero_proc_def)
  then show "child_of nested_state 1 q \<longleftrightarrow> q = 2" "\<not> child_of nested_state 2 q" by (auto simp: child_of_def NPROC_def)
qed

definition childless_state :: kstate where
  "childless_state = nested_state\<lparr>lk := setcur (Some 2) (lk zero_state)\<rparr>"

theorem wait_without_zombies_witness:
  "quiet (lk childless_state) \<and> wait 0 childless_state = (Ret (- 1), childless_state)"
proof -
  have q: "quiet (lk childless_state)" "cur childless_state = Some 2"
    by (simp_all add: childless_state_def zero_quiet)
  have n: "\<not> child_of childless_state 2 x" for x using nested_children(2) by (simp add: childless_state_def child_of_def)
  have z: "\<forall>x. child_of childless_state 2 x \<longrightarrow> p_state (procs childless_state x) \<noteq> ZOMBIE" using n by blast
  show ?thesis using wait_without_zombies [OF q z, of 0] q(1) n by simp
qed

lemma wp_if_True: "b \<Longrightarrow> wp m Q E s \<Longrightarrow> wp (if b then m else n) Q E s"
  by simp

lemma wp_runs: "m s = (Ret a, t) \<Longrightarrow> Q a t \<Longrightarrow> wp m Q E s"
  by (simp add: wp_def)

lemma wp_same: "m s = m' s' \<Longrightarrow> wp m' Q E s' \<Longrightarrow> wp m Q E s"
  by (simp add: wp_def)

lemma wp_if_False: "\<not> b \<Longrightarrow> wp n Q E s \<Longrightarrow> wp (if b then m else n) Q E s"
  by simp

lemma wp_reap:
  assumes "p_parent (procs s q) = Some p" "p_state (procs s q) = ZOMBIE"
    and reaped: "\<And>t. freed q s t \<Longrightarrow> Q (Inl (p_pid (procs s q))) t"
    and bad: "\<And>t. addr \<noteq> 0 \<Longrightarrow> procs t = procs s \<Longrightarrow> Q (Inl (- 1)) t"
  shows "wp (wait_scan (q # qs) p addr hk) Q blocks_not s"
proof -
  have fin: "wp (kthen (freeproc q) (kthen (release (L_proc q)) (kthen (release L_wait) (kret (Inl (p_pid (procs s q))))))) Q blocks_not u"
    if "procs u = procs s" "namespaces u = namespaces s" "nextpid u = nextpid s" "nextnamespace u = nextnamespace s"
      "initproc u = initproc s" "initnamespace u = initnamespace s" for u
    apply (rule wp_kthenI, rule wp_freeproc, rule wp_kthenI, rule wp_release, rule wp_kthenI, rule wp_release, rule wp_kretI)
    apply (rule reaped, simp add: freed_def only_proc_def same_ids_def that)
    done
  have rest: "wp (if r < 0 then kthen (release (L_proc q)) (kthen (release L_wait) (kret (Inl (- 1))))
      else kthen (freeproc q) (kthen (release (L_proc q)) (kthen (release L_wait) (kret (Inl (p_pid (procs s q))))))) Q blocks_not u"
    if "procs u = procs s" "namespaces u = namespaces s" "nextpid u = nextpid s" "nextnamespace u = nextnamespace s"
      "initproc u = initproc s" "initnamespace u = initnamespace s" "r < 0 \<longrightarrow> addr \<noteq> 0" for u and r :: int
  proof (cases "r < 0")
    case True
    show ?thesis
      apply (rule wp_if_True [OF True], rule wp_kthenI, rule wp_release, rule wp_kthenI, rule wp_release, rule wp_kretI)
      apply (rule bad; simp add: that True [simplified])
      done
  next
    case False
    show ?thesis by (rule wp_if_False [OF False], rule fin) (simp_all add: that)
  qed
  show ?thesis
    unfolding wait_scan.simps
    apply (rule wp_kbindI, rule wp_kgetI, rule wp_if_True, rule assms(1))
    apply (rule wp_kthenI, rule wp_acquire)
    apply (rule wp_kbindI, rule wp_kgetI, rule wp_if_True, simp add: assms(2))
    apply (rule wp_kbindI, rule wp_kgetI, rule wp_kbindI)
    apply (cases "addr = 0")
     apply (rule wp_if_False, simp, rule wp_kretI)
     apply (simp only:, rule rest; simp)
    apply (rule wp_if_True, assumption, rule wp_kbindI, rule wp_kgetI, unfold prod.case, rule wp_runs, rule copyout_eq)
    apply (simp only:, rule rest; simp)
    done
qed



section \<open>reparent\<close>

definition new_parent :: "kstate \<Rightarrow> nat \<Rightarrow> nat \<Rightarrow> nat option" where
  "new_parent s p q = (case p_ns (procs s q) of
     Some n \<Rightarrow> if p_parent (procs s q) = Some p then nearest_head (namespaces s) (ns_depth (namespaces s n)) n else p_parent (procs s q)
   | None \<Rightarrow> p_parent (procs s q))"

text \<open>The processes of \<open>A\<close> have been dealt with; identities and locks are as before.\<close>

definition reparented :: "nat \<Rightarrow> nat set \<Rightarrow> kstate \<Rightarrow> kstate \<Rightarrow> bool" where
  "reparented p A s t \<longleftrightarrow> lk t = lk s \<and> namespaces t = namespaces s
     \<and> (\<forall>q. p_ns (procs t q) = p_ns (procs s q) \<and> p_pids (procs t q) = p_pids (procs s q) \<and> p_pid (procs t q) = p_pid (procs s q)
          \<and> p_parent (procs t q) = (if q \<in> A then new_parent s p q else p_parent (procs s q)))"

lemma wake_set_sel [simp]:
  "p_ns (procs (wake_set A ch s) q) = p_ns (procs s q)" "p_pids (procs (wake_set A ch s) q) = p_pids (procs s q)"
  "p_pid (procs (wake_set A ch s) q) = p_pid (procs s q)" "p_parent (procs (wake_set A ch s) q) = p_parent (procs s q)"
  "namespaces (wake_set A ch s) = namespaces s"
  by (simp_all add: wake_set_def wake_procs_def woken_def)

lemma reparent_one_step:
  assumes i: "ns_inv s" and f: "procs_free (lk s)" and t: "reparented p A s t" and q: "q \<notin> A"
  shows "\<exists>u. reparent_one p q t = (Ret (), u) \<and> reparented p (insert q A) s u"
proof (cases "p_parent (procs s q) = Some p")
  case False
  then have "reparent_one p q t = (Ret (), t)" using t q by (simp add: reparent_one_def reparented_def)
  moreover have "new_parent s p q = p_parent (procs s q)" using False by (simp add: new_parent_def split: option.split)
  ultimately show ?thesis using t by (auto simp: reparented_def)
next
  case True
  then obtain n where n: "p_ns (procs s q) = Some n" using ns_invD(9) [OF i, of q] by auto
  let ?h = "nearest_head (namespaces s) (ns_depth (namespaces s n)) n"
  let ?u = "wake_set {..<NPROC} (map_option Chan_proc ?h) (upd_proc q (\<lambda>x. x\<lparr>p_parent := ?h\<rparr>) t)"
  have "get_ns_head (Some n) t = (Ret ?h, t)"
    using get_ns_head_from_chain [OF ns_inv_chain(1) [OF i n]] t by (simp add: get_ns_head_def reparented_def)
  moreover have "p_parent (procs t q) = Some p" "p_ns (procs t q) = Some n" "procs_free (lk t)"
    using t q True n f by (simp_all add: reparented_def)
  ultimately have "reparent_one p q t = (Ret (), ?u)"
    by (simp add: reparent_one_def wakeup_ptr_eq)
  moreover have "new_parent s p q = ?h" using True n by (simp add: new_parent_def)
  then have "reparented p (insert q A) s ?u" using t by (auto simp: reparented_def)
  ultimately show ?thesis by blast
qed

lemma reparent_loop:
  assumes "ns_inv s" "procs_free (lk s)" "reparented p A s t" "distinct qs" "set qs \<inter> A = {}"
  shows "\<exists>u. kfor qs (reparent_one p) t = (Ret (), u) \<and> reparented p (A \<union> set qs) s u"
  using assms(3-5)
proof (induction qs arbitrary: t A)
  case Nil
  then show ?case by simp
next
  case (Cons q qs)
  from reparent_one_step [OF assms(1,2) Cons.prems(1), of q] Cons.prems(3)
  obtain u where u: "reparent_one p q t = (Ret (), u)" "reparented p (insert q A) s u" by auto
  from Cons.IH [OF u(2)] Cons.prems(2,3) u(1) show ?case by simp
qed

text \<open>
  C12. \<open>reparent\<close> gives the children of an exiting process \<open>p\<close> to the nearest namespace head on the way from the
  child's namespace to the root, and leaves every other parent alone. Because the head of a namespace is never cleared, a
  child of the exiting process in a namespace that \<open>p\<close> itself heads stays a child of \<open>p\<close>.
\<close>

theorem reparent_to_nearest_head:
  assumes "ns_inv s" "lk s = lock1 L_wait k" "quiet k"
  shows "\<exists>t. reparent p s = (Ret (), t) \<and> lk t = lk s \<and> namespaces t = namespaces s
     \<and> (\<forall>q < NPROC. p_parent (procs s q) \<noteq> Some p \<longrightarrow> p_parent (procs t q) = p_parent (procs s q))
     \<and> (\<forall>q < NPROC. \<forall>n. p_parent (procs s q) = Some p \<longrightarrow> p_ns (procs s q) = Some n
          \<longrightarrow> p_parent (procs t q) = nearest_head (namespaces s) (ns_depth (namespaces s n)) n
            \<and> (ns_head (namespaces s n) = Some p \<longrightarrow> p_parent (procs t q) = Some p))"
proof -
  have f: "procs_free (lk s)" using assms(2,3) by simp
  have "reparented p {} s s" by (simp add: reparented_def)
  from reparent_loop [OF assms(1) f this, of "[0..<NPROC]"] obtain t
    where t: "reparent p s = (Ret (), t)" "reparented p {..<NPROC} s t"
    by (auto simp: reparent_def lessThan_atLeast0)
  have own: "nearest_head (namespaces s) d n = Some p" if "ns_head (namespaces s n) = Some p" for d n
    using that by (cases d) simp_all
  have "p_parent (procs t q) = new_parent s p q" if "q < NPROC" for q
    using t(2) that by (simp add: reparented_def)
  then show ?thesis
    using t own by (intro exI [of _ t]) (auto simp: reparented_def new_parent_def split: option.split)
qed

theorem reparent_to_nearest_head_witness:
  "ns_inv (nested_state\<lparr>lk := lock1 L_wait (lk nested_state)\<rparr>)
   \<and> (\<exists>t. reparent 1 (nested_state\<lparr>lk := lock1 L_wait (lk nested_state)\<rparr>) = (Ret (), t) \<and> p_parent (procs t 2) = Some 1)"
proof -
  let ?s = "nested_state\<lparr>lk := lock1 L_wait (lk nested_state)\<rparr>"
  have i: "ns_inv ?s" and l: "lk ?s = lock1 L_wait (lk nested_state)" using nested_inv by simp_all
  from reparent_to_nearest_head [OF i l nested_quiet, of 1] obtain t where t: "reparent 1 ?s = (Ret (), t)"
    "\<forall>q < NPROC. \<forall>n. p_parent (procs ?s q) = Some 1 \<longrightarrow> p_ns (procs ?s q) = Some n
       \<longrightarrow> p_parent (procs t q) = nearest_head (namespaces ?s) (ns_depth (namespaces ?s n)) n
         \<and> (ns_head (namespaces ?s n) = Some 1 \<longrightarrow> p_parent (procs t q) = Some 1)" by blast
  have "p_parent (procs t 2) = Some 1" using t(2) [rule_format, of 2 1] by (simp add: NPROC_def)
  then show ?thesis using i t(1) by blast
qed

end
