(* ===== verification/Xv6_PipeProps.thy ===== *)
theory Xv6_PipeProps
  imports Xv6_Ring Xv6_Ps
begin

text \<open>
  The pipe of \<^verbatim>\<open>kernel/pipe.c\<close> as a bounded queue, and what \<open>pipewrite\<close> and \<open>piperead\<close> do to it.
\<close>

section \<open>The queue in a pipe\<close>

definition pipe_contents :: "pipe \<Rightarrow> u8 list" where
  "pipe_contents x = ring (pi_data x) (pi_nread x) (pi_nwrite x)"

definition pipe_ok :: "pipe \<Rightarrow> bool" where
  "pipe_ok x \<longleftrightarrow> ring_ok PIPESIZE (pi_data x) (pi_nread x) (pi_nwrite x)"

interpretation pq: bounded_queue pipe_contents pipe_ok PIPESIZE pipe_put pipe_get pipe_full pipe_empty
proof (unfold_locales, goal_cases)
  case (1 q)
  then show ?case by (simp add: pipe_ok_def pipe_contents_def ring_ok_def)
next
  case (2 q)
  then show ?case unfolding pipe_ok_def pipe_contents_def pipe_full_def by (rule ring_full)
next
  case (3 q)
  then show ?case unfolding pipe_contents_def pipe_empty_def by (simp add: ring_empty [symmetric])
next
  case (4 q c)
  then show ?case using ring_put [of PIPESIZE "pi_data q" "pi_nread q" "pi_nwrite q" c]
    by (simp add: pipe_ok_def pipe_contents_def pipe_put_def)
next
  case (5 q c cs)
  then show ?case using ring_get [of PIPESIZE "pi_data q" "pi_nread q" "pi_nwrite q" c cs]
    by (simp add: pipe_ok_def pipe_contents_def pipe_get_def)
qed

lemma pipe_put_sel [simp]: "pi_readopen (pipe_put c x) = pi_readopen x" "pi_writeopen (pipe_put c x) = pi_writeopen x"
  by (simp_all add: pipe_put_def)

lemma pipe_get_sel [simp]: "pi_readopen (snd (pipe_get x)) = pi_readopen x" "pi_writeopen (snd (pipe_get x)) = pi_writeopen x"
  by (simp_all add: pipe_get_def)

lemma fold_put_sel [simp]: "pi_readopen (fold pipe_put cs x) = pi_readopen x" "pi_writeopen (fold pipe_put cs x) = pi_writeopen x"
  by (induction cs arbitrary: x) simp_all

section \<open>Bytes of user memory\<close>

text \<open>The longest prefix of the user buffer that can be read, byte by byte.\<close>

primrec user_bytes :: "memory \<Rightarrow> u64 \<Rightarrow> u64 \<Rightarrow> nat \<Rightarrow> u8 list" where
  "user_bytes m pt va 0 = []"
| "user_bytes m pt va (Suc n) =
     (if xlate m pt (PGROUNDDOWN va) = 0 then []
      else m (xlate m pt (PGROUNDDOWN va) + (va - PGROUNDDOWN va)) # user_bytes m pt (va + 1) n)"

text \<open>Bytes written one by one, up to the first that cannot be written: their number, and the memory.\<close>

primrec put_bytes :: "memory \<Rightarrow> u64 \<Rightarrow> u64 \<Rightarrow> u8 list \<Rightarrow> nat \<times> memory" where
  "put_bytes m pt va [] = (0, m)"
| "put_bytes m pt va (b # bs) =
     (let (r, m') = put_user m pt va [b] in if r = - 1 then (0, m')
      else let (k, m'') = put_bytes m' pt (va + 1) bs in (Suc k, m''))"

lemma page_chunk_1: "page_chunk va (Suc 0) = 1"
  using page_chunk_pos [of "Suc 0" va] page_chunk_le [of va "Suc 0"] by simp

lemma get_user_1:
  "get_user m pt va (Suc 0) = (if xlate m pt (PGROUNDDOWN va) = 0 then (- 1, [])
     else (0, [m (xlate m pt (PGROUNDDOWN va) + (va - PGROUNDDOWN va))]))"
  by (subst get_user.simps) (simp add: page_chunk_1 get_user.simps [of _ _ _ 0] mem_bytes_def)

section \<open>Writing\<close>

text \<open>Waking the sleepers on a channel.\<close>

abbreviation wake_all :: "chan \<Rightarrow> kstate \<Rightarrow> kstate" where
  "wake_all ch \<equiv> wake_set {..<NPROC} (Some ch)"

definition in_pipe :: "u64 \<Rightarrow> (pipe \<Rightarrow> pipe) \<Rightarrow> kstate \<Rightarrow> kstate" where
  "in_pipe pi f s = s\<lparr>pipes := (pipes s)(pi := f (pipes s pi))\<rparr>"

lemma in_pipe_sel [simp]:
  "lk (in_pipe pi f s) = lk s" "procs (in_pipe pi f s) = procs s" "mem (in_pipe pi f s) = mem s"
  "ticks (in_pipe pi f s) = ticks s" "pipes (in_pipe pi f s) pi = f (pipes s pi)"
  "in_pipe pi f (in_pipe pi g s) = in_pipe pi (\<lambda>x. f (g x)) s" "in_pipe pi (\<lambda>x. x) s = s" "in_pipe pi id s = s"
  by (simp_all add: in_pipe_def)

lemma pipewrite_loop_eq:
  assumes "lk s = lock1 (L_pipe pi) k" "quiet k" "pi_readopen (pipes s pi)" "p_killed (procs s p) = 0"
    and "pipe_ok (pipes s pi)" "length (pipe_contents (pipes s pi)) + n \<le> PIPESIZE"
  shows "pipewrite_loop n p pi addr i s =
    (let bs = user_bytes (mem s) (p_pagetable (procs s p)) (addr + of_nat i) n
     in (Ret (Some (i + length bs)), in_pipe pi (fold pipe_put bs) s))"
  using assms
proof (induction n arbitrary: i s)
  case (Suc n)
  let ?pt = "p_pagetable (procs s p)" and ?a = "addr + of_nat i"
  let ?pa = "xlate (mem s) ?pt (PGROUNDDOWN ?a)"
  have nf: "\<not> pipe_full (pipes s pi)" using Suc.prems(5,6) pq.full_iff by simp
  have kd: "killed p s = (Ret 0, s)" using Suc.prems by (simp add: killed_eq)
  show ?case
  proof (cases "?pa = 0")
    case True
    then show ?thesis using Suc.prems nf kd by (simp add: copyin_eq get_user_1)
  next
    case False
    let ?b = "mem s (?pa + (?a - PGROUNDDOWN ?a))"
    let ?s = "in_pipe pi (pipe_put ?b) s"
    have pk: "pipe_ok (pipe_put ?b (pipes s pi))" "pipe_contents (pipe_put ?b (pipes s pi)) = pipe_contents (pipes s pi) @ [?b]"
      using pq.put_ok Suc.prems(5,6) by simp_all
    have "pipewrite_loop (Suc n) p pi addr i s = pipewrite_loop n p pi addr (Suc i) ?s"
      using Suc.prems nf kd False by (simp add: copyin_eq get_user_1 flip: in_pipe_def)
    also have "\<dots> = (let bs = user_bytes (mem ?s) (p_pagetable (procs ?s p)) (addr + of_nat (Suc i)) n
        in (Ret (Some (Suc i + length bs)), in_pipe pi (fold pipe_put bs) ?s))"
      by (rule Suc.IH) (use Suc.prems pk in simp_all)
    finally show ?thesis using False by (simp add: Let_def ac_simps comp_def)
  qed
qed simp

lemma pipewrite_loop_split:
  assumes "lk s = lock1 (L_pipe pi) k" "quiet k" "pi_readopen (pipes s pi)" "p_killed (procs s p) = 0"
    and "pipe_ok (pipes s pi)" "length (pipe_contents (pipes s pi)) + m \<le> PIPESIZE"
    and "length (user_bytes (mem s) (p_pagetable (procs s p)) (addr + of_nat i) m) = m"
  shows "pipewrite_loop (m + n) p pi addr i s = pipewrite_loop n p pi addr (i + m)
     (in_pipe pi (fold pipe_put (user_bytes (mem s) (p_pagetable (procs s p)) (addr + of_nat i) m)) s)"
  using assms
proof (induction m arbitrary: i s)
  case (Suc m)
  let ?pt = "p_pagetable (procs s p)" and ?a = "addr + of_nat i"
  let ?pa = "xlate (mem s) ?pt (PGROUNDDOWN ?a)"
  have nf: "\<not> pipe_full (pipes s pi)" using Suc.prems(5,6) pq.full_iff by simp
  have kd: "killed p s = (Ret 0, s)" using Suc.prems by (simp add: killed_eq)
  have nz: "?pa \<noteq> 0" using Suc.prems(7) by (simp split: if_splits)
  let ?b = "mem s (?pa + (?a - PGROUNDDOWN ?a))"
  let ?s = "in_pipe pi (pipe_put ?b) s"
  have pk: "pipe_ok (pipe_put ?b (pipes s pi))" "pipe_contents (pipe_put ?b (pipes s pi)) = pipe_contents (pipes s pi) @ [?b]"
    using pq.put_ok Suc.prems(5,6) by simp_all
  have "pipewrite_loop (Suc m + n) p pi addr i s = pipewrite_loop (m + n) p pi addr (Suc i) ?s"
    using Suc.prems(1-5) nf kd nz by (simp add: copyin_eq get_user_1 flip: in_pipe_def)
  also have "\<dots> = pipewrite_loop n p pi addr (Suc i + m)
      (in_pipe pi (fold pipe_put (user_bytes (mem ?s) (p_pagetable (procs ?s p)) (addr + of_nat (Suc i)) m)) ?s)"
    by (rule Suc.IH) (use Suc.prems pk nz in \<open>simp_all add: ac_simps\<close>)
  finally show ?case using nz by (simp add: ac_simps comp_def)
qed simp

lemma pipewrite_full:
  assumes "lk s = lock1 (L_pipe pi) k" "quiet k" "c_proc (mycpu_of k) = Some p" "pi_readopen (pipes s pi)" "p_killed (procs s p) = 0"
    and "pipe_full (pipes s pi)"
  shows "pipewrite_loop (Suc n) p pi addr i s = (Exc Switch,
     upd_proc p (\<lambda>x. (charge (ticks s) (x\<lparr>p_chan := Some (Chan_pipe_nwrite pi)\<rparr>))\<lparr>p_state := SLEEPING\<rparr>)
       ((wake_all (Chan_pipe_nread pi) s)\<lparr>lk := lock1 (L_proc p) k\<rparr>))"
proof -
  have w: "wakeup (Chan_pipe_nread pi) s = (Ret (), wake_all (Chan_pipe_nread pi) s)"
    using assms(1,2) by (intro wakeup_eq) simp
  show ?thesis using assms w sleep_eq [of "wake_all (Chan_pipe_nread pi) s" "L_pipe pi" k p "Chan_pipe_nwrite pi"]
    by (simp add: killed_eq)
qed

lemma take_user_bytes: "m \<le> n \<Longrightarrow> take m (user_bytes M pt va n) = user_bytes M pt va m"
proof (induction m arbitrary: n va)
  case (Suc m)
  then obtain n' where "n = Suc n'" by (cases n) auto
  with Suc show ?case by simp
qed simp

lemma length_user_bytes: "length (user_bytes M pt va n) \<le> n"
  by (induction n arbitrary: va) simp_all

lemma wake_set_pipes [simp]: "pipes (wake_set A ch s) = pipes s"
  by (simp add: wake_set_def)

lemma pipewrite_start:
  assumes "quiet (lk s)" "cur s = Some p" "0 \<le> n"
  shows "pipewrite pi addr n s = kbind (pipewrite_loop (nat n) p pi addr 0) (pipewrite_rest pi) (s\<lparr>lk := lock1 (L_pipe pi) (lk s)\<rparr>)"
  using assms by (cases "n = 0") (simp_all add: pipewrite_def)

lemma in_pipe_lk: "in_pipe pi f (s\<lparr>lk := k\<rparr>) = (in_pipe pi f s)\<lparr>lk := k\<rparr>"
  by (simp add: in_pipe_def)

text \<open>
  C9. \<open>pipewrite\<close> adds to the queue. With room for all \<open>n\<close> bytes it appends what can be read of the caller's buffer,
  wakes the readers and returns the number of bytes. Without, it fills the pipe with the first bytes of the
  buffer and sleeps until a reader makes room, with the pipe unlocked. The counters may wrap around.
\<close>

theorem pipewrite_appends:
  assumes "quiet (lk s)" "cur s = Some p" "pi_readopen (pipes s pi)" "p_killed (procs s p) = 0" "pipe_ok (pipes s pi)" "0 \<le> n"
  shows "let bs = user_bytes (mem s) (p_pagetable (procs s p)) addr (nat n); cs = pipe_contents (pipes s pi);
             room = PIPESIZE - length cs
    in (if nat n \<le> room then
          pipewrite pi addr n s = (Ret (int (length bs)), wake_all (Chan_pipe_nread pi) (in_pipe pi (fold pipe_put bs) s))
          \<and> pipe_ok (fold pipe_put bs (pipes s pi)) \<and> pipe_contents (fold pipe_put bs (pipes s pi)) = cs @ bs
        else room \<le> length bs \<longrightarrow> (\<exists>t. pipewrite pi addr n s = (Exc Switch, t)
          \<and> pipe_ok (pipes t pi) \<and> pipe_contents (pipes t pi) = cs @ take room bs
          \<and> p_state (procs t p) = SLEEPING \<and> p_chan (procs t p) = Some (Chan_pipe_nwrite pi) \<and> lk t = lock1 (L_proc p) (lk s)))"
proof -
  define bs where "bs = user_bytes (mem s) (p_pagetable (procs s p)) addr (nat n)"
  define cs where "cs = pipe_contents (pipes s pi)"
  define room where "room = PIPESIZE - length cs"
  let ?s = "s\<lparr>lk := lock1 (L_pipe pi) (lk s)\<rparr>"
  have cap: "length cs \<le> PIPESIZE" using pq.bounded [OF assms(5)] by (simp add: cs_def)
  note start = pipewrite_start [OF assms(1,2,6), of pi addr]
  have fits: "pipewrite pi addr n s = (Ret (int (length bs)), wake_all (Chan_pipe_nread pi) (in_pipe pi (fold pipe_put bs) s))"
    if "nat n \<le> room"
  proof -
    have "pipewrite_loop (nat n) p pi addr 0 ?s = (Ret (Some (length bs)), in_pipe pi (fold pipe_put bs) ?s)"
      using pipewrite_loop_eq [of ?s pi "lk s" p "nat n" addr 0] assms that cap by (simp add: Let_def bs_def room_def cs_def)
    then show ?thesis unfolding start using assms(1) by (simp add: pipewrite_rest_def wakeup_eq in_pipe_lk)
  qed
  have len: "length bs \<le> nat n" by (simp add: bs_def length_user_bytes)
  have app: "pipe_ok (fold pipe_put ds (pipes s pi)) \<and> pipe_contents (fold pipe_put ds (pipes s pi)) = cs @ ds"
    if "length ds \<le> room" for ds
    using pq.put_all [OF assms(5), of ds] that cap by (simp add: room_def cs_def)
  have blocks: "\<exists>t. pipewrite pi addr n s = (Exc Switch, t) \<and> pipe_ok (pipes t pi) \<and> pipe_contents (pipes t pi) = cs @ take room bs
      \<and> p_state (procs t p) = SLEEPING \<and> p_chan (procs t p) = Some (Chan_pipe_nwrite pi) \<and> lk t = lock1 (L_proc p) (lk s)"
    if "room < nat n" "room \<le> length bs"
  proof -
    note lt = that(1) and le = that(2)
    let ?t = "in_pipe pi (fold pipe_put (take room bs)) ?s"
    have tk: "take room bs = user_bytes (mem s) (p_pagetable (procs s p)) addr room"
      using that(1) by (simp add: bs_def take_user_bytes)
    obtain n' where n: "nat n = room + Suc n'" using less_imp_Suc_add [OF lt] by auto
    have l: "length (user_bytes (mem s) (p_pagetable (procs s p)) addr room) = room" using le by (simp flip: tk)
    have "pipewrite_loop (nat n) p pi addr 0 ?s = pipewrite_loop (Suc n') p pi addr room ?t"
      using pipewrite_loop_split [of ?s pi "lk s" p room addr 0 "Suc n'"] assms(1-5) l cap
      unfolding n tk by (simp add: room_def cs_def del: pipewrite_loop.simps)
    moreover have "pipe_full (pipes ?t pi)"
      using app [of "take room bs"] le pq.full_iff [of "pipes ?t pi"] cap by (simp add: room_def)
    ultimately show ?thesis unfolding start using assms(1-4) pipewrite_full [of ?t pi "lk s" p n' addr room] app [of "take room bs"] le
      by (simp add: charge_def del: pipewrite_loop.simps)
  qed
  show ?thesis unfolding Let_def bs_def [symmetric] cs_def [symmetric] room_def [symmetric]
    using fits blocks app [of bs] len by auto
qed

definition pipe_state :: "u8 list \<Rightarrow> kstate" where
  "pipe_state cs = upd_proc 1 (\<lambda>x. x\<lparr>p_pagetable := 0x80001000\<rparr>)
     (nested_state\<lparr>mem := two_pages, pipes := (\<lambda>_. fold pipe_put cs \<lparr>pi_data = replicate 512 0, pi_nread = 0xFFFFFFFF,
        pi_nwrite = 0xFFFFFFFF, pi_readopen = True, pi_writeopen = True\<rparr>)\<rparr>)"

lemma pipe_state_sel [simp]:
  "quiet (lk (pipe_state cs))" "cur (pipe_state cs) = Some (Suc 0)" "mem (pipe_state cs) = two_pages"
  "p_pagetable (procs (pipe_state cs) (Suc 0)) = 0x80001000" "p_killed (procs (pipe_state cs) (Suc 0)) = 0"
  using nested_quiet by (simp_all add: pipe_state_def zero_proc_def)

lemma pipe_state_pipe:
  assumes "length cs \<le> PIPESIZE"
  shows "pipe_ok (pipes (pipe_state cs) 0)" "pipe_contents (pipes (pipe_state cs) 0) = cs"
    "pi_readopen (pipes (pipe_state cs) 0)" "pi_writeopen (pipes (pipe_state cs) 0)"
proof -
  let ?x = "\<lparr>pi_data = replicate 512 0, pi_nread = 0xFFFFFFFF, pi_nwrite = 0xFFFFFFFF, pi_readopen = True, pi_writeopen = True\<rparr>"
  have "pipe_ok ?x" "pipe_contents ?x = []" by (simp_all add: pipe_ok_def pipe_contents_def ring_ok_def ring_def PIPESIZE_def)
  with pq.put_all [of ?x cs] assms have "pipe_ok (fold pipe_put cs ?x) \<and> pipe_contents (fold pipe_put cs ?x) = cs" by simp
  then show "pipe_ok (pipes (pipe_state cs) 0)" "pipe_contents (pipes (pipe_state cs) 0) = cs"
    "pi_readopen (pipes (pipe_state cs) 0)" "pi_writeopen (pipes (pipe_state cs) 0)" by (simp_all add: pipe_state_def)
qed

lemma pipe_state_xlate: "xlate two_pages 0x80001000 0 = 0x80010000"
  using two_pages_walk(3) [of 0] by simp

lemma pipe_state_bytes: "user_bytes two_pages 0x80001000 0xFFE 2 = [0, 0]"
proof -
  have "two_pages 0x80010FFE = 0" "two_pages 0x80010FFF = 0" by (simp_all add: two_pages_def store64_apply)
  moreover have "user_bytes two_pages 0x80001000 0xFFE (Suc (Suc 0)) = [two_pages 0x80010FFE, two_pages 0x80010FFF]"
    by (simp add: pipe_state_xlate PGROUNDDOWN_def PGSIZE_def)
  ultimately show ?thesis by (metis numeral_2_eq_2)
qed

theorem pipewrite_appends_witness:
  "quiet (lk (pipe_state [])) \<and> pi_nwrite (pipes (pipe_state []) 0) = 0xFFFFFFFF
   \<and> (\<exists>t. pipewrite 0 0xFFE 2 (pipe_state []) = (Ret 2, t) \<and> pi_nwrite (pipes t 0) = 1 \<and> pipe_contents (pipes t 0) = [0, 0])"
proof -
  have w: "pi_nwrite (pipes (pipe_state []) 0) = 0xFFFFFFFF" by (simp add: pipe_state_def)
  have le: "length ([] :: u8 list) \<le> PIPESIZE" by simp
  note st = pipe_state_pipe [OF le]
  show ?thesis
    using pipewrite_appends [OF pipe_state_sel(1,2) st(3) pipe_state_sel(5) st(1), of 2 "0xFFE"] pipe_state_bytes w st(2)
    by (auto simp: PIPESIZE_def pipe_put_def Let_def)
qed

section \<open>Reading\<close>

definition consumed :: "nat \<Rightarrow> u8 list \<Rightarrow> nat" where
  "consumed k bs = (if k < length bs then Suc k else k)"

lemma put_bytes_le: "fst (put_bytes m pt va bs) \<le> length bs"
  by (induction bs arbitrary: m va) (auto simp: Let_def case_prod_beta)

abbreviation pipe_drop :: "nat \<Rightarrow> pipe \<Rightarrow> pipe" where
  "pipe_drop n \<equiv> (\<lambda>x. snd (pipe_get x)) ^^ n"

lemma consumed_Suc: "consumed (Suc k) (b # bs) = Suc (consumed k bs)"
  by (simp add: consumed_def)

lemma pipe_drop_Suc: "pipe_drop (Suc n) = (\<lambda>x. pipe_drop n (snd (pipe_get x)))"
  by (simp add: funpow_Suc_right comp_def del: funpow.simps)

lemma in_pipe_mem: "in_pipe pi f (s\<lparr>mem := m\<rparr>) = (in_pipe pi f s)\<lparr>mem := m\<rparr>"
  by (simp add: in_pipe_def)

lemma piperead_loop_eq:
  assumes "pipe_ok (pipes s pi)"
  shows "piperead_loop n p pi addr i s =
    (let bs = take n (pipe_contents (pipes s pi));
         (k, m') = put_bytes (mem s) (p_pagetable (procs s p)) (addr + of_nat i) bs
     in (Ret (i + k), in_pipe pi (pipe_drop (consumed k bs)) (s\<lparr>mem := m'\<rparr>)))"
  using assms
proof (induction n arbitrary: i s)
  case 0
  then show ?case by (simp add: consumed_def)
next
  case (Suc n)
  show ?case
  proof (cases "pipe_contents (pipes s pi)")
    case Nil
    then show ?thesis using pq.empty_iff [OF Suc.prems] by (simp add: consumed_def)
  next
    case (Cons c cs)
    let ?a = "addr + of_nat i" and ?w = "put_user (mem s) (p_pagetable (procs s p)) (addr + of_nat i) [c]"
    let ?s = "in_pipe pi (\<lambda>x. snd (pipe_get x)) (s\<lparr>mem := snd ?w\<rparr>)"
    note g = pq.get_ok [OF Suc.prems Cons]
    have ne: "\<not> pipe_empty (pipes s pi)" using pq.empty_iff [OF Suc.prems] Cons by simp
    have st: "piperead_loop (Suc n) p pi addr i s = (if fst ?w = - 1 then (Ret i, ?s) else piperead_loop n p pi addr (Suc i) ?s)"
      unfolding in_pipe_mem unfolding in_pipe_def using ne g by (simp add: copyout_eq)
    show ?thesis
    proof (cases "fst ?w = - 1")
      case True
      then show ?thesis using st Cons by (simp add: Let_def case_prod_beta consumed_def del: piperead_loop.simps)
    next
      case False
      have "piperead_loop n p pi addr (Suc i) ?s = (let bs = take n (pipe_contents (pipes ?s pi));
         (k, m') = put_bytes (mem ?s) (p_pagetable (procs ?s p)) (addr + of_nat (Suc i)) bs
          in (Ret (Suc i + k), in_pipe pi (pipe_drop (consumed k bs)) (?s\<lparr>mem := m'\<rparr>)))"
        by (rule Suc.IH) (use g in \<open>simp add: in_pipe_def\<close>)
      with st False Cons g show ?thesis
        by (simp add: Let_def case_prod_beta consumed_Suc in_pipe_mem pipe_drop_Suc ac_simps del: piperead_loop.simps funpow.simps)
    qed
  qed
qed

lemma wake_set_mem: "wake_set A ch (s\<lparr>mem := m\<rparr>) = (wake_set A ch s)\<lparr>mem := m\<rparr>"
  by (simp add: wake_set_def)

lemma mem_lk_id: "lk s = k \<Longrightarrow> s\<lparr>lk := k, mem := m\<rparr> = s\<lparr>mem := m\<rparr>"
  by simp

lemma pipe_drop_ok:
  assumes "pipe_ok x" "n \<le> length (pipe_contents x)"
  shows "pipe_ok (pipe_drop n x)" "pipe_contents (pipe_drop n x) = drop n (pipe_contents x)"
  using pq.get_all [OF assms] by simp_all

text \<open>
  C10. \<open>piperead\<close> takes from the queue. From a pipe that is not empty, or has no writer left, it copies up to \<open>n\<close> bytes, oldest
  first, to the caller's buffer, removes them, wakes the writers and returns their number; at a byte that
  cannot be written it stops, and that byte is lost. From an empty pipe with a writer it sleeps with the pipe
  unlocked, or returns -1 if the process has been killed.
\<close>

theorem piperead_takes:
  assumes "quiet (lk s)" "cur s = Some p" "pipe_ok (pipes s pi)"
  shows "let cs = pipe_contents (pipes s pi); bs = take (nat n) cs;
             (k, m') = put_bytes (mem s) (p_pagetable (procs s p)) addr bs
    in if cs = [] \<and> pi_writeopen (pipes s pi) then
         if p_killed (procs s p) \<noteq> 0 then piperead pi addr n s = (Ret (- 1), s)
         else \<exists>t. piperead pi addr n s = (Exc Switch, t) \<and> pipes t = pipes s \<and> p_state (procs t p) = SLEEPING
           \<and> p_chan (procs t p) = Some (Chan_pipe_nread pi) \<and> lk t = lock1 (L_proc p) (lk s)
       else piperead pi addr n s = (Ret (int k),
           wake_all (Chan_pipe_nwrite pi) (in_pipe pi (pipe_drop (consumed k bs)) (s\<lparr>mem := m'\<rparr>)))
         \<and> pipe_ok (pipe_drop (consumed k bs) (pipes s pi))
         \<and> pipe_contents (pipe_drop (consumed k bs) (pipes s pi)) = drop (consumed k bs) cs"
proof -
  define cs where "cs = pipe_contents (pipes s pi)"
  define w where "w = put_bytes (mem s) (p_pagetable (procs s p)) addr (take (nat n) cs)"
  let ?s = "s\<lparr>lk := lock1 (L_pipe pi) (lk s)\<rparr>" and ?c = "consumed (fst w) (take (nat n) cs)"
  have em: "pipe_empty (pipes s pi) \<longleftrightarrow> cs = []" using pq.empty_iff [OF assms(3)] by (simp add: cs_def)
  have "?c \<le> length (take (nat n) cs)" using put_bytes_le [of "mem s" "p_pagetable (procs s p)" addr "take (nat n) cs"]
    by (auto simp: consumed_def w_def)
  then have c: "?c \<le> length cs" by simp
  have loop: "piperead_loop (nat n) p pi addr 0 ?s = (Ret (fst w), in_pipe pi (pipe_drop ?c) (?s\<lparr>mem := snd w\<rparr>))"
    using piperead_loop_eq [of ?s pi "nat n" p addr 0] assms(3) by (simp add: Let_def case_prod_beta cs_def w_def)
  have go: "piperead pi addr n s = (Ret (int (fst w)), wake_all (Chan_pipe_nwrite pi) (in_pipe pi (pipe_drop ?c) (s\<lparr>mem := snd w\<rparr>)))"
    if "\<not> (cs = [] \<and> pi_writeopen (pipes s pi))"
    using that assms loop em by (auto simp: piperead_def piperead_locked_def wakeup_eq in_pipe_mem in_pipe_lk wake_set_mem mem_lk_id)
  show ?thesis unfolding Let_def cs_def [symmetric] w_def [symmetric] case_prod_beta
    using assms em go pipe_drop_ok [OF assms(3), of ?c] c sleep_eq [of ?s "L_pipe pi" "lk s" p "Chan_pipe_nread pi"]
    by (auto simp: cs_def [symmetric] piperead_def piperead_locked_def killed_eq charge_def)
qed

theorem piperead_takes_witness:
  "quiet (lk (pipe_state [7])) \<and> (\<exists>t. piperead 0 0xFFE 5 (pipe_state [7]) = (Ret 1, t) \<and> pipe_contents (pipes t 0) = [])"
proof -
  have le: "length [7 :: u8] \<le> PIPESIZE" by (simp add: PIPESIZE_def)
  note st = pipe_state_pipe [OF le]
  have "put_bytes two_pages 0x80001000 0xFFE [7] = (1, snd (put_bytes two_pages 0x80001000 0xFFE [7]))"
    by (simp add: pipe_state_xlate put_user.simps page_chunk_1 PGROUNDDOWN_def PGSIZE_def)
  then show ?thesis
    using piperead_takes [OF pipe_state_sel(1,2) st(1), of 5 "0xFFE"] st(2)
    by (auto simp: Let_def case_prod_beta consumed_def)
qed

end
