(* ===== verification/Xv6_PrintfProps.thy ===== *)
theory Xv6_PrintfProps
  imports Xv6_Printf
begin

text \<open>
  The kernel's \<open>printf\<close> as a function from the format string and the arguments to the bytes on the console.
\<close>

declare digits_rev.simps [simp del]

section \<open>The text\<close>

text \<open>\<open>None\<close>: the arguments do not fit the format.\<close>

fun format :: "u8 list \<Rightarrow> fmtarg list \<Rightarrow> u8 list option" where
  "format [] args = Some []"
| "format [c] args = Some (if c = 37 then [] else [c])"
| "format (c # d # fmt) args =
     (if c \<noteq> 37 then map_option ((#) c) (format (d # fmt) args)
      else if d = 100 \<or> d = 120 then
        (case args of
           Fint x # rest \<Rightarrow> map_option ((@) (printint_bytes x (if d = 100 then 10 else 16) True)) (format fmt rest)
         | _ \<Rightarrow> None)
      else if d = 112 then
        (case args of Fptr x # rest \<Rightarrow> map_option ((@) ([48, 120] @ ptr_digits 16 x)) (format fmt rest) | _ \<Rightarrow> None)
      else if d = 115 then
        (case args of
           Fstr str # rest \<Rightarrow> map_option ((@) (case str of Some bs \<Rightarrow> bs | None \<Rightarrow> map of_char ''(null)'')) (format fmt rest)
         | _ \<Rightarrow> None)
      else if d = 37 then map_option ((#) 37) (format fmt args)
      else map_option (\<lambda>bs. 37 # d # bs) (format fmt args))"

definition emit :: "u8 list \<Rightarrow> kstate \<Rightarrow> kstate" where
  "emit bs s = s\<lparr>conout := conout s @ bs\<rparr>"

lemma emit_simps [simp]:
  "lk (emit bs s) = lk s" "panicked (emit bs s) = panicked s" "pr_locking (emit bs s) = pr_locking s"
  "emit [] s = s" "emit cs (emit bs s) = emit (bs @ cs) s" "procs (emit bs s) = procs s" "mem (emit bs s) = mem s"
  by (simp_all add: emit_def)

lemma pop_off_off1: "cpu_ok k \<Longrightarrow> lk s = off1 k \<Longrightarrow> pop_off s = (Ret (), s\<lparr>lk := k\<rparr>)"
  by (subst pop_off_eq) (simp_all add: on1_off1, simp_all add: off1_def cpu_ok_def mycpu_of_def)

lemma uartputc_sync_eq:
  assumes "cpu_ok (lk s)" "\<not> panicked s"
  shows "uartputc_sync c s = (Ret (), emit [c] s)"
  using assms by (simp add: uartputc_sync_def push_off_eq pop_off_off1 emit_def)

lemma consputc_eq:
  assumes "cpu_ok (lk s)" "\<not> panicked s"
  shows "consputc (uint (c :: u8)) s = (Ret (), emit [c] s)"
proof -
  have "uint c \<noteq> BACKSPACE" using uint_lt2p [of c] by (simp add: BACKSPACE_def)
  then show ?thesis using uartputc_sync_eq [OF assms] by (simp add: consputc_def)
qed

lemma putbytes_eq:
  assumes "cpu_ok (lk s)" "\<not> panicked s"
  shows "putbytes bs s = (Ret (), emit bs s)"
proof -
  have "kfor bs (\<lambda>c. consputc (uint c)) (emit as s) = (Ret (), emit (as @ bs) s)" for as
    by (induction bs arbitrary: as) (simp_all add: consputc_eq assms)
  from this [of "[]"] show ?thesis by (simp add: putbytes_def)
qed

lemma printf_loop_eq:
  assumes "cpu_ok (lk s)" "\<not> panicked s" "format fmt args = Some bs"
  shows "printf_loop fmt args s = (Ret (), emit bs s)"
  using assms
proof (induction fmt args arbitrary: s bs rule: format.induct)
  case (3 c d fmt args)
  note IH = "3.IH" and A = "3.prems"(1,2) and F = "3.prems"(3)
  consider (lit) "c \<noteq> 37" | (int) "c = 37" "d = 100 \<or> d = 120" | (ptr) "c = 37" "d = 112" | (str) "c = 37" "d = 115"
    | (pct) "c = 37" "d = 37" | (other) "c = 37" "d \<notin> {100, 120, 112, 115, 37}" by auto
  then show ?case
  proof cases
    case lit
    then obtain cs where cs: "format (d # fmt) args = Some cs" "bs = c # cs" using F by auto
    with lit IH(1) [OF _ _ _ cs(1)] A show ?thesis by (simp add: consputc_eq)
  next
    case int
    then obtain x rest cs where x: "args = Fint x # rest" "format fmt rest = Some cs"
      "bs = printint_bytes x (if d = 100 then 10 else 16) True @ cs"
      using F by (auto split: list.splits fmtarg.splits)
    with int IH(2) A show ?thesis by (auto simp: printint_def putbytes_eq)
  next
    case ptr
    then obtain x rest cs where x: "args = Fptr x # rest" "format fmt rest = Some cs" "bs = [48, 120] @ ptr_digits 16 x @ cs"
      using F by (auto split: list.splits fmtarg.splits)
    with ptr IH(3) A show ?thesis by (auto simp: printptr_def putbytes_eq simp del: ptr_digits.simps)
  next
    case str
    then obtain x rest cs where x: "args = Fstr x # rest" "format fmt rest = Some cs"
      "bs = (case x of Some bs \<Rightarrow> bs | None \<Rightarrow> map of_char ''(null)'') @ cs"
      using F by (auto split: list.splits fmtarg.splits)
    with str IH(4) A show ?thesis by (auto simp: putbytes_eq split: option.splits)
  next
    case pct
    then obtain cs where cs: "format fmt args = Some cs" "bs = 37 # cs" using F by auto
    with pct IH(5) [OF _ _ _ _ _ _ _ cs(1)] A consputc_eq [of s 37] show ?thesis by simp
  next
    case other
    then obtain cs where cs: "format fmt args = Some cs" "bs = 37 # d # cs" using F by auto
    with other IH(6) [OF _ _ _ _ _ _ _ cs(1)] A consputc_eq [of s 37] consputc_eq [of _ d] show ?thesis by simp
  qed
qed (auto simp: consputc_eq)

lemma printf_eq:
  assumes "cpu_ok (lk s)" "lk_free L_pr (lk s)" "\<not> panicked s" "format (map of_char fmt) args = Some bs"
  shows "printf fmt args s = (Ret (), emit bs s)"
proof (cases "pr_locking s")
  case True
  have "printf_loop (map of_char fmt) args (s\<lparr>lk := lock1 L_pr (lk s)\<rparr>) = (Ret (), emit bs (s\<lparr>lk := lock1 L_pr (lk s)\<rparr>))"
    by (rule printf_loop_eq) (use assms in simp_all)
  then show ?thesis using assms True by (simp add: printf_def emit_def)
next
  case False
  then show ?thesis using printf_loop_eq [OF assms(1,3,4)] by (simp add: printf_def)
qed



section \<open>Numerals\<close>

text \<open>The value of a numeral with digits 0-9 and a-f.\<close>

definition digit_val :: "u8 \<Rightarrow> nat" where
  "digit_val c = (if unat c < 58 then unat c - 48 else unat c - 87)"

fun numval :: "nat \<Rightarrow> u8 list \<Rightarrow> nat" where
  "numval base [] = 0"
| "numval base (c # cs) = digit_val c * base ^ length cs + numval base cs"

definition signed_val :: "nat \<Rightarrow> u8 list \<Rightarrow> int" where
  "signed_val base bs = (if bs \<noteq> [] \<and> hd bs = 45 then - int (numval base (tl bs)) else int (numval base bs))"

lemma unat_digit: "i < 16 \<Longrightarrow> unat (digit i) = (if i < 10 then 48 + i else 87 + i)"
  by (simp only: digit_def if_distrib [of unat] unat_of_nat) simp

lemma mod_digit: "2 \<le> base \<Longrightarrow> base \<le> 16 \<Longrightarrow> x mod base < (16 :: nat)"
  by (rule less_le_trans [of _ base]) simp_all

lemma digit_val_digit [simp]: "i < 16 \<Longrightarrow> digit_val (digit i) = i"
  by (simp add: digit_val_def unat_digit)

lemma digit_not_minus: "i < 16 \<Longrightarrow> digit i \<noteq> 45"
  using unat_digit [of i] by (auto split: if_splits)

lemma numval_append: "numval base (as @ bs) = numval base as * base ^ length bs + numval base bs"
  by (induction as) (simp_all add: algebra_simps power_add)

lemma numval_digits:
  assumes "2 \<le> base" "base \<le> 16"
  shows "numval base (rev (digits_rev base x)) = x"
proof (induction x rule: less_induct)
  case (less x)
  note m = mod_digit [OF assms, of x]
  show ?case
  proof (cases "x div base = 0")
    case True
    with m assms show ?thesis by (subst digits_rev.simps) (simp add: mod_less div_eq_0_iff)
  next
    case False
    with assms have "x div base < x" by (metis One_nat_def Suc_1 div_0 div_less_dividend not_gr_zero Suc_le_lessD)
    from less [OF this] m False assms show ?thesis by (subst digits_rev.simps) (simp add: numval_append)
  qed
qed

lemma digits_hd: "2 \<le> base \<Longrightarrow> base \<le> 16 \<Longrightarrow> 45 \<notin> set (digits_rev base x)"
proof (induction base x rule: digits_rev.induct)
  case (1 base x)
  note m = mod_digit [OF "1.prems", of x]
  then show ?case using 1 digit_not_minus [OF m] by (subst digits_rev.simps) auto
qed

lemma digits_rev_nonempty: "digits_rev base x \<noteq> []"
  by (subst digits_rev.simps) simp

lemma length_digits:
  assumes "2 \<le> base" "x < base ^ Suc n"
  shows "length (digits_rev base x) \<le> Suc n"
  using assms(2)
proof (induction n arbitrary: x)
  case 0
  then show ?case by (subst digits_rev.simps) (simp add: div_eq_0_iff)
next
  case (Suc n)
  then have "x div base < base ^ Suc n" using assms(1) by (simp add: div_less_iff_less_mult mult.commute)
  from Suc.IH [OF this] show ?case by (subst digits_rev.simps) simp
qed

text \<open>
  C37. What \<open>printint\<close> writes for a C int, in base 10 or 16 and for the least integer as well, is a numeral of
  that int: at most eleven characters, and reading it gives the number back.
\<close>

theorem printint_reads_back:
  assumes "- (2 ^ 31) \<le> x" "x < 2 ^ 31" "base \<in> {10, 16}"
  shows "signed_val base (printint_bytes x base True) = x \<and> length (printint_bytes x base True) \<le> 11"
proof -
  define y where "y = nat \<bar>x\<bar>"
  have b: "2 \<le> base" "base \<le> 16" "2 ^ 32 \<le> base ^ Suc 9" using assms(3) by auto
  have y: "y < 2 ^ 32" using assms(1,2) by (simp add: y_def)
  have u: "unat (if x < 0 then of_int (- x) else of_int x :: u32) = y"
    using assms(1,2) by (auto simp only: y_def unat_eq_nat_uint uint_word_of_int split: if_split) (simp_all add: mod_pos_pos_trivial)
  have p: "printint_bytes x base True = rev (digits_rev base y @ (if x < 0 then [45] else []))"
    by (simp only: printint_bytes_def Let_def u simp_thms)
  have l: "length (digits_rev base y) \<le> 10" using length_digits [OF b(1) less_le_trans [OF y b(3)]] by simp
  have h: "hd (rev (digits_rev base y)) \<noteq> 45" 
    using digits_hd [OF b(1,2), of y] hd_in_set [of "rev (digits_rev base y)"] by (auto simp: digits_rev_nonempty)
  show ?thesis
  proof (cases "x < 0")
    case True
    then show ?thesis using l by (simp add: p signed_val_def digits_rev_nonempty numval_digits [OF b(1,2)], simp add: y_def)
  next
    case False
    then show ?thesis using l h by (simp add: p signed_val_def digits_rev_nonempty numval_digits [OF b(1,2)], simp add: y_def)
  qed
qed

theorem printint_reads_back_witness:
  "signed_val 10 (printint_bytes (- 2147483648) 10 True) = - 2147483648
   \<and> length (printint_bytes (- 2147483648) 10 True) \<le> 11"
  using printint_reads_back [of "- 2147483648" 10] by simp

end
