(* ===== verification/Xv6_SysProps.thy ===== *)
theory Xv6_SysProps
  imports Xv6_Ps Xv6_PrintfProps
begin

text \<open>
  The system calls and their dispatcher, run in a state in which no lock is held.
\<close>

section \<open>Numbers without a system call\<close>

definition ascii :: "string \<Rightarrow> u8 list" where
  "ascii str = map of_char str"

text \<open>The message of \<open>syscall\<close> for a number without an entry in the table.\<close>

definition unknown_text :: "proc \<Rightarrow> int \<Rightarrow> u8 list" where
  "unknown_text x num = printint_bytes (p_pid x) 10 True @ ascii '' '' @ cstr (p_name x)
     @ ascii '': unknown sys call '' @ printint_bytes num 10 True @ [10]"

lemma format_unknown:
  "format (map of_char (''%d %s: unknown sys call %d'' @ [CHR 0x0A])) [Fint (p_pid x), Fstr (Some (cstr (p_name x))), Fint num]
   = Some (unknown_text x num)"
  by (simp add: unknown_text_def ascii_def)

lemma syscalls_None: "num \<notin> {1..25} \<Longrightarrow> num \<noteq> 27 \<Longrightarrow> 0 < num \<Longrightarrow> num < 28 \<Longrightarrow> syscalls num = None"
proof -
  assume "num \<notin> {1..25}" "num \<noteq> 27" "0 < num" "num < 28"
  then have "num = 26" by auto
  then show ?thesis by (simp add: syscalls_def)
qed

definition sysnum :: "kstate \<Rightarrow> nat \<Rightarrow> int" where
  "sysnum s p = sint (ucast (load64 (mem s) (p_trapframe (procs s p) + tf_a 7)) :: u32)"

text \<open>
  C23. A number without an entry in \<open>syscalls[]\<close> - zero, a negative one, one above the table, and 26, which
  \<open>syscall.h\<close> gives to \<open>getppid\<close> and the table leaves out - prints the pid and the name of the process and
  the number, and returns -1 in \<open>a0\<close>; nothing else changes. In particular \<open>getppid\<close> never reaches \<open>sys_getppid\<close>.
\<close>

theorem unknown_syscall_fails:
  assumes "cpu_ok (lk s)" "lk_free L_pr (lk s)" "\<not> panicked s" "cur s = Some p"
    and "sysnum s p \<notin> {1..25}" "sysnum s p \<noteq> 27"
  shows "syscall s = (Ret (), s\<lparr>conout := conout s @ unknown_text (procs s p) (sysnum s p),
     mem := store64 (mem s) (p_trapframe (procs s p) + tf_a 0) (- 1)\<rparr>)"
  using assms(4) printf_eq [OF assms(1-3) format_unknown, of "procs s p" "sysnum s p"] syscalls_None [OF assms(5,6)] assms(1)
  unfolding sysnum_def by (simp add: syscall_def tf_load_def tf_store_def Let_def emit_def)

theorem unknown_syscall_fails_witness:
  "\<exists>s :: kstate. sysnum s 1 = 26 \<and> syscall s = (Ret (), s\<lparr>conout := map of_char ''2 : unknown sys call 26'' @ [10],
     mem := store64 (mem s) (tf_a 0) (- 1)\<rparr>)"
proof (rule exI [of _ "nested_state\<lparr>mem := store64 (mem nested_state) (tf_a 7) 26\<rparr>"], rule conjI)
  let ?s = "nested_state\<lparr>mem := store64 (mem nested_state) (tf_a 7) 26\<rparr>"
  show n: "sysnum ?s 1 = 26" by (simp add: sysnum_def zero_proc_def load64_store64)
  have q: "cpu_ok (lk ?s)" "lk_free L_pr (lk ?s)" "\<not> panicked ?s" "cur ?s = Some 1" "sysnum ?s 1 \<notin> {1..25}" "sysnum ?s 1 \<noteq> 27"
    using nested_quiet n by (simp_all add: nested_state_def zero_state_def)
  have tf: "p_trapframe zero_proc = 0" by (simp add: zero_proc_def)
  have t: "unknown_text (nested_procs 1) 26 = map of_char ''2 : unknown sys call 26'' @ [10]"
    by (simp add: unknown_text_def ascii_def printint_bytes_def digits_rev.simps digit_def zero_proc_def cstr_def)
  show "syscall ?s = (Ret (), ?s\<lparr>conout := map of_char ''2 : unknown sys call 26'' @ [10],
     mem := store64 (mem ?s) (tf_a 0) (- 1)\<rparr>)"
    using unknown_syscall_fails [OF q] n t tf by (simp add: nested_state_def zero_state_def)
qed

section \<open>ps_info\<close>

text \<open>The last slot of the table with a given global pid.\<close>

definition last_with :: "kstate \<Rightarrow> int \<Rightarrow> nat option" where
  "last_with s pid = (case filter (\<lambda>q. p_pid (procs s q) = pid) [0..<NPROC] of [] \<Rightarrow> None | qs \<Rightarrow> Some (last qs))"

text \<open>The fields of \<open>struct process_info\<close> for process \<open>q\<close>, with their offsets.\<close>

definition ppid_of :: "kstate \<Rightarrow> nat \<Rightarrow> int" where
  "ppid_of s q = (case p_parent (procs s q) of
     None \<Rightarrow> 0
   | Some pa \<Rightarrow> if p_ns (procs s q) = p_ns (procs s pa)
       then p_pids (procs s pa) (ns_depth (namespaces s (the (p_ns (procs s q))))) else 0)"

definition ps_fields :: "kstate \<Rightarrow> nat \<Rightarrow> (u64 \<times> u8 list) list" where
  "ps_fields s q = (let x = procs s q in
     [(0, take 16 (map of_char (state_name (p_state x)) @ [0] @ state_tail s (p_state x))),
      (16, le_bytes 4 (of_int (ppid_of s q) :: u32)), (20, le_bytes 4 (ucast (p_sz x) :: u32)),
      (24, le_bytes 4 (of_nat (files_count x) :: u32)), (28, p_name x), (44, le_bytes 4 (ticks s - p_init_ticks x)),
      (48, le_bytes 4 (p_run_time x)), (52, le_bytes 4 (p_context_switches x)),
      (56, le_bytes 4 (p_run_time x - p_kernel_time x)), (60, le_bytes 4 (p_kernel_time x)),
      (64, le_bytes 4 (p_waiting_time x)), (68, le_bytes 4 (p_read_b x)), (72, le_bytes 4 (p_write_b x)),
      (76, le_bytes 4 (p_heap_pages x))])"

primrec put_fields :: "u64 \<Rightarrow> u64 \<Rightarrow> (u64 \<times> u8 list) list \<Rightarrow> memory \<Rightarrow> int \<times> memory" where
  "put_fields pt dst [] m = (0, m)"
| "put_fields pt dst (f # fs) m =
     (let (r, m') = put_user m pt (dst + fst f) (snd f)
      in if r \<noteq> 0 then (- 1, m') else put_fields pt dst fs m')"

lemma ps_find_eq:
  assumes "quiet (lk s)"
  shows "ps_find qs pid c s = (Ret (case filter (\<lambda>q. p_pid (procs s q) = pid) qs of [] \<Rightarrow> c | xs \<Rightarrow> Some (last xs)), s)"
  using assms by (induction qs arbitrary: c) (auto split: list.splits)

lemma ps_put_eq:
  assumes "lk s = lock1 (L_proc q) k" "quiet k" "c_proc (mycpu_of k) = Some p"
  shows "ps_put q ptr bs rest s = (let (r, m') = put_user (mem s) (p_pagetable (procs s p)) ptr bs
     in if r \<noteq> 0 then (Ret (- 1), s\<lparr>mem := m', lk := k\<rparr>) else rest (s\<lparr>mem := m'\<rparr>))"
  using assms by (simp add: ps_put_def copyout_eq Let_def case_prod_beta)

lemma ps_parent_pid_eq:
  assumes "lk s = lock1 (L_proc q) k" "quiet k" "p_parent (procs s q) \<noteq> Some q"
    "\<And>pa. p_parent (procs s q) = Some pa \<Longrightarrow> p_ns (procs s q) \<noteq> None"
  shows "ps_parent_pid q s = (Ret (ppid_of s q), s)"
  using assms by (auto simp: ps_parent_pid_def ppid_of_def split: option.splits)

definition ps_rest :: "nat \<Rightarrow> kstate \<Rightarrow> nat \<Rightarrow> u64 \<Rightarrow> (u64 \<times> u8 list) list \<Rightarrow> memory \<Rightarrow> int res \<times> kstate" where
  "ps_rest p s q dst fs m = (let (r, m') = put_fields (p_pagetable (procs s p)) dst fs m in (Ret r, s\<lparr>mem := m'\<rparr>))"

lemma ps_put_step:
  assumes "quiet (lk s)" "cur s = Some p"
    and "\<And>m'. rest (s\<lparr>lk := lock1 (L_proc q) (lk s), mem := m'\<rparr>) = ps_rest p s q dst fs m'"
  shows "ps_put q (dst + off) bs rest (s\<lparr>lk := lock1 (L_proc q) (lk s), mem := m\<rparr>) = ps_rest p s q dst ((off, bs) # fs) m"
  using assms by (simp add: ps_put_eq [OF _ assms(1,2)] ps_rest_def Let_def case_prod_beta)

lemma ps_get_step:
  assumes "quiet (lk s)" "cur s = Some p"
    and "g (s\<lparr>lk := lock1 (L_proc q) (lk s), mem := m\<rparr>) = (Ret v, s\<lparr>lk := lock1 (L_proc q) (lk s), mem := m\<rparr>)"
    and "\<And>m'. rest v (s\<lparr>lk := lock1 (L_proc q) (lk s), mem := m'\<rparr>) = ps_rest p s q dst fs m'"
  shows "kbind g (\<lambda>v. ps_put q (dst + off) (bs v) (rest v)) (s\<lparr>lk := lock1 (L_proc q) (lk s), mem := m\<rparr>)
    = ps_rest p s q dst ((off, bs v) # fs) m"
  using assms(3) ps_put_step [OF assms(1,2,4)] by simp

lemma ps_last_step:
  assumes "quiet (lk s)" "cur s = Some p"
  shows "kthen (release (L_proc q)) (kret 0) (s\<lparr>lk := lock1 (L_proc q) (lk s), mem := m\<rparr>) = ps_rest p s q dst [] m"
  using assms by (simp add: ps_rest_def)

lemma ppid_of_frame [simp]: "ppid_of (s\<lparr>lk := k, mem := m\<rparr>) = ppid_of s"
  by (auto simp: ppid_of_def fun_eq_iff split: option.splits)

lemma kbind_RetI: "m s = (Ret a, t) \<Longrightarrow> f a t = r \<Longrightarrow> kbind m f s = r"
  by simp

lemma kthen_RetI: "m s = (Ret a, t) \<Longrightarrow> f t = r \<Longrightarrow> kthen m f s = r"
  by simp

lemma ps_start: "X (s\<lparr>lk := k, mem := mem s\<rparr>) = r \<Longrightarrow> X (s\<lparr>lk := k\<rparr>) = (r :: int res \<times> kstate)"
  by simp



section \<open>Reading from a bad descriptor\<close>

text \<open>The \<open>n\<close>-th argument of the system call, and the open file it names as a descriptor.\<close>

definition arg :: "kstate \<Rightarrow> nat \<Rightarrow> nat \<Rightarrow> u64" where
  "arg s p n = load64 (mem s) (p_trapframe (procs s p) + tf_a n)"

definition fd_file :: "kstate \<Rightarrow> nat \<Rightarrow> nat option" where
  "fd_file s p = (let fd = sint (ucast (arg s p 0) :: u32)
     in if 0 \<le> fd \<and> fd < int NOFILE then p_ofile (procs s p) (nat fd) else None)"

lemma argraw_eq: "cpu_ok (lk s) \<Longrightarrow> cur s = Some p \<Longrightarrow> n \<le> 5 \<Longrightarrow> argraw n s = (Ret (arg s p n), s)"
  by (simp add: argraw_def tf_load_def arg_def)

lemma argint_eq: "cpu_ok (lk s) \<Longrightarrow> cur s = Some p \<Longrightarrow> n \<le> 5 \<Longrightarrow> argint n s = (Ret (sint (ucast (arg s p n) :: u32)), s)"
  by (simp add: argint_def argraw_eq)

lemma argfd_eq:
  "cpu_ok (lk s) \<Longrightarrow> cur s = Some p \<Longrightarrow>
   argfd 0 s = (Ret (map_option (\<lambda>f. (nat (sint (ucast (arg s p 0) :: u32)), f)) (fd_file s p)), s)"
  by (auto simp: argfd_def argint_eq fd_file_def Let_def split: option.splits)

lemma minus_one_32: "ucast (- 1 :: u64) = (- 1 :: u32)"
  by (rule bit_word_eqI) (simp add: bit_simps)

text \<open>
  C24. \<open>read\<close> from a descriptor that is not open returns -1 and changes nothing. From a file that is not open for reading it
  returns -1 as well, but the -1 is added to the byte counter of the process: \<open>read_b\<close> goes down by one and, from 0, to
  the largest 32-bit number. The same holds for \<open>write\<close> and \<open>write_b\<close>.
\<close>

theorem failed_read_write_counters:
  assumes "quiet (lk s)" "cur s = Some p"
  shows "(fd_file s p = None \<longrightarrow> sys_read s = (Ret (- 1), s) \<and> sys_write s = (Ret (- 1), s))
    \<and> (\<forall>f. fd_file s p = Some f \<longrightarrow> \<not> f_readable (files s f) \<longrightarrow>
          sys_read s = (Ret (- 1), upd_proc p (\<lambda>x. x\<lparr>p_read_b := p_read_b x - 1\<rparr>) s))
    \<and> (\<forall>f. fd_file s p = Some f \<longrightarrow> \<not> f_writable (files s f) \<longrightarrow>
          sys_write s = (Ret (- 1), upd_proc p (\<lambda>x. x\<lparr>p_write_b := p_write_b x - 1\<rparr>) s))"
  using assms minus_one_32
  by (auto simp: sys_read_def sys_write_def argaddr_def argraw_eq argint_eq argfd_eq fileread_def filewrite_def Let_def)

theorem failed_read_write_counters_witness:
  "\<exists>s t :: kstate. p_read_b (procs s 1) = 0 \<and> sys_read s = (Ret (- 1), t) \<and> p_read_b (procs t 1) = 0xFFFFFFFF"
proof -
  let ?s = "upd_proc 1 (\<lambda>x. x\<lparr>p_ofile := (\<lambda>_. Some 0)\<rparr>) (nested_state\<lparr>mem := store64 (\<lambda>_. 0) (tf_a 0) 0\<rparr>)"
  have q: "quiet (lk ?s)" "cur ?s = Some 1" using nested_quiet by simp_all
  have a: "arg ?s 1 0 = 0" by (simp add: arg_def zero_proc_def)
  have f: "fd_file ?s 1 = Some 0" unfolding fd_file_def a by (simp add: NOFILE_def)
  have r: "\<not> f_readable (files ?s 0)" by (simp add: nested_state_def zero_state_def zero_file_def)
  show ?thesis
    using failed_read_write_counters [OF q] f r
    by (intro exI [of _ ?s] exI [of _ "upd_proc 1 (\<lambda>x. x\<lparr>p_read_b := p_read_b x - 1\<rparr>) ?s"]) (auto simp: zero_proc_def)
qed

end
