(* ===== verification/Xv6_ConsProps.thy ===== *)
theory Xv6_ConsProps
  imports Xv6_Ring Xv6_SysProps
begin

text \<open>
  The console: the transmit ring of \<^verbatim>\<open>kernel/uart.c\<close> sends in order, and \<open>consoleintr\<close> of
  \<^verbatim>\<open>kernel/console.c\<close> is a line editor.
\<close>

section \<open>The transmitter\<close>

definition tx_pending :: "uartst \<Rightarrow> u8 list" where
  "tx_pending u = ring (tx_buf u) (tx_r u) (tx_w u)"

definition uart_ok :: "uartst \<Rightarrow> bool" where
  "uart_ok u \<longleftrightarrow> ring_ok 32 (tx_buf u) (tx_r u) (tx_w u)"

lemma wake_set_uart [simp]:
  "uart (wake_set A ch s) = uart s" "conout (wake_set A ch s) = conout s" "cons (wake_set A ch s) = cons s"
  "panicked (wake_set A ch s) = panicked s"
  by (simp_all add: wake_set_def)

lemma upd_proc_uart [simp]: "uart (upd_proc p f s) = uart s" "conout (upd_proc p f s) = conout s" "cons (upd_proc p f s) = cons s"
  by (simp_all add: upd_proc_def)

lemma unat_mod_32: "unat (x mod 32 :: u64) = unat x mod 32"
  by (simp add: unat_mod)

lemma uartstart_loop_eq:
  assumes "procs_free (lk s)" "uart_ok (uart s)" "uart_room (uart s) \<le> n"
  shows "\<exists>t. uartstart_loop (Suc n) s = (Ret (), t) \<and> lk t = lk s \<and> uart_ok (uart t)
    \<and> conout t = conout s @ take (uart_room (uart s)) (tx_pending (uart s))
    \<and> tx_pending (uart t) = drop (uart_room (uart s)) (tx_pending (uart s)) \<and> cons t = cons s \<and> panicked t = panicked s"
  using assms
proof (induction n arbitrary: s)
  case 0
  then show ?case by (simp add: Let_def)
next
  case (Suc n)
  let ?u = "uart s"
  show ?case
  proof (cases "tx_pending ?u")
    case Nil
    then have "tx_w ?u = tx_r ?u" by (simp add: tx_pending_def ring_empty [symmetric])
    then show ?thesis using Suc.prems Nil by simp
  next
    case (Cons c cs)
    then have ne: "tx_w ?u \<noteq> tx_r ?u" by (auto simp: tx_pending_def ring_def)
    note g = ring_get [of 32 "tx_buf ?u" "tx_r ?u" "tx_w ?u" c cs]
    have c: "tx_buf ?u ! unat (tx_r ?u mod UART_TX_BUF_SIZE) = c"
      using g(1) Suc.prems(2) Cons by (simp add: uart_ok_def tx_pending_def UART_TX_BUF_SIZE_def unat_mod_32)
    show ?thesis
    proof (cases "uart_room ?u")
      case 0
      then show ?thesis using Suc.prems ne by simp
    next
      case (Suc r)
      let ?v = "wake_set {..<NPROC} (Some Chan_uart) (s\<lparr>uart := ?u\<lparr>tx_r := tx_r ?u + 1\<rparr>\<rparr>)"
      let ?t = "?v\<lparr>conout := conout s @ [c], uart := ?u\<lparr>tx_r := tx_r ?u + 1, uart_room := r\<rparr>\<rparr>"
      have w: "wakeup Chan_uart (s\<lparr>uart := ?u\<lparr>tx_r := tx_r ?u + 1\<rparr>\<rparr>) = (Ret (), ?v)"
        using Suc.prems by (intro wakeup_eq) simp
      have st: "uartstart_loop (Suc (Suc n)) s = uartstart_loop (Suc n) ?t"
        using ne Suc c w by (subst uartstart_loop.simps) (simp add: Let_def del: uartstart_loop.simps)
      have "\<exists>t. uartstart_loop (Suc n) ?t = (Ret (), t) \<and> lk t = lk ?t \<and> uart_ok (uart t)
        \<and> conout t = conout ?t @ take (uart_room (uart ?t)) (tx_pending (uart ?t))
        \<and> tx_pending (uart t) = drop (uart_room (uart ?t)) (tx_pending (uart ?t)) \<and> cons t = cons ?t \<and> panicked t = panicked ?t"
        by (rule Suc.IH) (use Suc.prems Suc g(2) Cons in \<open>simp_all add: uart_ok_def tx_pending_def\<close>)
      then show ?thesis unfolding st using Suc g(3) Suc.prems(2) Cons by (auto simp: uart_ok_def tx_pending_def simp del: uartstart_loop.simps)
    qed
  qed
qed

text \<open>
  C26. The transmitter sends in order. If the ring is full, \<open>uartputc\<close> sleeps and nothing is lost. Otherwise the byte goes
  behind those that wait; as many of them as the transmitter has room for are sent, oldest first, and the others stay in the
  ring. The counters may wrap around.
\<close>

theorem uartputc_in_order:
  assumes "quiet (lk s)" "cur s = Some p" "\<not> panicked s" "uart_ok (uart s)"
  shows "if length (tx_pending (uart s)) = 32 then
      \<exists>t. uartputc c s = (Exc Switch, t) \<and> uart t = uart s \<and> conout t = conout s \<and> p_state (procs t p) = SLEEPING
        \<and> p_chan (procs t p) = Some Chan_uart \<and> lk t = lock1 (L_proc p) (lk s)
    else \<exists>t. uartputc c s = (Ret (), t) \<and> lk t = lk s \<and> uart_ok (uart t)
        \<and> conout t = conout s @ take (uart_room (uart s)) (tx_pending (uart s) @ [c])
        \<and> tx_pending (uart t) = drop (uart_room (uart s)) (tx_pending (uart s) @ [c])"
proof (cases "length (tx_pending (uart s)) = 32")
  case True
  let ?s = "s\<lparr>lk := lock1 L_uart (lk s)\<rparr>"
  have "tx_w (uart s) = tx_r (uart s) + UART_TX_BUF_SIZE"
    using ring_full [of 32 "tx_buf (uart s)" "tx_r (uart s)" "tx_w (uart s)"] assms(4) True
    by (simp add: uart_ok_def tx_pending_def UART_TX_BUF_SIZE_def)
  then have "uartputc c s = sleep Chan_uart L_uart ?s" using assms by (simp add: uartputc_def uartputc_loop_def)
  then show ?thesis using True by (simp add: sleep_eq [of ?s L_uart "lk s" p] assms charge_def)
next
  case False
  let ?u = "uart s"
  have lt: "unat (tx_w ?u - tx_r ?u) < 32" using False assms(4) by (simp add: uart_ok_def tx_pending_def ring_ok_def)
  note put = ring_put [of 32 "tx_buf ?u" "tx_r ?u" "tx_w ?u" c]
  have nf: "tx_w ?u \<noteq> tx_r ?u + UART_TX_BUF_SIZE"
    using ring_full [of 32 "tx_buf ?u" "tx_r ?u" "tx_w ?u"] assms(4) lt by (simp add: uart_ok_def UART_TX_BUF_SIZE_def)
  let ?v = "?u\<lparr>tx_buf := (tx_buf ?u)[unat (tx_w ?u) mod 32 := c], tx_w := tx_w ?u + 1\<rparr>"
  let ?t = "s\<lparr>lk := lock1 L_uart (lk s), uart := ?v\<rparr>"
  have v: "uart_ok ?v" "tx_pending ?v = tx_pending ?u @ [c]" using put assms(4) lt by (simp_all add: uart_ok_def tx_pending_def)
  obtain t where t: "uartstart_loop (Suc (uart_room (uart ?t))) ?t = (Ret (), t)" "lk t = lk ?t" "uart_ok (uart t)"
    "conout t = conout ?t @ take (uart_room (uart ?t)) (tx_pending (uart ?t))"
    "tx_pending (uart t) = drop (uart_room (uart ?t)) (tx_pending (uart ?t))"
    using uartstart_loop_eq [of ?t "uart_room (uart ?t)"] assms(1) v(1) by auto
  have "uartputc c s = (Ret (), t\<lparr>lk := lk s\<rparr>)"
    using assms nf t(1,2) by (simp add: uartputc_def uartputc_loop_def uartstart_def unat_mod_32 UART_TX_BUF_SIZE_def del: uartstart_loop.simps)
  then show ?thesis using t False v(2) by simp
qed

definition tx_state :: "nat \<Rightarrow> kstate" where
  "tx_state n = nested_state\<lparr>uart := \<lparr>tx_buf = map of_nat [0..<32], tx_w = of_nat n - 1, tx_r = 0xFFFFFFFFFFFFFFFF, uart_in = [], uart_room = 2\<rparr>\<rparr>"

theorem uartputc_in_order_witness:
  "(\<exists>t. uartputc 9 (tx_state 2) = (Ret (), t) \<and> conout t = [31, 0] \<and> tx_pending (uart t) = [9])
   \<and> (\<exists>t. uartputc 9 (tx_state 32) = (Exc Switch, t) \<and> conout t = [])"
proof -
  have q: "quiet (lk (tx_state n))" "cur (tx_state n) = Some 1" "\<not> panicked (tx_state n)" for n
    using nested_quiet by (simp_all add: tx_state_def) (simp_all add: nested_state_def zero_state_def)
  have u: "uart_ok (uart (tx_state 2))" "uart_ok (uart (tx_state 32))"
    by (simp_all add: tx_state_def uart_ok_def ring_ok_def)
  have p: "tx_pending (uart (tx_state 2)) = [31, 0]" "length (tx_pending (uart (tx_state 32))) = 32"
    by (simp_all add: tx_state_def tx_pending_def ring_def upt_rec)
  have c: "conout (tx_state n) = []" "uart_room (uart (tx_state n)) = 2" for n by (simp_all add: tx_state_def nested_state_def zero_state_def)
  show ?thesis
    using uartputc_in_order [OF q u(1), of 9] uartputc_in_order [OF q u(2), of 9] p c by (auto simp: eval_nat_numeral)
qed

section \<open>The line editor\<close>

text \<open>
  The input buffer holds the bytes that readers may have, up to \<open>cons_w\<close>, and the line that is being
  edited, up to \<open>cons_e\<close>.
\<close>

definition cons_ok :: "console \<Rightarrow> bool" where
  "cons_ok k \<longleftrightarrow> ring_ok 128 (cons_buf k) (cons_r k) (cons_e k) \<and> unat (cons_w k - cons_r k) \<le> unat (cons_e k - cons_r k)"

definition cons_all :: "console \<Rightarrow> u8 list" where
  "cons_all k = ring (cons_buf k) (cons_r k) (cons_e k)"

definition cons_abs :: "console \<Rightarrow> u8 list \<times> u8 list" where
  "cons_abs k = (take (unat (cons_w k - cons_r k)) (cons_all k), drop (unat (cons_w k - cons_r k)) (cons_all k))"

text \<open>What a key does to the two.\<close>

definition edit :: "int \<Rightarrow> u8 list \<times> u8 list \<Rightarrow> u8 list \<times> u8 list" where
  "edit c = (\<lambda>(ready, line).
     if c = 16 then (ready, line)
     else if c = 21 then (ready, rev (dropWhile (\<lambda>b. b \<noteq> 10) (rev line)))
     else if c = 8 \<or> c = 127 then (ready, butlast line)
     else if c \<noteq> 0 \<and> length (ready @ line) < 128 then
       (let b = (if c = 13 then 10 else of_int c); line' = line @ [b]
        in if b = 10 \<or> b = 4 \<or> length (ready @ line') = 128 then (ready @ line', []) else (ready, line'))
     else (ready, line))"

lemma ring_back:
  fixes r e :: "'w :: len word"
  assumes "ring_ok n data r e" "ring data r e \<noteq> []"
  shows "ring_ok n data r (e - 1)" "ring data r (e - 1) = butlast (ring data r e)" "unat (e - 1 - r) = unat (e - r) - 1"
    "last (ring data r e) = data ! (unat (e - 1) mod n)"
proof -
  have ne: "e - r \<noteq> 0" using assms(2) by (auto simp: ring_def)
  show u: "unat (e - 1 - r) = unat (e - r) - 1" using unat_minus_one [OF ne] unfolding diff_right_commute [of e 1 r] .
  have n: "length data = n" using assms(1) by (simp add: ring_ok_def)
  obtain d where d: "unat (e - r) = Suc d" using ne by (cases "unat (e - r)") (simp_all add: unat_eq_0)
  have "r + of_nat d = e - 1"
  proof -
    have "of_nat (Suc d) = e - r" by (simp flip: d)
    then show ?thesis by (simp add: algebra_simps)
  qed
  then show "last (ring data r e) = data ! (unat (e - 1) mod n)" using n by (simp add: ring_def d)
  show "ring data r (e - 1) = butlast (ring data r e)" by (simp add: ring_def u d)
  show "ring_ok n data r (e - 1)" using assms(1) u d by (simp add: ring_ok_def)
qed

lemma unat_mod_128: "unat (x mod 128 :: u32) = unat x mod 128"
  by (simp add: unat_mod)

text \<open>Erasing the last byte of the line.\<close>

lemma cons_erase:
  assumes "cons_ok k" "cons_e k \<noteq> cons_w k"
  shows "cons_ok (k\<lparr>cons_e := cons_e k - 1\<rparr>)" "snd (cons_abs k) \<noteq> []"
    "cons_abs (k\<lparr>cons_e := cons_e k - 1\<rparr>) = (fst (cons_abs k), butlast (snd (cons_abs k)))"
    "cbuf_at k (cons_e k - 1) = last (snd (cons_abs k))"
proof -
  let ?w = "unat (cons_w k - cons_r k)" and ?e = "unat (cons_e k - cons_r k)"
  have "cons_w k - cons_r k \<noteq> cons_e k - cons_r k" using assms(2) by simp
  then have lt: "?w < ?e" using assms(1) by (simp add: cons_ok_def le_neq_implies_less word_unat_eq_iff)
  have rk: "ring_ok 128 (cons_buf k) (cons_r k) (cons_e k)" using assms(1) by (simp add: cons_ok_def)
  have ne: "cons_all k \<noteq> []" "length (cons_all k) = ?e" using lt by (auto simp: cons_all_def ring_def)
  note b = ring_back [OF rk ne(1) [unfolded cons_all_def], folded cons_all_def]
  show "cons_ok (k\<lparr>cons_e := cons_e k - 1\<rparr>)" using b(1,3) lt by (simp add: cons_ok_def)
  show "snd (cons_abs k) \<noteq> []" using lt ne(2) by (simp add: cons_abs_def)
  have "cons_all (k\<lparr>cons_e := cons_e k - 1\<rparr>) = butlast (cons_all k)" using b(2) by (simp add: cons_all_def)
  then show "cons_abs (k\<lparr>cons_e := cons_e k - 1\<rparr>) = (fst (cons_abs k), butlast (snd (cons_abs k)))"
    using lt ne(2) by (simp add: cons_abs_def take_butlast butlast_drop)
  show "cbuf_at k (cons_e k - 1) = last (snd (cons_abs k))"
    using b(4) lt ne(2) by (simp add: cbuf_at_def cons_abs_def INPUT_BUF_SIZE_def unat_mod_128)
qed

lemma cons_line_empty:
  assumes "cons_ok k"
  shows "cons_e k = cons_w k \<longleftrightarrow> snd (cons_abs k) = []"
  using cons_erase(2) [OF assms] by (auto simp: cons_abs_def cons_all_def)

lemma emit_cons [simp]: "cons (emit bs s) = cons s"
  by (simp add: emit_def)

lemma backspace_eq:
  assumes "cpu_ok (lk s)" "\<not> panicked s"
  shows "consputc BACKSPACE s = (Ret (), emit [8, 32, 8] s)"
  using assms by (simp add: consputc_def uartputc_sync_eq)

lemma kill_line_eq:
  assumes "cpu_ok (lk s)" "\<not> panicked s" "cons_ok (cons s)" "length (snd (cons_abs (cons s))) \<le> n"
  shows "\<exists>t. kill_line (Suc n) s = (Ret (), t) \<and> lk t = lk s \<and> cons_ok (cons t)
    \<and> cons_abs (cons t) = (fst (cons_abs (cons s)), rev (dropWhile (\<lambda>b. b \<noteq> 10) (rev (snd (cons_abs (cons s))))))"
  using assms
proof (induction n arbitrary: s)
  case 0
  then have "cons_e (cons s) = cons_w (cons s)" using cons_line_empty by simp
  with 0 show ?case by (cases "cons_abs (cons s)") simp
next
  case (Suc n)
  let ?k = "cons s" and ?l = "snd (cons_abs (cons s))"
  show ?case
  proof (cases "cons_e ?k \<noteq> cons_w ?k \<and> last ?l \<noteq> 10")
    case True
    note er = cons_erase [OF Suc.prems(3) conjunct1 [OF True]]
    let ?t = "emit [8, 32, 8] (s\<lparr>cons := ?k\<lparr>cons_e := cons_e ?k - 1\<rparr>\<rparr>)"
    have st: "kill_line (Suc (Suc n)) s = kill_line (Suc n) ?t"
      using True Suc.prems(1,2) er(4) by (subst kill_line.simps) (simp add: backspace_eq del: kill_line.simps)
    have "\<exists>t. kill_line (Suc n) ?t = (Ret (), t) \<and> lk t = lk ?t \<and> cons_ok (cons t)
      \<and> cons_abs (cons t) = (fst (cons_abs (cons ?t)), rev (dropWhile (\<lambda>b. b \<noteq> 10) (rev (snd (cons_abs (cons ?t))))))"
      by (rule Suc.IH) (use Suc.prems er in simp_all)
    moreover have "dropWhile (\<lambda>b. b \<noteq> 10) (rev ?l) = dropWhile (\<lambda>b. b \<noteq> 10) (rev (butlast ?l))"
      using er(2) True by (cases "?l" rule: rev_cases) auto
    ultimately show ?thesis unfolding st using er(3) by (simp del: kill_line.simps)
  next
    case False
    then have st: "kill_line (Suc (Suc n)) s = (Ret (), s)"
      using cons_erase(4) [OF Suc.prems(3)] by (subst kill_line.simps) (auto simp del: kill_line.simps)
    have "dropWhile (\<lambda>b. b \<noteq> 10) (rev ?l) = rev ?l"
      using False cons_line_empty [OF Suc.prems(3)] by (cases "?l" rule: rev_cases) auto
    then show ?thesis using st Suc.prems(3) by (cases "cons_abs ?k") simp
  qed
qed

lemma procdump_eq:
  assumes "cpu_ok (lk s)" "lk_free L_pr (lk s)" "\<not> panicked s"
  shows "\<exists>bs. procdump s = (Ret (), emit bs s)"
proof -
  have f: "format (map of_char ''%d %s %s'') [Fint a, Fstr (Some b), Fstr (Some c)]
      = Some (printint_bytes a 10 True @ [32] @ b @ [32] @ c)" for a b c by simp
  have nl: "format (map of_char [CHR 0x0A]) [] = Some [10]" by simp
  have pr: "lk_free L_pr (lk u)" "cpu_ok (lk u)" "\<not> panicked u" if "\<exists>bs. u = emit bs s" for u using that assms by auto
  have "\<exists>cs. kfor ps (\<lambda>p. kbind (kget (\<lambda>s. procs s p)) (\<lambda>x. if p_state x = UNUSED then kret () else
       kthen (printf ''%d %s %s'' [Fint (p_pid x), Fstr (Some (map of_char (state_name (p_state x)))), Fstr (Some (cstr (p_name x)))])
       (printf [CHR 0x0A] []))) (emit bs s) = (Ret (), emit cs s)" for ps bs
  proof (induction ps arbitrary: bs)
    case (Cons p ps)
    then show ?case
      using assms by (cases "p_state (procs s p) = UNUSED") (simp_all add: printf_eq [OF _ _ _ f] printf_eq [OF _ _ _ nl])
  qed auto
  then show ?thesis using assms by (simp add: procdump_def printf_eq [OF _ _ _ nl])
qed

text \<open>Adding a byte to the line, and handing the line over.\<close>

definition typed :: "u8 \<Rightarrow> console \<Rightarrow> console" where
  "typed b k = k\<lparr>cons_buf := (cons_buf k)[unat (cons_e k mod INPUT_BUF_SIZE) := b], cons_e := cons_e k + 1\<rparr>"

lemma cons_length: "cons_ok k \<Longrightarrow> length (fst (cons_abs k)) + length (snd (cons_abs k)) = unat (cons_e k - cons_r k)"
  by (simp add: cons_abs_def cons_all_def cons_ok_def)

lemma cons_typed:
  assumes "cons_ok k" "cons_e k - cons_r k < INPUT_BUF_SIZE"
  shows "cons_ok (typed b k)" "cons_abs (typed b k) = (fst (cons_abs k), snd (cons_abs k) @ [b])"
    "unat (cons_e (typed b k) - cons_r (typed b k)) = Suc (unat (cons_e k - cons_r k))"
proof -
  have lt: "unat (cons_e k - cons_r k) < 128" using assms(2) by (simp add: INPUT_BUF_SIZE_def word_less_nat_alt)
  have rk: "ring_ok 128 (cons_buf k) (cons_r k) (cons_e k)" "unat (cons_w k - cons_r k) \<le> unat (cons_e k - cons_r k)"
    using assms(1) by (simp_all add: cons_ok_def)
  note p = ring_put [OF rk(1) lt, of b]
  have all: "cons_all (typed b k) = cons_all k @ [b]" using p(2) by (simp add: cons_all_def typed_def INPUT_BUF_SIZE_def unat_mod_128)
  show u: "unat (cons_e (typed b k) - cons_r (typed b k)) = Suc (unat (cons_e k - cons_r k))"
    using arg_cong [OF all, of length] by (simp add: cons_all_def)
  show "cons_ok (typed b k)" using p(1) rk(2) u by (simp add: cons_ok_def typed_def INPUT_BUF_SIZE_def unat_mod_128)
  show "cons_abs (typed b k) = (fst (cons_abs k), snd (cons_abs k) @ [b])"
    using all rk(2) by (simp add: cons_abs_def) (simp add: typed_def cons_all_def)
qed

lemma cons_commit:
  assumes "cons_ok k"
  shows "cons_ok (k\<lparr>cons_w := cons_e k\<rparr>)" "cons_abs (k\<lparr>cons_w := cons_e k\<rparr>) = (fst (cons_abs k) @ snd (cons_abs k), [])"
  using assms by (simp_all add: cons_ok_def cons_abs_def cons_all_def)

lemma consputc_int:
  assumes "cpu_ok (lk s)" "\<not> panicked s" "0 \<le> c" "c < 256"
  shows "consputc c s = (Ret (), emit [of_int c] s)"
  using consputc_eq [OF assms(1,2), of "of_int c"] assms(3,4) by (simp add: uint_word_of_int)

lemma cons_line_length: "cons_ok k \<Longrightarrow> length (snd (cons_abs k)) = unat (cons_e k - cons_w k)"
proof -
  assume ok: "cons_ok k"
  then have "cons_w k - cons_r k \<le> cons_e k - cons_r k" by (simp add: cons_ok_def word_le_nat_alt)
  then have "unat ((cons_e k - cons_r k) - (cons_w k - cons_r k)) = unat (cons_e k - cons_r k) - unat (cons_w k - cons_r k)"
    by (rule unat_sub)
  then show ?thesis by (simp add: cons_abs_def cons_all_def)
qed

lemma emit_lk: "emit bs (s\<lparr>lk := k\<rparr>) = (emit bs s)\<lparr>lk := k\<rparr>"
  by (simp add: emit_def)

definition entered :: "int \<Rightarrow> console \<Rightarrow> bool" where
  "entered c k \<longleftrightarrow> c = 13 \<or> c = 10 \<or> c = 4 \<or> cons_e k - cons_r k = INPUT_BUF_SIZE"

lemma wake_set_cons: "wake_set A ch (s\<lparr>cons := k\<rparr>) = (wake_set A ch s)\<lparr>cons := k\<rparr>"
  by (simp add: wake_set_def)

lemma edit_key:
  assumes "cons_ok k" "0 \<le> c" "c < 256" "c \<notin> {0, 8, 16, 21, 127}" "cons_e k - cons_r k < INPUT_BUF_SIZE"
  defines "k' \<equiv> typed (if c = 13 then 10 else of_int c) k"
  defines "k'' \<equiv> (if entered c k' then k'\<lparr>cons_w := cons_e k'\<rparr> else k')"
  shows "cons_ok k''" "cons_abs k'' = edit c (cons_abs k)"
proof -
  let ?b = "if c = 13 then 10 else of_int c :: u8"
  note ty = cons_typed [OF assms(1,5), of ?b, folded k'_def]
  have lt: "length (fst (cons_abs k) @ snd (cons_abs k)) < 128"
    using assms(5) cons_length [OF assms(1)] by (simp add: INPUT_BUF_SIZE_def word_less_nat_alt)
  have "of_int c = (10 :: u8) \<longleftrightarrow> c = 10" "of_int c = (4 :: u8) \<longleftrightarrow> c = 4"
    using assms(2,3) word_of_int_eq_iff [of c 10, where 'a = 8] word_of_int_eq_iff [of c 4, where 'a = 8]
    by (simp_all add: take_bit_int_eq_self)
  moreover have "cons_e k' - cons_r k' = INPUT_BUF_SIZE \<longleftrightarrow> length (fst (cons_abs k) @ snd (cons_abs k) @ [?b]) = 128"
    using ty(3) cons_length [OF assms(1)] by (simp add: INPUT_BUF_SIZE_def word_unat_eq_iff)
  ultimately have en: "entered c k' \<longleftrightarrow> ?b = 10 \<or> ?b = 4 \<or> length (fst (cons_abs k) @ snd (cons_abs k) @ [?b]) = 128"
    by (auto simp: entered_def)
  show "cons_ok k''" using ty(1) cons_commit(1) [OF ty(1)] by (simp add: k''_def)
  have "edit c (cons_abs k) = (if entered c k' then (fst (cons_abs k) @ snd (cons_abs k) @ [?b], []) else (fst (cons_abs k), snd (cons_abs k) @ [?b]))"
    using assms(4) lt unfolding edit_def en case_prod_beta Let_def by auto
  then show "cons_abs k'' = edit c (cons_abs k)" using ty(2) cons_commit(2) [OF ty(1)] by (simp add: k''_def)
qed

text \<open>
  C25. \<open>consoleintr\<close> is a line editor. Whatever key comes in, the indices of the input buffer stay in order, and what it
  holds changes as \<open>edit\<close> says: backspace and delete take back the last byte of the line that is being edited,
  control-U all of it, control-P only lists the processes, any other key goes to the end of the line if there is
  room; a newline, control-D or a full buffer hand the line to the readers. Bytes that readers can have already are
  never changed.
\<close>

theorem consoleintr_edits:
  assumes "quiet (lk s)" "\<not> panicked s" "cons_ok (cons s)" "0 \<le> c" "c < 256"
  shows "\<exists>t. consoleintr c s = (Ret (), t) \<and> lk t = lk s \<and> cons_ok (cons t) \<and> cons_abs (cons t) = edit c (cons_abs (cons s))"
proof -
  let ?s = "s\<lparr>lk := lock1 L_cons (lk s)\<rparr>" and ?k = "cons s"
  have ok: "cpu_ok (lk ?s)" "\<not> panicked ?s" "lk_free L_pr (lk ?s)" using assms(1,2) by simp_all
  consider (dump) "c = 16" | (kill) "c = 21" | (erase) "c = 8 \<or> c = 127" | (key) "c \<notin> {0, 8, 16, 21, 127}" "cons_e ?k - cons_r ?k < INPUT_BUF_SIZE"
    | (drop) "c \<notin> {8, 16, 21, 127}" "c = 0 \<or> \<not> cons_e ?k - cons_r ?k < INPUT_BUF_SIZE" by auto
  then show ?thesis
  proof cases
    case dump
    obtain bs where "procdump ?s = (Ret (), emit bs ?s)" using procdump_eq [OF ok(1,3,2)] by blast
    then show ?thesis using dump assms by (auto simp: consoleintr_def edit_def emit_lk case_prod_beta)
  next
    case kill
    obtain t where "kill_line (Suc (unat (cons_e ?k - cons_w ?k))) ?s = (Ret (), t)" "lk t = lk ?s" "cons_ok (cons t)"
      "cons_abs (cons t) = (fst (cons_abs ?k), rev (dropWhile (\<lambda>b. b \<noteq> 10) (rev (snd (cons_abs ?k)))))"
      using kill_line_eq [OF ok(1,2), of "unat (cons_e ?k - cons_w ?k)"] assms(3) cons_line_length [OF assms(3)] by auto
    then show ?thesis using kill assms by (auto simp: consoleintr_def edit_def case_prod_beta simp del: kill_line.simps)
  next
    case erase
    show ?thesis
    proof (cases "cons_e ?k = cons_w ?k")
      case True
      then have "snd (cons_abs ?k) = []" using cons_line_empty [OF assms(3)] by simp
      then show ?thesis using erase True assms by (cases "cons_abs ?k") (auto simp: consoleintr_def edit_def kwhen_def)
    next
      case False
      then show ?thesis using erase assms cons_erase [OF assms(3) False]
        by (auto simp: consoleintr_def edit_def backspace_eq emit_lk case_prod_beta)
    qed
  next
    case key
    let ?k' = "typed (if c = 13 then 10 else of_int c) ?k" and ?e = "emit [if c = 13 then 10 else of_int c] s"
    let ?t = "if entered c ?k' then wake_set {..<NPROC} (Some Chan_cons) (?e\<lparr>cons := ?k'\<lparr>cons_w := cons_e ?k'\<rparr>\<rparr>) else ?e\<lparr>cons := ?k'\<rparr>"
    have put: "consputc (if c = 13 then 10 else c) ?s = (Ret (), emit [if c = 13 then 10 else of_int c] ?s)"
      using consputc_int [OF ok(1,2), of "if c = 13 then 10 else c"] assms(4,5) by (cases "c = 13") simp_all
    have "consoleintr c s = (Ret (), ?t)"
      using key assms(1) put by (cases "c = 13"; cases "entered c ?k'")
        (simp_all add: consoleintr_def Let_def typed_def entered_def wakeup_eq emit_lk kwhen_def wake_set_cons)
    then show ?thesis using edit_key [OF assms(3-5) key] assms(1) by (auto simp: emit_def)
  next
    case drop
    then have "c \<noteq> 0 \<longrightarrow> \<not> length (fst (cons_abs ?k) @ snd (cons_abs ?k)) < 128"
      using cons_length [OF assms(3)] by (auto simp: INPUT_BUF_SIZE_def word_less_nat_alt)
    then show ?thesis using drop assms by (auto simp: consoleintr_def edit_def kwhen_def case_prod_beta)
  qed
qed

theorem consoleintr_edits_witness:
  "\<exists>s t :: kstate. consoleintr 13 s = (Ret (), t) \<and> cons_abs (cons s) = ([], [65]) \<and> cons_abs (cons t) = ([65, 10], [])"
proof -
  let ?s = "nested_state\<lparr>cons := \<lparr>cons_buf = replicate 127 0 @ [65], cons_r = 0xFFFFFFFF, cons_w = 0xFFFFFFFF, cons_e = 0\<rparr>\<rparr>"
  have q: "quiet (lk ?s)" "\<not> panicked ?s" using nested_quiet by (simp, simp add: nested_state_def zero_state_def)
  have k: "cons_ok (cons ?s)" "cons_abs (cons ?s) = ([], [65])"
    by (simp_all add: cons_ok_def ring_ok_def cons_abs_def cons_all_def ring_def nth_append)
  have "edit 13 ([], [65]) = ([65, 10], [])" by (simp add: edit_def)
  then show ?thesis using consoleintr_edits [OF q k(1), of 13] k(2) by - (rule exI [of _ ?s], auto)
qed

end
