(* ===== verification/Xv6_BioProps.thy ===== *)
theory Xv6_BioProps
  imports Xv6_Bio
begin

text \<open>
  The buffer cache of \<^verbatim>\<open>kernel/bio.c\<close>: its links form a list of all buffers, most recently used first, and its
  operations in terms of the contents of blocks.
\<close>

section \<open>Paths along links\<close>

primrec path :: "(nat \<Rightarrow> nat) \<Rightarrow> nat \<Rightarrow> nat list \<Rightarrow> nat \<Rightarrow> bool" where
  "path g a [] z \<longleftrightarrow> g a = z"
| "path g a (x # xs) z \<longleftrightarrow> g a = x \<and> path g x xs z"

lemma path_append [simp]: "path g a (xs @ y # ys) z \<longleftrightarrow> path g a xs y \<and> path g y ys z"
  by (induction xs arbitrary: a) simp_all

lemma path_upd: "c \<notin> insert a (set xs) \<Longrightarrow> path (g(c := v)) a xs z = path g a xs z"
  by (induction xs arbitrary: a) auto

lemma path_cong: "(\<And>c. c \<in> insert a (set xs) \<Longrightarrow> g c = h c) \<Longrightarrow> path g a xs z = path h a xs z"
  by (induction xs arbitrary: a) auto

lemma path_end: "path g a xs z \<Longrightarrow> g (last (a # xs)) = z"
  by (induction xs arbitrary: a) auto

lemma path_hd: "path g a xs z \<Longrightarrow> g a = hd (xs @ [z])"
  by (cases xs) simp_all

lemma path_set_end: "a \<notin> set xs \<Longrightarrow> distinct xs \<Longrightarrow> path g a xs z \<Longrightarrow> path (g(last (a # xs) := y)) a xs y"
proof (induction xs arbitrary: a)
  case (Cons x xs)
  then show ?case by (auto simp: path_upd)
qed simp

text \<open>The links of the cache: from the head forwards along \<open>b_next\<close>, backwards along \<open>b_prev\<close>.\<close>

definition nx :: "(nat \<Rightarrow> buf) \<Rightarrow> nat \<Rightarrow> nat" where
  "nx f b = b_next (f b)"

definition pv :: "(nat \<Rightarrow> buf) \<Rightarrow> nat \<Rightarrow> nat" where
  "pv f b = b_prev (f b)"

definition linked :: "(nat \<Rightarrow> buf) \<Rightarrow> nat list \<Rightarrow> bool" where
  "linked f xs \<longleftrightarrow> path (nx f) BHEAD xs BHEAD \<and> path (pv f) BHEAD (rev xs) BHEAD \<and> distinct xs \<and> BHEAD \<notin> set xs"

text \<open>The assignments of \<open>brelse\<close> that take \<open>b\<close> out of the list and put it in front, on the links alone.\<close>

definition next_front :: "(nat \<Rightarrow> nat) \<Rightarrow> (nat \<Rightarrow> nat) \<Rightarrow> nat \<Rightarrow> nat \<Rightarrow> nat \<Rightarrow> nat" where
  "next_front n p H b = (let n1 = n(p b := n b) in n1(b := n1 H, H := b))"

definition prev_front :: "(nat \<Rightarrow> nat) \<Rightarrow> (nat \<Rightarrow> nat) \<Rightarrow> nat \<Rightarrow> nat \<Rightarrow> nat \<Rightarrow> nat" where
  "prev_front n p H b = p(n b := p b, b := H, (n(p b := n b)) H := b)"

lemma first_to_front:
  assumes n: "path n H (b # vs) H" and p: "path p H (rev vs @ [b]) H" and d: "distinct (H # b # vs)"
  shows "path (next_front n p H b) H (b # vs) H" "path (prev_front n p H b) H (rev vs @ [b]) H"
proof -
  have nb: "path n b vs H" "n b = hd (vs @ [H])" using n path_hd by simp_all
  have pb: "path p H (rev vs) b" "p b = H" using p by simp_all
  have "path (next_front n p H b) b vs H = path n b vs H"
    by (rule path_cong) (use d pb(2) in \<open>auto simp: next_front_def\<close>)
  then show "path (next_front n p H b) H (b # vs) H" using nb(1) d by (simp add: next_front_def)
  show "path (prev_front n p H b) H (rev vs @ [b]) H"
  proof (cases vs)
    case Nil
    then show ?thesis using nb(2) pb d by (simp add: prev_front_def)
  next
    case (Cons v vs')
    then have v: "n b = v" "path p H (rev vs') v" "p v = b" using nb(2) pb(1) by simp_all
    have "path (prev_front n p H b) H (rev vs') v = path p H (rev vs') v"
      by (rule path_cong) (use d Cons v pb(2) in \<open>auto simp: prev_front_def\<close>)
    then show ?thesis using d v pb(2) Cons by (simp add: prev_front_def)
  qed
qed

lemma next_front_inner:
  assumes n: "path n H (u # us @ b # vs) H" and d: "distinct (H # u # us @ b # vs)" and w: "p b = last (u # us)"
  shows "path (next_front n p H b) H (b # u # us @ vs) H"
proof -
  have nb: "path n u us b" "path n b vs H" "n H = u" "n b = hd (vs @ [H])" using n path_hd by simp_all
  have ws: "p b \<in> set (u # us)" using w by simp
  have un: "path (n(p b := n b)) u us (n b)" using path_set_end [of u us n b "n b"] nb(1) d by (simp add: w)
  have q1: "path (next_front n p H b) u us z = path (n(p b := n b)) u us z" for z
    by (rule path_cong) (use d ws in \<open>auto simp: next_front_def Let_def\<close>)
  have fr: "next_front n p H b H = b" "next_front n p H b b = u" using d ws nb(3) by (auto simp: next_front_def)
  show ?thesis
  proof (cases vs)
    case Nil
    then show ?thesis using q1 un nb(4) fr by simp
  next
    case (Cons v vs')
    have "path (next_front n p H b) v vs' H = path n v vs' H"
      by (rule path_cong) (use d ws Cons in \<open>auto simp: next_front_def Let_def\<close>)
    then show ?thesis using q1 un nb(2,4) fr Cons by simp
  qed
qed

lemma prev_front_inner:
  assumes p: "path p H (rev vs @ b # w # ws) H" and d: "distinct (H # rev vs @ b # w # ws)"
    and n: "n b = hd (vs @ [H])" "n H = last (w # ws)"
  shows "path (prev_front n p H b) H (rev vs @ w # ws @ [b]) H"
proof -
  let ?u = "last (w # ws)"
  have pb: "path p H (rev vs) b" "path p w ws H" "p b = w" using p by simp_all
  have u: "?u \<in> set (w # ws)" by simp
  have up: "path (p(?u := b)) w ws b" using path_set_end [of w ws p H b] pb(2) d by simp
  have h: "(n(p b := n b)) H = ?u" using d pb(3) n(2) by auto
  have q: "path (prev_front n p H b) w ws z = path (p(?u := b)) w ws z" for z
    by (rule path_cong) (use d n(1) u h in \<open>cases vs; auto simp: prev_front_def\<close>)
  have fb: "prev_front n p H b b = H" using d u h by (auto simp: prev_front_def)
  show ?thesis
  proof (cases vs)
    case Nil
    have "prev_front n p H b H = w" using d n(1) u h pb(3) Nil by (auto simp: prev_front_def)
    then show ?thesis using q up fb Nil by simp
  next
    case (Cons v vs')
    then have v: "n b = v" "path p H (rev vs') v" using n(1) pb(1) by simp_all
    have "path (prev_front n p H b) H (rev vs') v = path p H (rev vs') v"
      by (rule path_cong) (use d Cons v u h in \<open>auto simp: prev_front_def\<close>)
    moreover have "prev_front n p H b v = w" using d v(1) u h pb(3) Cons by (auto simp: prev_front_def)
    ultimately show ?thesis using q up fb v Cons by simp
  qed
qed

lemma links_to_front:
  assumes n: "path n H (us @ b # vs) H" and p: "path p H (rev (us @ b # vs)) H" and d: "distinct (H # us @ b # vs)"
  shows "path (next_front n p H b) H (b # us @ vs) H" "path (prev_front n p H b) H (rev (b # us @ vs)) H"
proof -
  have nb: "n b = hd (vs @ [H])" using n path_hd by simp
  have "path (next_front n p H b) H (b # us @ vs) H \<and> path (prev_front n p H b) H (rev (b # us @ vs)) H"
  proof (cases us rule: rev_cases)
    case Nil
    then show ?thesis using first_to_front [of n H b vs p] assms by simp
  next
    case (snoc ws w)
    then obtain u us' where us: "us = u # us'" by (metis append_is_Nil_conv list.exhaust not_Cons_self2)
    have "p b = w" using p snoc by simp
    then have pb: "p b = last (u # us')" using snoc us by (metis last_snoc)
    have "n H = u" using n us by simp
    then have l: "n H = last (w # rev ws)" using snoc us by (cases ws) auto
    have "path (next_front n p H b) H (b # us @ vs) H"
      using next_front_inner [of n H u us' b vs p] n d pb by (simp add: us)
    moreover have "path (prev_front n p H b) H (rev (b # us @ vs)) H"
      using prev_front_inner [of p H vs b w "rev ws" n] p d nb l by (simp add: snoc Int_commute)
    ultimately show ?thesis by blast
  qed
  then show "path (next_front n p H b) H (b # us @ vs) H" "path (prev_front n p H b) H (rev (b # us @ vs)) H" by blast+
qed

lemma linked_cong:
  assumes "\<And>b. b_next (f b) = b_next (g b)" "\<And>b. b_prev (f b) = b_prev (g b)"
  shows "linked f xs = linked g xs"
proof -
  have "nx f = nx g" "pv f = pv g" using assms by (simp_all add: nx_def pv_def fun_eq_iff)
  then show ?thesis by (simp add: linked_def)
qed

lemma bget_cached_eq:
  assumes "path (nx (bufs s)) a ys BHEAD" "BHEAD \<notin> set ys" "length ys \<le> n"
  shows "bget_cached (Suc n) (nx (bufs s) a) dev bn s
    = (Ret (List.find (\<lambda>b. b_dev (bufs s b) = dev \<and> b_blockno (bufs s b) = bn) ys), s)"
  using assms
proof (induction ys arbitrary: a n)
  case (Cons y ys)
  then obtain n' where "n = Suc n'" by (cases n) auto
  with Cons.prems Cons.IH [of y n'] show ?case
    by (cases "b_dev (bufs s y) = dev \<and> b_blockno (bufs s y) = bn") (auto simp: nx_def)
qed simp

lemma bget_unused_eq:
  assumes "path (pv (bufs s)) a ys BHEAD" "BHEAD \<notin> set ys" "length ys \<le> n"
  shows "bget_unused (Suc n) (pv (bufs s) a) s = (Ret (List.find (\<lambda>b. b_refcnt (bufs s b) = 0) ys), s)"
  using assms
proof (induction ys arbitrary: a n)
  case (Cons y ys)
  then obtain n' where "n = Suc n'" by (cases n) auto
  with Cons.prems Cons.IH [of y n'] show ?case
    by (cases "b_refcnt (bufs s y) = 0") (auto simp: pv_def)
qed simp

section \<open>Contents of blocks\<close>

definition holds_block :: "u32 \<Rightarrow> u32 \<Rightarrow> buf \<Rightarrow> bool" where
  "holds_block d bn x \<longleftrightarrow> b_dev x = d \<and> b_blockno x = bn"

text \<open>The buffer of a block, its contents as readers see them, and its reference count.\<close>

definition slot :: "u32 \<Rightarrow> kstate \<Rightarrow> u32 \<Rightarrow> nat option" where
  "slot d s bn = List.find (\<lambda>b. holds_block d bn (bufs s b)) [0..<NBUF]"

definition view :: "u32 \<Rightarrow> kstate \<Rightarrow> u32 \<Rightarrow> u8 list" where
  "view d s bn = (case slot d s bn of
     None \<Rightarrow> disk s bn
   | Some b \<Rightarrow> if b_valid (bufs s b) then b_data (bufs s b) else disk s bn)"

definition rc :: "u32 \<Rightarrow> kstate \<Rightarrow> u32 \<Rightarrow> nat" where
  "rc d s bn = (case slot d s bn of None \<Rightarrow> 0 | Some b \<Rightarrow> unat (b_refcnt (bufs s b)))"

text \<open>The cache of device \<open>d\<close> while process \<open>p\<close> holds the buffers \<open>H\<close>.\<close>

definition cache_inv :: "u32 \<Rightarrow> nat set \<Rightarrow> kstate \<Rightarrow> bool" where
  "cache_inv d H s \<longleftrightarrow> (\<exists>xs. linked (bufs s) xs \<and> set xs = {..<NBUF})
     \<and> (\<forall>b < NBUF. \<forall>c < NBUF. b_dev (bufs s b) = d \<longrightarrow> b_dev (bufs s c) = d \<longrightarrow> b_blockno (bufs s b) = b_blockno (bufs s c) \<longrightarrow> b = c)
     \<and> (\<forall>b < NBUF. b_dev (bufs s b) \<noteq> d \<longrightarrow> b_refcnt (bufs s b) = 0 \<and> \<not> b_valid (bufs s b))
     \<and> (\<forall>b < NBUF. b_valid (bufs s b) \<longrightarrow> b_refcnt (bufs s b) = 0 \<longrightarrow> b_data (bufs s b) = disk s (b_blockno (bufs s b)))
     \<and> (\<forall>b \<in> H. b < NBUF \<and> b_valid (bufs s b) \<and> b_refcnt (bufs s b) \<noteq> 0)"

definition slks_inv :: "nat \<Rightarrow> nat set \<Rightarrow> kstate \<Rightarrow> bool" where
  "slks_inv p H s \<longleftrightarrow> (\<forall>b < NBUF. if b \<in> H then sl_locked (slks s (Slk_buf b)) \<noteq> 0 \<and> sl_pid (slks s (Slk_buf b)) = p_pid (procs s p)
     else sl_locked (slks s (Slk_buf b)) = 0)"

definition binv :: "u32 \<Rightarrow> nat \<Rightarrow> nat set \<Rightarrow> kstate \<Rightarrow> bool" where
  "binv d p H s \<longleftrightarrow> quiet (lk s) \<and> c_proc (mycpu_of (lk s)) = Some p \<and> cache_inv d H s \<and> slks_inv p H s"

lemma cache_invD:
  assumes "cache_inv d H s"
  shows "\<exists>xs. linked (bufs s) xs \<and> set xs = {..<NBUF}"
    "b < NBUF \<Longrightarrow> c < NBUF \<Longrightarrow> b_dev (bufs s b) = d \<Longrightarrow> b_dev (bufs s c) = d \<Longrightarrow> b_blockno (bufs s b) = b_blockno (bufs s c) \<Longrightarrow> b = c"
    "b < NBUF \<Longrightarrow> b_dev (bufs s b) \<noteq> d \<Longrightarrow> b_refcnt (bufs s b) = 0 \<and> \<not> b_valid (bufs s b)"
    "b < NBUF \<Longrightarrow> b_valid (bufs s b) \<Longrightarrow> b_refcnt (bufs s b) = 0 \<Longrightarrow> b_data (bufs s b) = disk s (b_blockno (bufs s b))"
    "b \<in> H \<Longrightarrow> b < NBUF \<and> b_valid (bufs s b) \<and> b_refcnt (bufs s b) \<noteq> 0"
  using assms unfolding cache_inv_def by metis+

lemma slot_Some:
  assumes "cache_inv d H s"
  shows "slot d s bn = Some b \<longleftrightarrow> b < NBUF \<and> holds_block d bn (bufs s b)"
proof
  assume "slot d s bn = Some b"
  then show "b < NBUF \<and> holds_block d bn (bufs s b)" by (auto simp: slot_def find_Some_iff)
next
  assume b: "b < NBUF \<and> holds_block d bn (bufs s b)"
  then have "slot d s bn \<noteq> None" by (auto simp: slot_def find_None_iff)
  then obtain c where c: "slot d s bn = Some c" by blast
  then have "c < NBUF \<and> holds_block d bn (bufs s c)" by (auto simp: slot_def find_Some_iff)
  with b cache_invD(2) [OF assms, of b c] c show "slot d s bn = Some b" by (simp add: holds_block_def)
qed

lemma slot_None: "slot d s bn = None \<longleftrightarrow> (\<forall>b < NBUF. \<not> holds_block d bn (bufs s b))"
  by (auto simp: slot_def find_None_iff)

section \<open>bread\<close>

definition got :: "u32 \<Rightarrow> u32 \<Rightarrow> kstate \<Rightarrow> buf \<Rightarrow> buf" where
  "got d bn s x = x\<lparr>b_dev := d, b_blockno := bn, b_valid := True, b_refcnt := of_nat (rc d s bn) + 1, b_data := view d s bn\<rparr>"

definition with_buf :: "nat \<Rightarrow> nat \<Rightarrow> buf \<Rightarrow> kstate \<Rightarrow> kstate" where
  "with_buf p b x s = s\<lparr>bufs := (bufs s)(b := x),
     slks := (slks s)(Slk_buf b := (slks s (Slk_buf b))\<lparr>sl_locked := 1, sl_pid := p_pid (procs s p)\<rparr>)\<rparr>"

lemma length_linked: "distinct xs \<Longrightarrow> set xs = {..<NBUF} \<Longrightarrow> length xs = NBUF"
  by (metis card_lessThan distinct_card)

lemma find_unique:
  assumes "P b" "b \<in> set xs" "\<And>c. c \<in> set xs \<Longrightarrow> P c \<Longrightarrow> c = b"
  shows "List.find P xs = Some b"
proof (cases "List.find P xs")
  case None
  then show ?thesis using assms(1,2) by (simp add: find_None_iff)
next
  case (Some c)
  then have "c \<in> set xs" "P c" by (auto simp: find_Some_iff)
  then show ?thesis using Some assms(3) by simp
qed

lemma slks_bufs: "(s :: kstate)\<lparr>slks := l, bufs := f\<rparr> = s\<lparr>bufs := f, slks := l\<rparr>"
  by simp

lemma bread_eq:
  assumes "binv d p H s" "slot d s bn = Some b \<and> b \<notin> H \<or> slot d s bn = None \<and> (\<exists>c < NBUF. b_refcnt (bufs s c) = 0)"
  shows "\<exists>b < NBUF. b \<notin> H \<and> (slot d s bn = Some b \<or> slot d s bn = None \<and> b_refcnt (bufs s b) = 0)
    \<and> bread d bn s = (Ret b, with_buf p b (got d bn s (bufs s b)) s)"
proof -
  have q: "quiet (lk s)" "c_proc (mycpu_of (lk s)) = Some p" "cache_inv d H s" "slks_inv p H s" using assms(1) by (simp_all add: binv_def)
  obtain xs where xs: "linked (bufs s) xs" "set xs = {..<NBUF}" using cache_invD(1) [OF q(3)] by blast
  then have len: "length xs = NBUF" and l: "path (nx (bufs s)) BHEAD xs BHEAD" "path (pv (bufs s)) BHEAD (rev xs) BHEAD" "BHEAD \<notin> set xs"
    using length_linked by (auto simp: linked_def)
  let ?s = "s\<lparr>lk := lock1 L_bcache (lk s)\<rparr>"
  have c: "bget_cached (Suc NBUF) (b_next (bufs s BHEAD)) d bn ?s = (Ret (List.find (\<lambda>b. holds_block d bn (bufs s b)) xs), ?s)"
    using bget_cached_eq [of ?s BHEAD xs NBUF d bn] l(1,3) len by (simp add: nx_def holds_block_def)
  have u: "bget_unused (Suc NBUF) (b_prev (bufs s BHEAD)) ?s = (Ret (List.find (\<lambda>b. b_refcnt (bufs s b) = 0) (rev xs)), ?s)"
    using bget_unused_eq [of ?s BHEAD "rev xs" NBUF] l(2,3) len by (simp add: pv_def)
  show ?thesis
  proof (cases "slot d s bn")
    case (Some b')
    then have e: "b' = b" "b \<notin> H" using assms(2) by auto
    with Some slot_Some [OF q(3), of bn b] have b': "b' = b" "b \<notin> H" "b < NBUF" "holds_block d bn (bufs s b)" by simp_all
    have g: "got d bn s (bufs s b) = (if b_valid (bufs s b) then (bufs s b)\<lparr>b_refcnt := b_refcnt (bufs s b) + 1\<rparr>
        else (bufs s b)\<lparr>b_refcnt := b_refcnt (bufs s b) + 1, b_data := disk s bn, b_valid := True\<rparr>)"
      using b' Some by (cases "bufs s b") (simp add: got_def view_def rc_def holds_block_def)
    have "List.find (\<lambda>b. holds_block d bn (bufs s b)) xs = Some b"
      using b' xs(2) cache_invD(2) [OF q(3)] by (intro find_unique) (auto simp: holds_block_def)
    moreover have "sl_locked (slks s (Slk_buf b)) = 0" using q(4) b' by (simp add: slks_inv_def)
    ultimately have "bread d bn s = (Ret b, with_buf p b (got d bn s (bufs s b)) s)"
      using q(1,2) c b' unfolding with_buf_def g
      by (cases "b_valid (bufs s b)")
        (simp_all add: bread_def bget_def acquiresleep_eq disk_transfer_def holds_block_def slks_bufs del: bget_cached.simps)
    then show ?thesis using b' Some by auto
  next
    case None
    then have no: "List.find (\<lambda>b. holds_block d bn (bufs s b)) xs = None" using xs(2) by (simp add: slot_None find_None_iff)
    obtain b' where f: "List.find (\<lambda>b. b_refcnt (bufs s b) = 0) (rev xs) = Some b'"
      using assms(2) None xs(2) by (cases "List.find (\<lambda>b. b_refcnt (bufs s b) = 0) (rev xs)") (auto simp: find_None_iff)
    then have b': "b' < NBUF" "b_refcnt (bufs s b') = 0" using xs(2) by (auto simp: find_Some_iff) (metis length_rev lessThan_iff nth_mem set_rev)
    then have nH: "b' \<notin> H" using cache_invD(5) [OF q(3), of b'] by auto
    then have "sl_locked (slks s (Slk_buf b')) = 0" using q(4) b' by (simp add: slks_inv_def)
    moreover have g: "got d bn s (bufs s b') = (bufs s b')\<lparr>b_dev := d, b_blockno := bn, b_refcnt := 1, b_data := disk s bn, b_valid := True\<rparr>"
      using None by (cases "bufs s b'") (simp add: got_def view_def rc_def)
    ultimately have "bread d bn s = (Ret b', s\<lparr>slks := (slks s)(Slk_buf b' := (slks s (Slk_buf b'))\<lparr>sl_locked := 1, sl_pid := p_pid (procs s p)\<rparr>),
        bufs := (bufs s)(b' := got d bn s (bufs s b'))\<rparr>)"
      using q(1,2) c u no f by (simp add: bread_def bget_def acquiresleep_eq disk_transfer_def del: bget_cached.simps bget_unused.simps)
    then have "bread d bn s = (Ret b', with_buf p b' (got d bn s (bufs s b')) s)" by (simp only: with_buf_def slks_bufs)
    then show ?thesis using b' nH None by auto
  qed
qed

text \<open>Replacing one buffer.\<close>

lemma cache_inv_upd:
  assumes "cache_inv d H s" "b < NBUF" "b_next x = b_next (bufs s b)" "b_prev x = b_prev (bufs s b)" "b_dev x = d"
    and "\<And>c. c < NBUF \<Longrightarrow> c \<noteq> b \<Longrightarrow> \<not> holds_block d (b_blockno x) (bufs s c)"
    and "b_valid x \<Longrightarrow> b_refcnt x = 0 \<Longrightarrow> b_data x = disk t (b_blockno x)"
    and "H' \<subseteq> insert b H" "b \<in> H' \<Longrightarrow> b_valid x \<and> b_refcnt x \<noteq> 0"
    and t: "bufs t = (bufs s)(b := x)" "\<And>c. c < NBUF \<Longrightarrow> c \<noteq> b \<Longrightarrow> b_valid (bufs s c) \<Longrightarrow> disk t (b_blockno (bufs s c)) = disk s (b_blockno (bufs s c))"
  shows "cache_inv d H' t"
proof -
  have l: "linked (bufs t) xs = linked (bufs s) xs" for xs unfolding t by (rule linked_cong) (use assms(3,4) in auto)
  show ?thesis unfolding cache_inv_def l
  proof (intro conjI, goal_cases)
    case 1
    show ?case by (rule cache_invD(1) [OF assms(1)])
  next
    case 2
    show ?case using cache_invD(2) [OF assms(1)] assms(5,6) unfolding t holds_block_def by (metis fun_upd_apply)
  next
    case 3
    show ?case using cache_invD(3) [OF assms(1)] assms(5) unfolding t by (metis fun_upd_apply)
  next
    case 4
    show ?case using cache_invD(4) [OF assms(1)] assms(7) t(2) unfolding t(1) by (metis fun_upd_apply)
  next
    case 5
    show ?case using cache_invD(5) [OF assms(1)] assms(2,8,9) unfolding t(1) by (metis fun_upd_apply insertE subsetD)
  qed
qed

lemma slot_upd:
  assumes "cache_inv d H s" "cache_inv d H' t" "b < NBUF" "bufs t = (bufs s)(b := x)" "b_dev x = d"
  shows "slot d t bn = (if bn = b_blockno x then Some b else if slot d s bn = Some b then None else slot d s bn)"
proof (cases "slot d t bn")
  case None
  then have n: "\<not> holds_block d bn (bufs t c)" if "c < NBUF" for c using that by (simp add: slot_None)
  have "bn \<noteq> b_blockno x" using n [OF assms(3)] assms(4,5) by (simp add: holds_block_def)
  moreover have "slot d s bn = Some c \<Longrightarrow> c = b" for c
    using n [of c] slot_Some [OF assms(1), of bn c] assms(4) by (cases "c = b") auto
  ultimately show ?thesis using None by (cases "slot d s bn") auto
next
  case (Some c)
  then have c: "c < NBUF" "holds_block d bn (bufs t c)" using slot_Some [OF assms(2)] by simp_all
  show ?thesis
  proof (cases "c = b")
    case True
    then show ?thesis using c assms(4) Some by (simp add: holds_block_def)
  next
    case False
    then have "slot d s bn = Some c" using c assms(4) slot_Some [OF assms(1), of bn c] by simp
    moreover have "bn \<noteq> b_blockno x"
      using cache_invD(2) [OF assms(2) c(1) assms(3)] c(2) assms(4,5) False by (auto simp: holds_block_def)
    ultimately show ?thesis using Some False by simp
  qed
qed

text \<open>What the operations leave alone.\<close>

definition brest :: "kstate \<Rightarrow> kstate \<Rightarrow> bool" where
  "brest s t \<longleftrightarrow> lk t = lk s \<and> logs t = logs s \<and> sb t = sb s \<and> mem t = mem s \<and> (\<forall>q. p_pid (procs t q) = p_pid (procs s q))"

lemma brest_refl [simp]: "brest s s"
  by (simp add: brest_def)

lemma brest_trans: "brest s t \<Longrightarrow> brest t u \<Longrightarrow> brest s u"
  by (simp add: brest_def)

lemma with_buf_sel [simp]:
  "bufs (with_buf p b x s) = (bufs s)(b := x)" "disk (with_buf p b x s) = disk s" "lk (with_buf p b x s) = lk s"
  "logs (with_buf p b x s) = logs s" "procs (with_buf p b x s) = procs s" "sb (with_buf p b x s) = sb s" "mem (with_buf p b x s) = mem s"
  by (simp_all add: with_buf_def)

lemma slks_with_buf: "slks_inv p H s \<Longrightarrow> b < NBUF \<Longrightarrow> slks_inv p (insert b H) (with_buf p b x s)"
  by (auto simp: slks_inv_def with_buf_def)

text \<open>
  \<open>bread\<close>: the caller holds a buffer with the contents of the block; what anyone sees of any block is unchanged.
\<close>

lemma bread_law:
  assumes "binv d p H s" "\<And>c. c \<in> H \<Longrightarrow> b_blockno (bufs s c) \<noteq> bn" "rc d s bn + 1 < 2 ^ 32"
    and "rc d s bn = 0 \<Longrightarrow> \<exists>c < NBUF. b_refcnt (bufs s c) = 0"
  shows "\<exists>b t. bread d bn s = (Ret b, t) \<and> binv d p (insert b H) t \<and> b \<notin> H \<and> holds_block d bn (bufs t b)
    \<and> b_data (bufs t b) = view d s bn \<and> view d t = view d s \<and> rc d t = (rc d s)(bn := rc d s bn + 1) \<and> disk t = disk s
    \<and> (\<forall>c \<in> H. bufs t c = bufs s c) \<and> brest s t"
proof -
  have q: "quiet (lk s)" "c_proc (mycpu_of (lk s)) = Some p" "cache_inv d H s" "slks_inv p H s" using assms(1) by (simp_all add: binv_def)
  have "\<exists>b < NBUF. b \<notin> H \<and> (slot d s bn = Some b \<or> slot d s bn = None \<and> b_refcnt (bufs s b) = 0)
    \<and> bread d bn s = (Ret b, with_buf p b (got d bn s (bufs s b)) s)"
  proof (cases "slot d s bn")
    case None
    then show ?thesis using bread_eq [OF assms(1), of bn] assms(4) by (auto simp: rc_def)
  next
    case (Some c)
    then have "c \<notin> H" using slot_Some [OF q(3), of bn c] assms(2) [of c] by (auto simp: holds_block_def)
    then show ?thesis using bread_eq [OF assms(1), of bn c] Some by simp
  qed
  then obtain b where b: "b < NBUF" "b \<notin> H" "slot d s bn = Some b \<or> slot d s bn = None \<and> b_refcnt (bufs s b) = 0"
    and r: "bread d bn s = (Ret b, with_buf p b (got d bn s (bufs s b)) s)" by blast
  let ?x = "got d bn s (bufs s b)" and ?t = "with_buf p b (got d bn s (bufs s b)) s"
  have x: "b_dev ?x = d" "b_blockno ?x = bn" "b_valid ?x" "b_data ?x = view d s bn" "b_next ?x = b_next (bufs s b)" "b_prev ?x = b_prev (bufs s b)"
    "b_refcnt ?x = of_nat (rc d s bn + 1)" by (simp_all add: got_def)
  have rx: "unat (b_refcnt ?x) = rc d s bn + 1" using assms(3) by (simp only: x(7) unat_of_nat) simp
  then have nz: "b_refcnt ?x \<noteq> 0" by auto
  have only: "\<not> holds_block d bn (bufs s c)" if "c < NBUF" "c \<noteq> b" for c
    using b(3) that slot_Some [OF q(3), of bn c] by auto
  have ci: "cache_inv d (insert b H) ?t"
    by (rule cache_inv_upd [OF q(3) b(1) x(5,6,1)]) (use x only nz in auto)
  have sl: "slot d ?t n = (if n = bn then Some b else if slot d s n = Some b then None else slot d s n)" for n
    using slot_upd [OF q(3) ci b(1) with_buf_sel(1) x(1)] x(2) by simp
  have old: "b_refcnt (bufs s b) = 0 \<and> holds_block d n (bufs s b)" if "slot d s n = Some b" "n \<noteq> bn" for n
    using that slot_Some [OF q(3)] b(3) by (auto simp: holds_block_def)
  have v: "view d ?t n = view d s n" for n
  proof (cases "n = bn")
    case True
    then show ?thesis using x sl [of n] by (simp add: view_def)
  next
    case False
    then show ?thesis using sl [of n] old [of n] cache_invD(4) [OF q(3) b(1)]
      by (auto simp: view_def holds_block_def split: option.splits)
  qed
  have rc: "rc d ?t n = ((rc d s)(bn := rc d s bn + 1)) n" for n
    using sl [of n] old [of n] rx by (auto simp: rc_def split: option.splits)
  have "binv d p (insert b H) ?t" using q ci slks_with_buf [OF q(4) b(1)] by (simp add: binv_def)
  then show ?thesis using r b(2) x v rc by (intro exI [of _ b] exI [of _ ?t]) (auto simp: holds_block_def brest_def fun_eq_iff)
qed

section \<open>Changing, writing and releasing a held buffer\<close>

lemma binvD:
  assumes "binv d p H s" "b \<in> H"
  shows "quiet (lk s)" "c_proc (mycpu_of (lk s)) = Some p" "cache_inv d H s" "slks_inv p H s" "b < NBUF"
    "b_valid (bufs s b)" "b_refcnt (bufs s b) \<noteq> 0" "b_dev (bufs s b) = d"
    "slot d s (b_blockno (bufs s b)) = Some b" "holdingsleep (Slk_buf b) s = (Ret True, s)"
proof -
  show q: "quiet (lk s)" "c_proc (mycpu_of (lk s)) = Some p" "cache_inv d H s" "slks_inv p H s" using assms(1) by (simp_all add: binv_def)
  show b: "b < NBUF" "b_valid (bufs s b)" "b_refcnt (bufs s b) \<noteq> 0" using cache_invD(5) [OF q(3) assms(2)] by simp_all
  then show dv: "b_dev (bufs s b) = d" using cache_invD(3) [OF q(3)] by blast
  then show "slot d s (b_blockno (bufs s b)) = Some b" using slot_Some [OF q(3)] b(1) by (simp add: holds_block_def)
  show "holdingsleep (Slk_buf b) s = (Ret True, s)"
    using q(1,2,4) b(1) assms(2) by (simp add: holdingsleep_eq slks_inv_def)
qed

text \<open>Storing new contents in a held buffer.\<close>

definition with_data :: "nat \<Rightarrow> u8 list \<Rightarrow> kstate \<Rightarrow> kstate" where
  "with_data b v s = s\<lparr>bufs := (bufs s)(b := (bufs s b)\<lparr>b_data := v\<rparr>)\<rparr>"

lemma with_data_law:
  assumes "binv d p H s" "b \<in> H"
  defines "bn \<equiv> b_blockno (bufs s b)"
  shows "binv d p H (with_data b v s)" "view d (with_data b v s) = (view d s)(bn := v)" "rc d (with_data b v s) = rc d s"
    "disk (with_data b v s) = disk s" "brest s (with_data b v s)" "bufs (with_data b v s) c = (if c = b then (bufs s b)\<lparr>b_data := v\<rparr> else bufs s c)"
proof -
  let ?t = "with_data b v s"
  note D = binvD [OF assms(1,2)]
  have bt: "bufs ?t = (bufs s)(b := (bufs s b)\<lparr>b_data := v\<rparr>)" by (simp add: with_data_def)
  have sl: "slot d ?t n = slot d s n" for n unfolding slot_def by (rule arg_cong [where f = "\<lambda>P. List.find P _"]) (auto simp: bt holds_block_def)
  have "cache_inv d H ?t"
    by (rule cache_inv_upd [OF D(3,5), where x = "(bufs s b)\<lparr>b_data := v\<rparr>"]) (use D cache_invD(2) [OF D(3)] in \<open>auto simp: with_data_def holds_block_def\<close>)
  then show "binv d p H ?t" using D(1,2,4) by (simp add: binv_def slks_inv_def with_data_def)
  have o: "slot d s n = Some b \<longleftrightarrow> n = bn" for n using slot_Some [OF D(3)] D(5,8) by (auto simp: holds_block_def bn_def)
  show "view d ?t = (view d s)(bn := v)"
  proof
    fix n
    show "view d ?t n = ((view d s)(bn := v)) n" using sl [of n] o [of n] D(6) by (auto simp: view_def bt with_data_def split: option.splits)
  qed
  show "rc d ?t = rc d s" using sl by (auto simp: rc_def bt fun_eq_iff split: option.splits)
qed (simp_all add: with_data_def brest_def)

lemma bwrite_law:
  assumes "binv d p H s" "b \<in> H"
  defines "bn \<equiv> b_blockno (bufs s b)"
  shows "\<exists>t. bwrite b s = (Ret (), t) \<and> binv d p H t \<and> view d t = view d s \<and> rc d t = rc d s \<and> bufs t = bufs s
    \<and> disk t = (disk s)(bn := view d s bn) \<and> brest s t"
proof -
  let ?t = "s\<lparr>disk := (disk s)(bn := b_data (bufs s b))\<rparr>"
  note D = binvD [OF assms(1,2)]
  have w: "bwrite b s = (Ret (), ?t)" using D(1,10) by (simp add: bwrite_def disk_transfer_def bn_def)
  have v: "view d s bn = b_data (bufs s b)" using D(6,9) by (simp add: view_def bn_def)
  have sl: "slot d ?t n = slot d s n" for n by (simp add: slot_def)
  have ot: "b_blockno (bufs s c) \<noteq> bn" if "c < NBUF" "c \<noteq> b" "b_valid (bufs s c)" for c
    using cache_invD(2,3) [OF D(3)] D(5,8) that by (metis bn_def)
  have ci: "cache_inv d H ?t"
    by (rule cache_inv_upd [OF D(3,5), where x = "bufs s b"]) (use D ot cache_invD(2) [OF D(3)] in \<open>auto simp: holds_block_def bn_def\<close>)
  have "view d ?t = view d s"
  proof
    fix n
    show "view d ?t n = view d s n"
      using sl [of n] D(6,9) by (cases "n = bn") (auto simp: view_def bn_def split: option.splits)
  qed
  moreover have "rc d ?t = rc d s" by (auto simp: rc_def sl fun_eq_iff split: option.splits)
  moreover have "binv d p H ?t" using D(1,2,4) ci by (simp add: binv_def slks_inv_def)
  ultimately show ?thesis using w v by (simp add: brest_def)
qed

text \<open>Dropping a reference that is not the last.\<close>

lemma cache_inv_unref:
  assumes "cache_inv d H s" "b < NBUF" "b_valid (bufs s b)" "b_dev (bufs s b) = d" "2 \<le> unat (b_refcnt (bufs s b))"
    and t: "bufs t = (bufs s)(b := (bufs s b)\<lparr>b_refcnt := b_refcnt (bufs s b) - 1\<rparr>)" "disk t = disk s"
  shows "cache_inv d H t" "view d t = view d s" "rc d t = (rc d s)(b_blockno (bufs s b) := rc d s (b_blockno (bufs s b)) - 1)"
proof -
  have nz: "b_refcnt (bufs s b) \<noteq> 0" using assms(5) by auto
  have u: "unat (b_refcnt (bufs s b) - 1) = unat (b_refcnt (bufs s b)) - 1" using unat_minus_one [OF nz] .
  then have nz': "b_refcnt (bufs s b) - 1 \<noteq> 0" using assms(5) by (auto simp: word_unat_eq_iff)
  show "cache_inv d H t"
    by (rule cache_inv_upd [OF assms(1,2), where x = "(bufs s b)\<lparr>b_refcnt := b_refcnt (bufs s b) - 1\<rparr>"])
      (use assms nz' cache_invD(2) [OF assms(1)] in \<open>auto simp: holds_block_def\<close>)
  have sl: "slot d t n = slot d s n" for n unfolding slot_def by (rule arg_cong [where f = "\<lambda>P. List.find P _"]) (auto simp: t holds_block_def)
  show "view d t = view d s" using sl by (auto simp: view_def t fun_eq_iff split: option.splits)
  show "rc d t = (rc d s)(b_blockno (bufs s b) := rc d s (b_blockno (bufs s b)) - 1)"
  proof
    fix n
    have o: "slot d s n = Some b \<longleftrightarrow> n = b_blockno (bufs s b)" using slot_Some [OF assms(1)] assms(2,4) by (auto simp: holds_block_def)
    show "rc d t n = ((rc d s)(b_blockno (bufs s b) := rc d s (b_blockno (bufs s b)) - 1)) n"
      using sl [of n] o u by (auto simp: rc_def t split: option.splits)
  qed
qed

lemma bunpin_law:
  assumes "binv d p H s" "b \<in> H" "2 \<le> rc d s (b_blockno (bufs s b))"
  defines "bn \<equiv> b_blockno (bufs s b)"
  shows "\<exists>t. bunpin b s = (Ret (), t) \<and> binv d p H t \<and> view d t = view d s \<and> rc d t = (rc d s)(bn := rc d s bn - 1)
    \<and> disk t = disk s \<and> brest s t \<and> (\<forall>c. c \<noteq> b \<longrightarrow> bufs t c = bufs s c) \<and> bufs t b = (bufs s b)\<lparr>b_refcnt := b_refcnt (bufs s b) - 1\<rparr>"
proof -
  let ?t = "s\<lparr>bufs := (bufs s)(b := (bufs s b)\<lparr>b_refcnt := b_refcnt (bufs s b) - 1\<rparr>)\<rparr>"
  note D = binvD [OF assms(1,2)]
  have r: "2 \<le> unat (b_refcnt (bufs s b))" using assms(3) D(9) by (simp add: rc_def)
  have e: "bunpin b s = (Ret (), ?t)" using D(1) by (simp add: bunpin_def)
  note U = cache_inv_unref [OF D(3,5,6,8) r, of ?t]
  have "binv d p H ?t" using D(1,2,4) U(1) by (simp add: binv_def slks_inv_def)
  then show ?thesis using e U(2,3) by (simp add: brest_def bn_def)
qed

text \<open>The assignments of \<open>brelse\<close> for a buffer that nobody refers to any more.\<close>

definition set_next :: "nat \<Rightarrow> nat \<Rightarrow> (nat \<Rightarrow> buf) \<Rightarrow> nat \<Rightarrow> buf" where
  "set_next c v f = f(c := (f c)\<lparr>b_next := v\<rparr>)"

definition set_prev :: "nat \<Rightarrow> nat \<Rightarrow> (nat \<Rightarrow> buf) \<Rightarrow> nat \<Rightarrow> buf" where
  "set_prev c v f = f(c := (f c)\<lparr>b_prev := v\<rparr>)"

lemma set_link_fields [simp]:
  "b_valid (set_next b v f c) = b_valid (f c)" "b_dev (set_next b v f c) = b_dev (f c)" "b_blockno (set_next b v f c) = b_blockno (f c)"
  "b_refcnt (set_next b v f c) = b_refcnt (f c)" "b_data (set_next b v f c) = b_data (f c)"
  "b_valid (set_prev b v f c) = b_valid (f c)" "b_dev (set_prev b v f c) = b_dev (f c)" "b_blockno (set_prev b v f c) = b_blockno (f c)"
  "b_refcnt (set_prev b v f c) = b_refcnt (f c)" "b_data (set_prev b v f c) = b_data (f c)"
  by (simp_all add: set_next_def set_prev_def)

lemma set_link_links [simp]:
  "nx (set_next c v f) = (nx f)(c := v)" "pv (set_next c v f) = pv f" "nx (set_prev c v f) = nx f" "pv (set_prev c v f) = (pv f)(c := v)"
  by (auto simp: set_next_def set_prev_def nx_def pv_def)

definition unlink :: "nat \<Rightarrow> (nat \<Rightarrow> buf) \<Rightarrow> nat \<Rightarrow> buf" where
  "unlink b f = (let f1 = set_prev (nx f b) (pv f b) f in set_next (pv f1 b) (nx f1 b) f1)"

definition relink :: "nat \<Rightarrow> (nat \<Rightarrow> buf) \<Rightarrow> nat \<Rightarrow> buf" where
  "relink b f = (let f4 = set_prev b BHEAD (set_next b (nx f BHEAD) f) in set_next BHEAD b (set_prev (nx f4 BHEAD) b f4))"

definition moved :: "nat \<Rightarrow> (nat \<Rightarrow> buf) \<Rightarrow> nat \<Rightarrow> buf" where
  "moved b f = relink b (unlink b f)"

lemma moved_fields [simp]:
  "b_valid (moved b f c) = b_valid (f c)" "b_dev (moved b f c) = b_dev (f c)" "b_blockno (moved b f c) = b_blockno (f c)"
  "b_refcnt (moved b f c) = b_refcnt (f c)" "b_data (moved b f c) = b_data (f c)"
  by (simp_all add: moved_def relink_def unlink_def Let_def)

lemma moved_links:
  assumes "b \<noteq> BHEAD" "nx f b \<noteq> b" "pv f b \<noteq> b"
  shows "nx (moved b f) = next_front (nx f) (pv f) BHEAD b" "pv (moved b f) = prev_front (nx f) (pv f) BHEAD b"
  using assms by (simp_all add: next_front_def prev_front_def moved_def relink_def unlink_def Let_def)

lemma path_other: "path g a (us @ b # vs) z \<Longrightarrow> distinct (z # us @ b # vs) \<Longrightarrow> g b \<noteq> b"
  using path_hd [of g b vs z] by (cases vs) auto

lemma linked_moved:
  assumes "linked f (us @ b # vs)"
  shows "linked (moved b f) (b # us @ vs)"
proof -
  have l: "path (nx f) BHEAD (us @ b # vs) BHEAD" "path (pv f) BHEAD (rev (us @ b # vs)) BHEAD" "distinct (BHEAD # us @ b # vs)"
    using assms by (simp_all add: linked_def)
  have "b \<noteq> BHEAD" "nx f b \<noteq> b" using l(3) path_other [OF l(1)] by auto
  moreover have "pv f b \<noteq> b" using path_other [of "pv f" BHEAD "rev vs" b "rev us" BHEAD] l(2,3) by auto
  ultimately have "nx (moved b f) = next_front (nx f) (pv f) BHEAD b" "pv (moved b f) = prev_front (nx f) (pv f) BHEAD b"
    by (rule moved_links)+
  then show ?thesis using links_to_front [OF l] l(3) by (auto simp: linked_def)
qed

lemma slks_release:
  assumes "slks_inv p H s" "slks t = (slks s)(Slk_buf b := (slks s (Slk_buf b))\<lparr>sl_locked := 0, sl_pid := 0\<rparr>)"
    "\<And>q. p_pid (procs t q) = p_pid (procs s q)"
  shows "slks_inv p (H - {b}) t"
  using assms by (auto simp: slks_inv_def)

lemma move_code:
  "kthen (kmod (\<lambda>s. s\<lparr>bufs := (bufs s)(b_next (bufs s b) := (bufs s (b_next (bufs s b)))\<lparr>b_prev := b_prev (bufs s b)\<rparr>)\<rparr>)) (
   kthen (kmod (\<lambda>s. s\<lparr>bufs := (bufs s)(b_prev (bufs s b) := (bufs s (b_prev (bufs s b)))\<lparr>b_next := b_next (bufs s b)\<rparr>)\<rparr>)) (
   kbind (getbuf BHEAD b_next) (\<lambda>n.
   kthen (modbuf b (\<lambda>x. x\<lparr>b_next := n\<rparr>)) (
   kthen (modbuf b (\<lambda>x. x\<lparr>b_prev := BHEAD\<rparr>))
   (link_front b))))) s = (Ret (), s\<lparr>bufs := moved b (bufs s)\<rparr>)"
proof -
  define f0 where "f0 = bufs s"
  define f1 where "f1 = set_prev (nx f0 b) (pv f0 b) f0"
  define f2 where "f2 = set_next (pv f1 b) (nx f1 b) f1"
  define f3 where "f3 = set_next b (nx f2 BHEAD) f2"
  define f4 where "f4 = set_prev b BHEAD f3"
  define f5 where "f5 = set_prev (nx f4 BHEAD) b f4"
  have m: "moved b f0 = set_next BHEAD b f5"
    by (simp only: moved_def relink_def unlink_def Let_def f5_def f4_def f3_def f2_def f1_def)
  note sd = set_prev_def set_next_def nx_def pv_def
  have k1: "kthen (kmod (\<lambda>s. s\<lparr>bufs := (bufs s)(b_next (bufs s b) := (bufs s (b_next (bufs s b)))\<lparr>b_prev := b_prev (bufs s b)\<rparr>)\<rparr>)) k
      (s\<lparr>bufs := f0\<rparr>) = k (s\<lparr>bufs := f1\<rparr>)" for k :: "unit op" by (simp add: f1_def sd)
  have k2: "kthen (kmod (\<lambda>s. s\<lparr>bufs := (bufs s)(b_prev (bufs s b) := (bufs s (b_prev (bufs s b)))\<lparr>b_next := b_next (bufs s b)\<rparr>)\<rparr>)) k
      (s\<lparr>bufs := f1\<rparr>) = k (s\<lparr>bufs := f2\<rparr>)" for k :: "unit op" by (simp add: f2_def sd)
  have k3: "kbind (getbuf BHEAD b_next) k (s\<lparr>bufs := f2\<rparr>) = k (nx f2 BHEAD) (s\<lparr>bufs := f2\<rparr>)" for k :: "nat \<Rightarrow> unit op" by (simp add: nx_def)
  have k4: "kthen (modbuf b (\<lambda>x. x\<lparr>b_next := nx f2 BHEAD\<rparr>)) k (s\<lparr>bufs := f2\<rparr>) = k (s\<lparr>bufs := f3\<rparr>)" for k :: "unit op"
    by (simp add: f3_def set_next_def)
  have k5: "kthen (modbuf b (\<lambda>x. x\<lparr>b_prev := BHEAD\<rparr>)) k (s\<lparr>bufs := f3\<rparr>) = k (s\<lparr>bufs := f4\<rparr>)" for k :: "unit op"
    by (simp add: f4_def set_prev_def)
  have k6: "link_front b (s\<lparr>bufs := f4\<rparr>) = (Ret (), s\<lparr>bufs := moved b f0\<rparr>)"
    unfolding m f5_def by (simp add: link_front_def sd)
  have s: "s = s\<lparr>bufs := f0\<rparr>" by (simp add: f0_def)
  show ?thesis unfolding f0_def [symmetric] by (subst (1) s) (simp only: k1 k2 k3 k4 k5 k6)
qed

definition unheld :: "nat \<Rightarrow> kstate \<Rightarrow> kstate" where
  "unheld b s = wake_set {..<NPROC} (Some (Chan_slk (Slk_buf b)))
     (s\<lparr>slks := (slks s)(Slk_buf b := (slks s (Slk_buf b))\<lparr>sl_locked := 0, sl_pid := 0\<rparr>)\<rparr>)"

lemma woken_pid: "p_pid (woken now ch x) = p_pid x"
  by (simp add: woken_def)

lemma unheld_sel [simp]:
  "lk (unheld b s) = lk s" "bufs (unheld b s) = bufs s" "disk (unheld b s) = disk s" "logs (unheld b s) = logs s" "sb (unheld b s) = sb s"
  "mem (unheld b s) = mem s" "p_pid (procs (unheld b s) q) = p_pid (procs s q)"
  "slks (unheld b s) = (slks s)(Slk_buf b := (slks s (Slk_buf b))\<lparr>sl_locked := 0, sl_pid := 0\<rparr>)"
  by (simp_all add: unheld_def wake_set_def wake_procs_def woken_pid)

lemma brelse_eq:
  assumes "binv d p H s" "b \<in> H"
  defines "f \<equiv> (bufs s)(b := (bufs s b)\<lparr>b_refcnt := b_refcnt (bufs s b) - 1\<rparr>)"
  shows "brelse b s = (Ret (), (unheld b s)\<lparr>bufs := if b_refcnt (bufs s b) = 1 then moved b f else f\<rparr>)"
proof -
  note D = binvD [OF assms(1,2)]
  let ?u = "unheld b s"
  let ?v = "?u\<lparr>lk := lock1 L_bcache (lk s), bufs := f\<rparr>"
  have rs: "releasesleep (Slk_buf b) s = (Ret (), ?u)" using D(1) by (simp add: releasesleep_eq unheld_def)
  show ?thesis
  proof (cases "b_refcnt (bufs s b) = 1")
    case True
    then have z: "b_refcnt (f b) = 0" by (simp add: f_def)
    have e: "brelse b s = kthen (release L_bcache) (kret ()) (?v\<lparr>bufs := moved b f\<rparr>)"
      using D(1,10) rs z move_code [of b ?v]
      by (simp add: brelse_def kwhen_def f_def [symmetric] del: fun_upd_apply) 
    then show ?thesis using True D(1) by simp
  next
    case False
    then have "b_refcnt (f b) \<noteq> 0" by (simp add: f_def)
    then show ?thesis using False D(1,10) rs by (simp add: brelse_def kwhen_def f_def)
  qed
qed

lemma moved_same:
  assumes "cache_inv d H s" "b < NBUF" "bufs t = moved b (bufs s)" "disk t = disk s"
  shows "cache_inv d H t" "view d t = view d s" "rc d t = rc d s"
proof -
  obtain xs where xs: "linked (bufs s) xs" "set xs = {..<NBUF}" using cache_invD(1) [OF assms(1)] by blast
  then obtain us vs where "xs = us @ b # vs" using assms(2) by (metis lessThan_iff split_list)
  then have "linked (bufs t) (b # us @ vs) \<and> set (b # us @ vs) = {..<NBUF}"
    using linked_moved [of "bufs s" us b vs] xs assms(3) by auto
  then have "\<exists>xs. linked (bufs t) xs \<and> set xs = {..<NBUF}" by blast
  with assms(1) show "cache_inv d H t" unfolding cache_inv_def assms(3,4) by simp
  have sl: "slot d t n = slot d s n" for n by (simp add: slot_def holds_block_def assms(3))
  show "view d t = view d s" "rc d t = rc d s" by (auto simp: view_def rc_def sl assms(3,4) fun_eq_iff split: option.splits)
qed

text \<open>
  \<open>brelse\<close>: one reference less. The last reference to a buffer goes only if the disk has its contents.
\<close>

lemma brelse_law:
  assumes "binv d p H s" "b \<in> H"
  defines "bn \<equiv> b_blockno (bufs s b)"
  assumes "2 \<le> rc d s bn \<or> view d s bn = disk s bn"
  shows "\<exists>t. brelse b s = (Ret (), t) \<and> binv d p (H - {b}) t \<and> view d t = view d s \<and> rc d t = (rc d s)(bn := rc d s bn - 1)
    \<and> disk t = disk s \<and> brest s t \<and> (\<forall>c. b_blockno (bufs t c) = b_blockno (bufs s c) \<and> b_data (bufs t c) = b_data (bufs s c))"
proof -
  note D = binvD [OF assms(1,2)]
  let ?x = "(bufs s b)\<lparr>b_refcnt := b_refcnt (bufs s b) - 1\<rparr>"
  let ?f = "(bufs s)(b := ?x)" and ?m = "(unheld b s)\<lparr>bufs := (bufs s)(b := (bufs s b)\<lparr>b_refcnt := b_refcnt (bufs s b) - 1\<rparr>)\<rparr>"
  let ?t = "(unheld b s)\<lparr>bufs := if b_refcnt (bufs s b) = 1 then moved b ?f else ?f\<rparr>"
  have r: "rc d s bn = unat (b_refcnt (bufs s b))" using D(9) by (simp add: rc_def bn_def)
  have sl: "slot d ?m n = slot d s n" for n unfolding slot_def by (rule arg_cong [where f = "\<lambda>P. List.find P _"]) (auto simp: holds_block_def)
  have o: "slot d s n = Some b \<longleftrightarrow> n = bn" for n using slot_Some [OF D(3)] D(5,8) by (auto simp: holds_block_def bn_def)
  have c0: "cache_inv d (H - {b}) ?m"
  proof (rule cache_inv_upd [OF D(3,5), where x = ?x])
    assume "b_refcnt ?x = 0"
    then have "b_refcnt (bufs s b) = 1" by simp
    then have "\<not> 2 \<le> rc d s bn" unfolding r by simp
    then have "view d s bn = disk s bn" using assms(4) by blast
    then show "b_data ?x = disk ?m (b_blockno ?x)" using D(6,9) by (simp add: view_def bn_def)
  qed (use D cache_invD(2) [OF D(3)] in \<open>auto simp: holds_block_def\<close>)
  have v0: "view d ?m = view d s" using sl by (auto simp: view_def fun_eq_iff split: option.splits)
  have u: "unat (b_refcnt (bufs s b) - 1) = unat (b_refcnt (bufs s b)) - 1" using unat_minus_one [OF D(7)] .
  have rc0: "rc d ?m = (rc d s)(bn := rc d s bn - 1)"
  proof
    fix n
    show "rc d ?m n = ((rc d s)(bn := rc d s bn - 1)) n" using sl [of n] o [of n] u by (auto simp: rc_def split: option.splits)
  qed
  have "cache_inv d (H - {b}) ?t \<and> view d ?t = view d ?m \<and> rc d ?t = rc d ?m"
    using c0 moved_same [OF c0 D(5), of ?t] by (cases "b_refcnt (bufs s b) = 1") simp_all
  moreover have "slks_inv p (H - {b}) ?t" by (rule slks_release [OF D(4)]) simp_all
  moreover have "b_blockno (bufs ?t c) = b_blockno (bufs s c) \<and> b_data (bufs ?t c) = b_data (bufs s c)" for c by simp
  ultimately show ?thesis using brelse_eq [OF assms(1,2)] v0 rc0 D(1,2) by (intro exI [of _ ?t]) (simp add: binv_def brest_def)
qed

section \<open>The empty cache\<close>

lemma links_push:
  assumes "path n H xs H" "path p H (rev xs) H" "distinct (H # b # xs)"
  shows "path (n(b := n H, H := b)) H (b # xs) H" "path (p(b := H, n H := b)) H (rev (b # xs)) H"
proof -
  have "path (n(b := n H, H := b)) H (b # xs) H \<and> path (p(b := H, n H := b)) H (rev (b # xs)) H"
  proof (cases xs)
    case (Cons x ys)
    then have x: "n H = x" "path n x ys H" "path p H (rev ys) x" using assms(1,2) by simp_all
    have "path (n(b := n H, H := b)) x ys H" "path (p(b := H, n H := b)) H (rev ys) x"
      using x assms(3) Cons by (simp_all add: path_upd)
    then show ?thesis using x assms(3) Cons by simp
  qed (use assms in auto)
  then show "path (n(b := n H, H := b)) H (b # xs) H" "path (p(b := H, n H := b)) H (rev (b # xs)) H" by blast+
qed

text \<open>What \<open>binit\<close> has set up before the buffer \<open>k\<close>; nothing but links and locks has changed.\<close>

definition binit_upto :: "nat \<Rightarrow> kstate \<Rightarrow> kstate \<Rightarrow> bool" where
  "binit_upto k s t \<longleftrightarrow> linked (bufs t) (rev [0..<k]) \<and> quiet (lk t) \<and> c_proc (mycpu_of (lk t)) = c_proc (mycpu_of (lk s))
     \<and> (\<forall>b < k. sl_locked (slks t (Slk_buf b)) = 0) \<and> disk t = disk s
     \<and> (\<forall>b. b_valid (bufs t b) = b_valid (bufs s b) \<and> b_dev (bufs t b) = b_dev (bufs s b) \<and> b_refcnt (bufs t b) = b_refcnt (bufs s b)
          \<and> b_blockno (bufs t b) = b_blockno (bufs s b))"

lemma initlock_quiet:
  assumes "quiet (lk s)"
  obtains k where "initlock l nm s = (Ret (), s\<lparr>lk := k\<rparr>)" "quiet k" "c_proc (mycpu_of k) = c_proc (mycpu_of (lk s))"
  using assms by (auto simp: initlock_def modlock_def quiet_def cpu_ok_def lk_free_def mycpu_of_def)

lemma nx_upd: "nx (f(b := x)) = (nx f)(b := b_next x)" "pv (f(b := x)) = (pv f)(b := b_prev x)"
  by (simp_all add: nx_def pv_def fun_eq_iff)

lemma binit_step:
  assumes "binit_upto k s t" "k < NBUF"
  shows "\<exists>u. kbind (getbuf BHEAD b_next) (\<lambda>n. kthen (modbuf k (\<lambda>x. x\<lparr>b_next := n\<rparr>)) (kthen (modbuf k (\<lambda>x. x\<lparr>b_prev := BHEAD\<rparr>)) (
       kthen (initsleeplock (Slk_buf k) ''buffer'') (link_front k)))) t = (Ret (), u) \<and> binit_upto (Suc k) s u"
proof -
  let ?f = "bufs t" and ?x = "(bufs t k)\<lparr>b_next := nx (bufs t) BHEAD, b_prev := BHEAD\<rparr>"
  define f1 where "f1 = (bufs t)(k := ?x)"
  define f2 where "f2 = f1(nx (bufs t) BHEAD := (f1 (nx (bufs t) BHEAD))\<lparr>b_prev := k\<rparr>)"
  define f3 where "f3 = f2(BHEAD := (f2 BHEAD)\<lparr>b_next := k\<rparr>)"
  have k: "k \<noteq> BHEAD" using assms(2) by simp
  note I = assms(1) [unfolded binit_upto_def]
  have n3: "nx f3 = (nx ?f)(k := nx ?f BHEAD, BHEAD := k)" using k by (auto simp: f3_def f2_def f1_def nx_def fun_eq_iff)
  have p3: "pv f3 = (pv ?f)(k := BHEAD, nx ?f BHEAD := k)" using k by (auto simp: f3_def f2_def f1_def nx_def pv_def fun_eq_iff)
  have "distinct (BHEAD # k # rev [0..<k])" using k I by (auto simp: linked_def)
  then have "linked f3 (rev [0..<Suc k])"
    using links_push [of "nx ?f" BHEAD "rev [0..<k]" "pv ?f" k] I by (simp add: linked_def n3 p3)
  moreover obtain lk' where l: "initlock (L_slk (Slk_buf k)) ''sleep lock'' (t\<lparr>bufs := f1\<rparr>) = (Ret (), t\<lparr>bufs := f1, lk := lk'\<rparr>)"
      "quiet lk'" "c_proc (mycpu_of lk') = c_proc (mycpu_of (lk t))"
    using initlock_quiet [of "t\<lparr>bufs := f1\<rparr>"] I by auto
  moreover have "b_valid (f3 b) = b_valid (?f b) \<and> b_dev (f3 b) = b_dev (?f b) \<and> b_refcnt (f3 b) = b_refcnt (?f b) \<and> b_blockno (f3 b) = b_blockno (?f b)" for b
    by (simp add: f3_def f2_def f1_def)
  moreover have "link_front k w = (Ret (), w\<lparr>bufs := f3\<rparr>)" if "bufs w = f1" for w
    using that k by (simp add: link_front_def f3_def f2_def f1_def nx_def)
  ultimately show ?thesis using I k
    by (simp add: nx_def [symmetric] initsleeplock_def f1_def [symmetric]) (simp add: binit_upto_def less_Suc_eq)
qed

text \<open>
  After \<open>binit\<close>, on buffers that are all zero, the cache holds no block of the device and everyone sees the disk.
\<close>

lemma binit_law:
  assumes "quiet (lk s)" "c_proc (mycpu_of (lk s)) = Some p" "\<And>b. b < NBUF \<Longrightarrow> b_refcnt (bufs s b) = 0 \<and> \<not> b_valid (bufs s b) \<and> b_dev (bufs s b) \<noteq> d"
  shows "\<exists>t. binit s = (Ret (), t) \<and> binv d p {} t \<and> (\<forall>b. rc d t b = 0) \<and> view d t = disk s \<and> disk t = disk s"
proof -
  obtain k where k: "initlock L_bcache ''bcache'' s = (Ret (), s\<lparr>lk := k\<rparr>)" "quiet k" "c_proc (mycpu_of k) = c_proc (mycpu_of (lk s))"
    using initlock_quiet [OF assms(1)] by blast
  define z where "z = s\<lparr>lk := k, bufs := (bufs s)(BHEAD := (bufs s BHEAD)\<lparr>b_prev := BHEAD, b_next := BHEAD\<rparr>)\<rparr>"
  define f where "f = (\<lambda>b. kbind (getbuf BHEAD b_next) (\<lambda>n. kthen (modbuf b (\<lambda>x. x\<lparr>b_next := n\<rparr>)) (kthen (modbuf b (\<lambda>x. x\<lparr>b_prev := BHEAD\<rparr>)) (
       kthen (initsleeplock (Slk_buf b) ''buffer'') (link_front b)))))"
  have "\<exists>t. kfor [0..<j] f z = (Ret (), t) \<and> binit_upto j s t" if "j \<le> NBUF" for j
    using that
  proof (induction j)
    case 0
    show ?case using k by (simp add: z_def binit_upto_def linked_def nx_def pv_def)
  next
    case (Suc j)
    then obtain t where t: "kfor [0..<j] f z = (Ret (), t)" "binit_upto j s t" by auto
    obtain u where "f j t = (Ret (), u)" "binit_upto (Suc j) s u" using binit_step [OF t(2)] Suc.prems by (auto simp: f_def)
    then show ?case by (intro exI [of _ u] conjI) (simp only: kfor_upt_Suc [OF t(1)])
  qed
  then obtain t where t: "kfor [0..<NBUF] f z = (Ret (), t)" and I: "binit_upto NBUF s t" by blast
  have B: "linked (bufs t) (rev [0..<NBUF])" "quiet (lk t)" "c_proc (mycpu_of (lk t)) = Some p" "slks_inv p {} t" "disk t = disk s"
    using I assms(2) by (simp_all add: binit_upto_def slks_inv_def)
  have N: "b_refcnt (bufs t b) = 0" "\<not> b_valid (bufs t b)" "b_dev (bufs t b) \<noteq> d" if "b < NBUF" for b
    using I assms(3) [OF that] by (simp_all add: binit_upto_def)
  have "\<exists>xs. linked (bufs t) xs \<and> set xs = {..<NBUF}" by (rule exI [of _ "rev [0..<NBUF]"]) (use B(1) in auto)
  then have "cache_inv d {} t" using N by (simp add: cache_inv_def)
  moreover have "slot d t b = None" for b using N(3) by (auto simp: slot_def holds_block_def find_None_iff)
  moreover have "binit s = (Ret (), t)" using t k(1) by (simp add: binit_def f_def z_def)
  ultimately show ?thesis using B(2-5) by (intro exI [of _ t]) (simp add: binv_def rc_def view_def fun_eq_iff)
qed

end
