(* ===== verification/Xv6_LogProps.thy ===== *)
theory Xv6_LogProps
  imports Xv6_Log Xv6_BioProps
begin

text \<open>
  The write-ahead log of \<^verbatim>\<open>kernel/log.c\<close>: what the parts of \<open>commit\<close> and of the recovery do to the disk, and
  that a crash at any point leaves all or nothing of a transaction.
\<close>

section \<open>Integers in a block\<close>

lemma length_put32 [simp]: "off + 4 \<le> length bs \<Longrightarrow> length (put32 bs off v) = length bs"
  by (simp add: put32_def)

lemma get32_put32_same: "off + 4 \<le> length bs \<Longrightarrow> get32 (put32 bs off v) off = v"
  by (simp add: get32_def put32_def le_word_le_bytes)

lemma get32_put32_other:
  assumes "off + 4 \<le> length bs" "off' + 4 \<le> off \<or> off + 4 \<le> off'"
  shows "get32 (put32 bs off v) off' = get32 bs off'"
  using assms(2)
proof
  assume "off' + 4 \<le> off"
  then have "take 4 (drop off' (put32 bs off v)) = take 4 (drop off' bs)"
    using assms(1) by (auto simp: put32_def drop_take min_def)
  then show ?thesis by (simp add: get32_def)
next
  assume "off + 4 \<le> off'"
  then have "drop off' (put32 bs off v) = drop off' bs"
    using assms(1) by (simp add: put32_def)
  then show ?thesis by (simp add: get32_def)
qed

section \<open>One block after the other\<close>

text \<open>There is an unused buffer as long as fewer blocks than there are buffers are referred to.\<close>

lemma unused_exists:
  assumes "cache_inv d H s" "card {bn. rc d s bn \<noteq> 0} < NBUF"
  shows "\<exists>c < NBUF. b_refcnt (bufs s c) = 0"
proof (rule ccontr)
  assume "\<not> ?thesis"
  then have u: "b_refcnt (bufs s c) \<noteq> 0" "b_dev (bufs s c) = d" if "c < NBUF" for c
    using that cache_invD(3) [OF assms(1), of c] by blast+
  have inj: "inj_on (\<lambda>c. b_blockno (bufs s c)) {..<NBUF}"
    using cache_invD(2) [OF assms(1)] u(2) by (auto simp: inj_on_def)
  have sub: "(\<lambda>c. b_blockno (bufs s c)) ` {..<NBUF} \<subseteq> {bn. rc d s bn \<noteq> 0}"
  proof clarsimp
    fix c assume "c < NBUF"
    then have "slot d s (b_blockno (bufs s c)) = Some c" using slot_Some [OF assms(1)] u(2) by (simp add: holds_block_def)
    then show "0 < rc d s (b_blockno (bufs s c))" using u(1) [OF \<open>c < NBUF\<close>] by (simp add: rc_def unat_gt_0)
  qed
  have "{bn. rc d s bn \<noteq> 0} \<subseteq> (\<lambda>c. b_blockno (bufs s c)) ` {..<NBUF}"
    using slot_Some [OF assms(1)] by (auto simp: rc_def holds_block_def split: option.splits)
  then have "finite {bn. rc d s bn \<noteq> 0}" by (rule finite_subset) simp
  from card_mono [OF this sub] card_image [OF inj] assms(2) show False by simp
qed

lemma kmod_with_data: "kmod (\<lambda>s. s\<lparr>bufs := (bufs s)(b := (bufs s b)\<lparr>b_data := v\<rparr>)\<rparr>) s = (Ret (), with_data b v s)"
  by (simp add: with_data_def)

lemma card_used_upd:
  assumes "cache_inv d H s" "rc d t = (rc d s)(bn := n)"
  shows "card {b. rc d t b \<noteq> 0} \<le> card {b. rc d s b \<noteq> 0} + 1"
proof -
  have "{bn. rc d s bn \<noteq> 0} \<subseteq> (\<lambda>c. b_blockno (bufs s c)) ` {..<NBUF}"
    using slot_Some [OF assms(1)] by (auto simp: rc_def holds_block_def split: option.splits)
  then have "finite {b. rc d s b \<noteq> 0}" by (rule finite_subset) simp
  moreover have "{b. rc d t b \<noteq> 0} \<subseteq> insert bn {b. rc d s b \<noteq> 0}" using assms(2) by auto
  ultimately have "card {b. rc d t b \<noteq> 0} \<le> card (insert bn {b. rc d s b \<noteq> 0})" by (intro card_mono) auto
  then show ?thesis using card_insert_le_m1 [of "card {b. rc d s b \<noteq> 0} + 1" "{b. rc d s b \<noteq> 0}" bn] by simp
qed

text \<open>Two blocks at once, the first of which nobody refers to.\<close>

lemma bread_two:
  assumes "binv d p {} s" "card {bn. rc d s bn \<noteq> 0} + (if rc d s y = 0 then 1 else 0) < NBUF" "x \<noteq> y" "rc d s x = 0" "rc d s y < 2 ^ 31"
  shows "\<exists>a s' b t. bread d x s = (Ret a, s') \<and> bread d y s' = (Ret b, t) \<and> binv d p {b, a} t \<and> b \<noteq> a
    \<and> holds_block d x (bufs t a) \<and> holds_block d y (bufs t b) \<and> b_data (bufs t a) = view d s x \<and> b_data (bufs t b) = view d s y
    \<and> view d t = view d s \<and> rc d t = (rc d s)(x := 1, y := rc d s y + 1) \<and> disk t = disk s \<and> logs s' = logs s \<and> brest s t"
proof -
  have ci: "cache_inv d {} s" using assms(1) by (simp add: binv_def)
  obtain a s' where r1: "bread d x s = (Ret a, s')" "binv d p {a} s'" "holds_block d x (bufs s' a)" "b_data (bufs s' a) = view d s x"
      "view d s' = view d s" "rc d s' = (rc d s)(x := 1)" "disk s' = disk s" "brest s s'"
    using bread_law [OF assms(1), of x] unused_exists [OF ci] assms(2,4) by auto
  have ci1: "cache_inv d {a} s'" using r1(2) by (simp add: binv_def)
  have un: "\<exists>c < NBUF. b_refcnt (bufs s' c) = 0" if "rc d s y = 0"
    using that assms(2) card_used_upd [OF ci r1(6)] by (intro unused_exists [OF ci1]) simp
  obtain b t where r2: "bread d y s' = (Ret b, t)" "binv d p {b, a} t" "b \<noteq> a" "holds_block d y (bufs t b)" "b_data (bufs t b) = view d s y"
      "view d t = view d s" "rc d t = (rc d s')(y := rc d s y + 1)" "disk t = disk s" "bufs t a = bufs s' a" "brest s' t"
    using bread_law [OF r1(2), of y] r1 un assms(3,5) by (auto simp: holds_block_def)
  show ?thesis using r1 r2 brest_trans [OF r1(8) r2(10)] by (auto simp: brest_def)
qed

lemma write_log_one_law:
  assumes "binv d p {} s" "log_dev (logs s) = d" "card {bn. rc d s bn \<noteq> 0} < NBUF"
    and no: "log_blockno i (logs s) = lno" "lh_block (log_lh (logs s)) i = dno"
    and "lno \<noteq> dno" "rc d s lno = 0" "1 \<le> rc d s dno" "rc d s dno < 2 ^ 31"
  shows "\<exists>t. write_log_one i s = (Ret (), t) \<and> binv d p {} t \<and> view d t = (view d s)(lno := view d s dno)
    \<and> disk t = (disk s)(lno := view d s dno) \<and> rc d t = rc d s \<and> brest s t"
proof -
  let ?v = "view d s dno"
  obtain a s1 b s2 where r1: "bread d lno s = (Ret a, s1)" "logs s1 = logs s"
    and r2: "bread d dno s1 = (Ret b, s2)" "binv d p {b, a} s2" "b \<noteq> a" "holds_block d lno (bufs s2 a)" "holds_block d dno (bufs s2 b)"
      "b_data (bufs s2 b) = ?v" "view d s2 = view d s" "rc d s2 = (rc d s)(lno := 1, dno := rc d s dno + 1)" "disk s2 = disk s" "brest s s2"
    using bread_two [OF assms(1), of dno lno] assms(3,6-9) by auto
  have l2: "logs s2 = logs s" using r2(10) by (simp add: brest_def)
  note w = with_data_law [OF r2(2), of a ?v]
  have bn: "b_blockno (bufs (with_data a ?v s2) a) = lno" using r2(4) w(6) by (simp add: holds_block_def)
  obtain s4 where r4: "bwrite a (with_data a ?v s2) = (Ret (), s4)" "binv d p {b, a} s4" "view d s4 = (view d s)(lno := ?v)"
      "rc d s4 = rc d s2" "bufs s4 = bufs (with_data a ?v s2)" "disk s4 = (disk s)(lno := ?v)" "brest (with_data a ?v s2) s4"
    using bwrite_law [OF w(1), of a] w r2 bn by (auto simp: holds_block_def)
  obtain s5 where r5: "brelse b s4 = (Ret (), s5)" "binv d p ({b, a} - {b}) s5" "view d s5 = view d s4" "rc d s5 = (rc d s4)(dno := rc d s4 dno - 1)"
      "disk s5 = disk s4" "brest s4 s5" "b_blockno (bufs s5 a) = lno"
    using brelse_law [OF r4(2), of b] r4(4,5) r2(3,5,8) w(6) bn assms(8) by (auto simp: holds_block_def)
  have H: "{b, a} - {b} = {a}" using r2(3) by auto
  obtain s6 where r6: "brelse a s5 = (Ret (), s6)" "binv d p {} s6" "view d s6 = view d s5" "rc d s6 = (rc d s5)(lno := rc d s5 lno - 1)"
      "disk s6 = disk s5" "brest s5 s6"
    using brelse_law [OF r5(2) [unfolded H], of a] r5(3,5,7) r4(3,6) by auto
  have "write_log_one i s = (Ret (), s6)"
    using r1 r2(1,6) r4(1) r5(1) r6(1) l2 assms(2)
    by (simp add: write_log_one_def no kthen_Ret [OF kmod_with_data] del: kthen_kmod)
  moreover have "rc d s6 = rc d s" using r6(4) r5(4) r4(4) r2(8) assms(6,7) by (auto simp: fun_eq_iff)
  moreover have "brest s s6" using r2(10) w(5) r4(7) r5(6) r6(6) by (simp add: brest_def)
  ultimately show ?thesis using r6 r5 r4 by auto
qed

lemma install_one_law:
  assumes "binv d p {} s" "log_dev (logs s) = d" "card {bn. rc d s bn \<noteq> 0} + (if recovering then 1 else 0) < NBUF"
    and no: "log_blockno i (logs s) = lno" "lh_block (log_lh (logs s)) i = dno"
    and "lno \<noteq> dno" "rc d s lno = 0" "recovering \<or> 1 \<le> rc d s dno" "rc d s dno < 2 ^ 31" "view d s lno = disk s lno"
  shows "\<exists>t. install_one recovering i s = (Ret (), t) \<and> binv d p {} t \<and> view d t = (view d s)(dno := view d s lno)
    \<and> disk t = (disk s)(dno := view d s lno) \<and> rc d t = (rc d s)(dno := rc d s dno - (if recovering then 0 else 1)) \<and> brest s t"
proof -
  let ?v = "view d s lno"
  define g :: nat where "g = (if recovering then 0 else 1)"
  have cd: "card {bn. rc d s bn \<noteq> 0} + (if rc d s dno = 0 then 1 else 0) < NBUF" using assms(3,8) by (auto split: if_splits)
  obtain a s1 b s2 where r1: "bread d lno s = (Ret a, s1)" "logs s1 = logs s"
    and r2: "bread d dno s1 = (Ret b, s2)" "binv d p {b, a} s2" "b \<noteq> a" "holds_block d lno (bufs s2 a)" "holds_block d dno (bufs s2 b)"
      "b_data (bufs s2 a) = ?v" "view d s2 = view d s" "rc d s2 = (rc d s)(lno := 1, dno := rc d s dno + 1)" "disk s2 = disk s" "brest s s2"
    using bread_two [OF assms(1) cd assms(6,7,9)] by auto
  have l2: "logs s2 = logs s" using r2(10) by (simp add: brest_def)
  note w = with_data_law [OF r2(2), of b ?v]
  have bn: "b_blockno (bufs (with_data b ?v s2) b) = dno" "b_blockno (bufs (with_data b ?v s2) a) = lno"
    using r2(3,4,5) w(6) by (simp_all add: holds_block_def)
  obtain s4 where r4: "bwrite b (with_data b ?v s2) = (Ret (), s4)" "binv d p {b, a} s4" "view d s4 = (view d s)(dno := ?v)"
      "rc d s4 = rc d s2" "bufs s4 = bufs (with_data b ?v s2)" "disk s4 = (disk s)(dno := ?v)" "brest (with_data b ?v s2) s4"
    using bwrite_law [OF w(1), of b] w r2 bn by (auto simp: holds_block_def)
  obtain s5 where r5: "kwhen (\<not> recovering) (bunpin b) s4 = (Ret (), s5)" "binv d p {b, a} s5" "view d s5 = view d s4"
      "rc d s5 = (rc d s4)(dno := rc d s dno + 1 - g)" "disk s5 = disk s4" "brest s4 s5" "b_blockno (bufs s5 a) = lno" "b_blockno (bufs s5 b) = dno"
    using bunpin_law [OF r4(2), of b] r4(2,4,5) r2(3,8) bn assms(8) by (cases recovering) (auto simp: g_def kwhen_def)
  obtain s6 where r6: "brelse a s5 = (Ret (), s6)" "binv d p ({b, a} - {a}) s6" "view d s6 = view d s5" "rc d s6 = (rc d s5)(lno := rc d s5 lno - 1)"
      "disk s6 = disk s5" "brest s5 s6" "b_blockno (bufs s6 b) = dno"
    using brelse_law [OF r5(2), of a] r5(3,5,7,8) r4(3,6) assms(6,10) by auto
  have H: "{b, a} - {a} = {b}" using r2(3) by auto
  obtain s7 where r7: "brelse b s6 = (Ret (), s7)" "binv d p {} s7" "view d s7 = view d s6" "rc d s7 = (rc d s6)(dno := rc d s6 dno - 1)"
      "disk s7 = disk s6" "brest s6 s7"
    using brelse_law [OF r6(2) [unfolded H], of b] r6(3,5,7) r5(3,5) r4(3,6) by auto
  have "install_one recovering i s = (Ret (), s7)"
    using r1 r2(1,6) r4(1) r5(1) r6(1) r7(1) l2 assms(2)
    by (simp add: install_one_def no kthen_Ret [OF kmod_with_data] del: kthen_kmod)
  moreover have "rc d s7 = (rc d s)(dno := rc d s dno - g)"
    using r7(4) r6(4) r5(4) r4(4) r2(8) assms(6,7,8) by (auto simp: fun_eq_iff g_def)
  moreover have "brest s s7" using r2(10) w(5) r4(7) r5(6) r6(6) r7(6) by (simp add: brest_def)
  ultimately show ?thesis using r7 r6 r5 r4 by (auto simp: g_def)
qed

section \<open>The loops\<close>

text \<open>A function changed at \<open>N 0, ..., N (k - 1)\<close>.\<close>

primrec puts :: "nat \<Rightarrow> (nat \<Rightarrow> 'a) \<Rightarrow> (nat \<Rightarrow> 'b) \<Rightarrow> ('a \<Rightarrow> 'b) \<Rightarrow> 'a \<Rightarrow> 'b" where
  "puts 0 N f g = g"
| "puts (Suc k) N f g = (puts k N f g)(N k := f k)"

lemma puts_other: "(\<And>i. i < k \<Longrightarrow> b \<noteq> N i) \<Longrightarrow> puts k N f g b = g b"
  by (induction k) auto

lemma puts_at: "inj_on N {..<k} \<Longrightarrow> i < k \<Longrightarrow> puts k N f g (N i) = f i"
proof (induction k)
  case (Suc k)
  then have "inj_on N {..<k}" by (auto simp: inj_on_def)
  moreover have "i = k \<or> i < k \<and> N i \<noteq> N k" using Suc.prems by (auto simp: inj_on_def less_Suc_eq)
  ultimately show ?case using Suc.IH by auto
qed simp

abbreviation log_at :: "kstate \<Rightarrow> nat \<Rightarrow> u32" where
  "log_at s i \<equiv> log_blockno i (logs s)"

abbreviation home_at :: "kstate \<Rightarrow> nat \<Rightarrow> u32" where
  "home_at s i \<equiv> lh_block (log_lh (logs s)) i"

text \<open>The \<open>n\<close> log blocks behind the header, and \<open>n\<close> different blocks outside the log.\<close>

definition log_layout :: "kstate \<Rightarrow> nat \<Rightarrow> bool" where
  "log_layout s n \<longleftrightarrow> inj_on (log_at s) {..<n} \<and> inj_on (home_at s) {..<n}
     \<and> (\<forall>i < n. log_at s i \<noteq> log_start (logs s) \<and> home_at s i \<noteq> log_start (logs s) \<and> (\<forall>j < n. home_at s i \<noteq> log_at s j))"

lemma log_layoutD:
  assumes "log_layout s n"
  shows "inj_on (log_at s) {..<n}" "inj_on (home_at s) {..<n}" "i < n \<Longrightarrow> log_at s i \<noteq> log_start (logs s)"
    "i < n \<Longrightarrow> home_at s i \<noteq> log_start (logs s)" "i < n \<Longrightarrow> j < n \<Longrightarrow> home_at s i \<noteq> log_at s j"
  using assms by (simp_all add: log_layout_def)

lemma puts_home_start: "log_layout s n \<Longrightarrow> j \<le> n \<Longrightarrow> puts j (home_at s) f g (log_start (logs s)) = g (log_start (logs s))"
  by (rule puts_other, rule not_sym) (simp add: log_layoutD(4))

lemma write_log_loop:
  assumes "binv d p {} s" "log_dev (logs s) = d" "card {bn. rc d s bn \<noteq> 0} < NBUF" "log_layout s n" "k \<le> n"
    and "\<And>i. i < n \<Longrightarrow> rc d s (log_at s i) = 0 \<and> 1 \<le> rc d s (home_at s i) \<and> rc d s (home_at s i) < 2 ^ 31"
  shows "\<exists>t. kfor [0..<k] write_log_one s = (Ret (), t) \<and> binv d p {} t \<and> view d t = puts k (log_at s) (\<lambda>i. view d s (home_at s i)) (view d s)
    \<and> disk t = puts k (log_at s) (\<lambda>i. view d s (home_at s i)) (disk s) \<and> rc d t = rc d s \<and> brest s t"
  using assms(5)
proof (induction k)
  case 0
  then show ?case using assms(1) by simp
next
  case (Suc k)
  then obtain t where t: "kfor [0..<k] write_log_one s = (Ret (), t)" "binv d p {} t" "view d t = puts k (log_at s) (\<lambda>i. view d s (home_at s i)) (view d s)"
    "disk t = puts k (log_at s) (\<lambda>i. view d s (home_at s i)) (disk s)" "rc d t = rc d s" "brest s t" by auto
  have l: "logs t = logs s" using t(6) by (simp add: brest_def)
  have k: "k < n" using Suc.prems by simp
  note L = log_layoutD [OF assms(4)]
  have v: "view d t (home_at s k) = view d s (home_at s k)" unfolding t(3) using L(5) k by (intro puts_other) auto
  obtain u where u: "write_log_one k t = (Ret (), u)" "binv d p {} u" "view d u = (view d t)(log_at s k := view d t (home_at s k))"
    "disk u = (disk t)(log_at s k := view d t (home_at s k))" "rc d u = rc d t" "brest t u"
    using write_log_one_law [OF t(2), of k "log_at s k" "home_at s k"] assms(2,3) assms(6) [OF k] not_sym [OF L(5) [OF k k]] t(5) l by auto
  show ?case using kfor_upt_Suc [OF t(1)] u t v brest_trans [OF t(6) u(6)] by auto
qed

lemma finite_used: "cache_inv d H s \<Longrightarrow> finite {bn. rc d s bn \<noteq> 0}"
  by (rule finite_subset [of _ "(\<lambda>c. b_blockno (bufs s c)) ` {..<NBUF}"])
    (auto simp: rc_def holds_block_def slot_Some split: option.splits)

lemma install_loop:
  assumes "binv d p {} s" "log_dev (logs s) = d" "card {bn. rc d s bn \<noteq> 0} + (if recovering then 1 else 0) < NBUF" "log_layout s n" "k \<le> n"
    and "\<And>i. i < n \<Longrightarrow> rc d s (log_at s i) = 0 \<and> view d s (log_at s i) = disk s (log_at s i)"
    and "\<And>i. i < n \<Longrightarrow> (recovering \<or> 1 \<le> rc d s (home_at s i)) \<and> rc d s (home_at s i) < 2 ^ 31"
  shows "\<exists>t. kfor [0..<k] (install_one recovering) s = (Ret (), t) \<and> binv d p {} t
    \<and> view d t = puts k (home_at s) (\<lambda>i. view d s (log_at s i)) (view d s)
    \<and> disk t = puts k (home_at s) (\<lambda>i. view d s (log_at s i)) (disk s)
    \<and> rc d t = puts k (home_at s) (\<lambda>i. rc d s (home_at s i) - (if recovering then 0 else 1)) (rc d s) \<and> brest s t"
  using assms(5)
proof (induction k)
  case 0
  then show ?case using assms(1) by simp
next
  case (Suc k)
  let ?r = "\<lambda>i. rc d s (home_at s i) - (if recovering then 0 else 1)"
  from Suc obtain t where t: "kfor [0..<k] (install_one recovering) s = (Ret (), t)" "binv d p {} t"
    "view d t = puts k (home_at s) (\<lambda>i. view d s (log_at s i)) (view d s)" "disk t = puts k (home_at s) (\<lambda>i. view d s (log_at s i)) (disk s)"
    "rc d t = puts k (home_at s) ?r (rc d s)" "brest s t" by auto
  have l: "logs t = logs s" using t(6) by (simp add: brest_def)
  have k: "k < n" using Suc.prems by simp
  note L = log_layoutD [OF assms(4)]
  have nl: "log_at s k \<noteq> home_at s i" if "i < k" for i using L(5) [of i k] that k by auto
  have v: "view d t (log_at s k) = view d s (log_at s k)" "disk t (log_at s k) = disk s (log_at s k)" "rc d t (log_at s k) = rc d s (log_at s k)"
    unfolding t(3,4,5) using nl by (auto intro!: puts_other)
  have h: "rc d t (home_at s k) = rc d s (home_at s k)" unfolding t(5) by (rule puts_other) (use inj_onD [OF L(2), of k i for i] k in \<open>metis lessThan_iff less_trans nat_neq_iff\<close>)
  have le: "rc d t b \<le> rc d s b" for b unfolding t(5) by (induction k) auto
  have "{bn. rc d t bn \<noteq> 0} \<subseteq> {bn. rc d s bn \<noteq> 0}" using le by (auto simp: Suc_le_eq) (metis le_zero_eq neq0_conv)
  then have cd: "card {bn. rc d t bn \<noteq> 0} \<le> card {bn. rc d s bn \<noteq> 0}"
    using assms(1) finite_used by (intro card_mono) (auto simp: binv_def)
  obtain u where u: "install_one recovering k t = (Ret (), u)" "binv d p {} u" "view d u = (view d t)(home_at s k := view d t (log_at s k))"
    "disk u = (disk t)(home_at s k := view d t (log_at s k))" "rc d u = (rc d t)(home_at s k := ?r k)" "brest t u"
    using install_one_law [OF t(2), of recovering k "log_at s k" "home_at s k"] assms(2,3) assms(6,7) [OF k] not_sym [OF L(5) [OF k k]] v h l cd by auto
  show ?case using kfor_upt_Suc [OF t(1)] u t v brest_trans [OF t(6) u(6)] by auto
qed

text \<open>The header block.\<close>

primrec put_blocks :: "nat \<Rightarrow> (nat \<Rightarrow> u32) \<Rightarrow> u8 list \<Rightarrow> u8 list" where
  "put_blocks 0 f bs = bs"
| "put_blocks (Suc k) f bs = put32 (put_blocks k f bs) (4 + 4 * k) (f k)"

lemma length_put_blocks: "4 + 4 * k \<le> length bs \<Longrightarrow> length (put_blocks k f bs) = length bs"
  by (induction k) simp_all

lemma get32_put_blocks:
  assumes "4 + 4 * k \<le> length bs"
  shows "get32 (put_blocks k f bs) 0 = get32 bs 0" "i < k \<Longrightarrow> get32 (put_blocks k f bs) (4 + 4 * i) = f i"
  using assms
proof (induction k)
  case (Suc k)
  { case 1
    then show ?case using Suc by (simp add: get32_put32_other length_put_blocks)
  next
    case 2
    then show ?case using Suc by (cases "i = k") (simp_all add: get32_put32_other get32_put32_same length_put_blocks)
  }
qed simp_all

definition head_bytes :: "int \<Rightarrow> (nat \<Rightarrow> u32) \<Rightarrow> u8 list \<Rightarrow> u8 list" where
  "head_bytes n f bs = put_blocks (nat n) f (put32 bs 0 (of_int n))"

lemma head_round_trip:
  assumes "0 \<le> n" "n < 2 ^ 31" "4 + 4 * nat n \<le> length bs"
  shows "sint (get32 (head_bytes n f bs) 0) = n" "i < nat n \<Longrightarrow> get32 (head_bytes n f bs) (4 + 4 * i) = f i"
    "length (head_bytes n f bs) = length bs"
proof -
  have "get32 (head_bytes n f bs) 0 = of_int n" using assms(3) by (simp add: head_bytes_def get32_put_blocks get32_put32_same)
  then show "sint (get32 (head_bytes n f bs) 0) = n" using assms(1,2) by (simp add: signed_of_int signed_take_bit_int_eq_self)
qed (use assms(3) in \<open>simp_all add: head_bytes_def get32_put_blocks length_put_blocks\<close>)

lemma with_data_twice [simp]: "with_data b w (with_data b v s) = with_data b w s"
  by (simp add: with_data_def)

lemma put_blocks_code:
  "kfor [0..<k] (\<lambda>i. kbind (getlog (\<lambda>l. lh_block (log_lh l) i)) (\<lambda>bn. modbuf b (\<lambda>x. x\<lparr>b_data := put32 (b_data x) (4 + 4 * i) bn\<rparr>)))
     (with_data b v s) = (Ret (), with_data b (put_blocks k (home_at s) v) s)"
proof (induction k)
  case (Suc k)
  have "kbind (getlog (\<lambda>l. lh_block (log_lh l) k)) (\<lambda>bn. modbuf b (\<lambda>x. x\<lparr>b_data := put32 (b_data x) (4 + 4 * k) bn\<rparr>)) (with_data b w s)
      = (Ret (), with_data b (put32 w (4 + 4 * k) (home_at s k)) s)" for w by (simp add: with_data_def)
  then show ?case unfolding kfor_upt_Suc [OF Suc] by simp
qed simp

lemma write_head_law:
  assumes "binv d p {} s" "log_dev (logs s) = d" "card {bn. rc d s bn \<noteq> 0} < NBUF" "rc d s (log_start (logs s)) = 0"
  defines "st \<equiv> log_start (logs s)"
  defines "h \<equiv> head_bytes (lh_n (log_lh (logs s))) (home_at s) (view d s st)"
  shows "\<exists>t. write_head s = (Ret (), t) \<and> binv d p {} t \<and> view d t = (view d s)(st := h) \<and> disk t = (disk s)(st := h)
    \<and> rc d t = rc d s \<and> brest s t"
proof -
  have ci: "cache_inv d {} s" using assms(1) by (simp add: binv_def)
  obtain b u where r: "bread d st s = (Ret b, u)" "binv d p {b} u" "holds_block d st (bufs u b)" "b_data (bufs u b) = view d s st"
      "view d u = view d s" "rc d u = (rc d s)(st := 1)" "disk u = disk s" "brest s u"
    using bread_law [OF assms(1), of st] unused_exists [OF ci] assms(3,4) by (auto simp: st_def)
  have l: "logs u = logs s" using r(8) by (simp add: brest_def)
  note w = with_data_law [OF r(2), of b h]
  have bn: "b_blockno (bufs (with_data b h u) b) = st" using r(3) w(6) by (simp add: holds_block_def)
  obtain v where v: "bwrite b (with_data b h u) = (Ret (), v)" "binv d p {b} v" "view d v = (view d s)(st := h)" "rc d v = rc d u"
      "bufs v = bufs (with_data b h u)" "disk v = (disk s)(st := h)" "brest (with_data b h u) v"
    using bwrite_law [OF w(1), of b] w r bn by (auto simp: holds_block_def)
  obtain t where t: "brelse b v = (Ret (), t)" "binv d p {} t" "view d t = view d v" "rc d t = (rc d v)(st := rc d v st - 1)"
      "disk t = disk v" "brest v t"
    using brelse_law [OF v(2), of b] v(3,5,6) bn by auto
  have m: "kthen (kmod (\<lambda>s. s\<lparr>bufs := (bufs s)(b := (bufs s b)\<lparr>b_data := put32 (b_data (bufs s b)) 0 x\<rparr>)\<rparr>)) k u
      = k (with_data b (put32 (view d s st) 0 x) u)" for x and k :: "unit op"
    using r(4) by (simp add: with_data_def)
  have "kthen (bwrite b) (brelse b) (with_data b h u) = (Ret (), t)" using v(1) t(1) by simp
  then have "write_head s = (Ret (), t)"
    unfolding write_head_def kbind_kget kbind_Ret [of "bread d st", OF r(1)] assms(2) st_def [symmetric] l m
      kthen_Ret [where m = "kfor _ _", OF put_blocks_code] by (simp add: h_def head_bytes_def l)
  moreover have "rc d t = rc d s" using t(4) v(4) r(6) assms(4) by (auto simp: fun_eq_iff st_def)
  moreover have "brest s t" using r(8) w(5) v(7) t(6) by (simp add: brest_def)
  ultimately show ?thesis using t v by auto
qed

lemma logs_frame [simp]:
  "binv d p H (s\<lparr>logs := l\<rparr>) = binv d p H s" "view d (s\<lparr>logs := l\<rparr>) = view d s" "rc d (s\<lparr>logs := l\<rparr>) = rc d s"
proof -
  have sl: "slot d (s\<lparr>logs := l\<rparr>) = slot d s" by (simp add: slot_def fun_eq_iff)
  show "binv d p H (s\<lparr>logs := l\<rparr>) = binv d p H s" by (simp add: binv_def cache_inv_def slks_inv_def)
  show "view d (s\<lparr>logs := l\<rparr>) = view d s" "rc d (s\<lparr>logs := l\<rparr>) = rc d s"
    by (auto simp: view_def rc_def sl fun_eq_iff split: option.splits)
qed

text \<open>The header in memory after \<open>read_head\<close>.\<close>

definition read_lh :: "u8 list \<Rightarrow> logheader \<Rightarrow> logheader" where
  "read_lh bs lh = (let n = sint (get32 bs 0) in \<lparr>lh_n = n, lh_block = puts (nat n) (\<lambda>i. i) (\<lambda>i. get32 bs (4 + 4 * i)) (lh_block lh)\<rparr>)"

lemma read_blocks_code:
  assumes "k \<le> LOGSIZE"
  shows "kfor [0..<k] (\<lambda>i. if LOGSIZE \<le> i then kexc (Fault ''log.lh.block'') else
      modlog (\<lambda>l. l\<lparr>log_lh := (log_lh l)\<lparr>lh_block := (lh_block (log_lh l))(i := get32 bs (4 + 4 * i))\<rparr>\<rparr>)) s
    = (Ret (), s\<lparr>logs := (logs s)\<lparr>log_lh := (log_lh (logs s))\<lparr>lh_block := puts k (\<lambda>i. i) (\<lambda>i. get32 bs (4 + 4 * i)) (home_at s)\<rparr>\<rparr>\<rparr>)"
  using assms
proof (induction k)
  case (Suc k)
  show ?case unfolding kfor_upt_Suc [OF Suc.IH [OF Suc_leD [OF Suc.prems]]] using Suc.prems by (simp add: fun_upd_def cong: if_cong)
qed simp

lemma read_head_law:
  assumes "binv d p {} s" "log_dev (logs s) = d" "card {bn. rc d s bn \<noteq> 0} < NBUF" "rc d s (log_start (logs s)) = 0"
  defines "bs \<equiv> view d s (log_start (logs s))"
  assumes "view d s (log_start (logs s)) = disk s (log_start (logs s))" "nat (sint (get32 bs 0)) \<le> LOGSIZE"
  shows "\<exists>t. read_head s = (Ret (), t) \<and> binv d p {} t \<and> view d t = view d s \<and> disk t = disk s \<and> rc d t = rc d s
    \<and> logs t = (logs s)\<lparr>log_lh := read_lh bs (log_lh (logs s))\<rparr> \<and> sb t = sb s"
proof -
  let ?st = "log_start (logs s)" and ?n = "sint (get32 bs 0)"
  have ci: "cache_inv d {} s" using assms(1) by (simp add: binv_def)
  obtain b u where r: "bread d ?st s = (Ret b, u)" "binv d p {b} u" "holds_block d ?st (bufs u b)" "b_data (bufs u b) = bs"
      "view d u = view d s" "rc d u = (rc d s)(?st := 1)" "disk u = disk s" "brest s u"
    using bread_law [OF assms(1), of ?st] unused_exists [OF ci] assms(3,4) by (auto simp: bs_def)
  have l: "logs u = logs s" "sb u = sb s" using r(8) by (simp_all add: brest_def)
  let ?l = "(logs s)\<lparr>log_lh := read_lh bs (log_lh (logs s))\<rparr>"
  obtain t where t: "brelse b (u\<lparr>logs := ?l\<rparr>) = (Ret (), t)" "binv d p {} t" "view d t = view d s" "rc d t = (rc d u)(?st := rc d u ?st - 1)"
      "disk t = disk s" "brest (u\<lparr>logs := ?l\<rparr>) t"
    using brelse_law [of d p "{b}" "u\<lparr>logs := ?l\<rparr>" b] r(2,3,5,7) assms(6) by (auto simp: holds_block_def)
  let ?v = "u\<lparr>logs := (logs s)\<lparr>log_lh := (log_lh (logs s))\<lparr>lh_n := ?n\<rparr>\<rparr>\<rparr>"
  have "read_head s = kthen (kfor [0..<nat ?n] (\<lambda>i. if LOGSIZE \<le> i then kexc (Fault ''log.lh.block'') else
      modlog (\<lambda>l. l\<lparr>log_lh := (log_lh l)\<lparr>lh_block := (lh_block (log_lh l))(i := get32 bs (4 + 4 * i))\<rparr>\<rparr>))) (brelse b) ?v"
    unfolding read_head_def kbind_kget assms(2) kbind_Ret [of "bread d ?st", OF r(1)] r(4) kthen_kmod by (simp add: l)
  also have "\<dots> = brelse b (u\<lparr>logs := ?l\<rparr>)"
    unfolding kthen_Ret [OF read_blocks_code [OF assms(7)]] by (rule arg_cong [where f = "brelse b"]) (simp add: read_lh_def Let_def)
  finally have "read_head s = (Ret (), t)" using t(1) by simp
  moreover have "rc d t = rc d s" using t(4) r(6) assms(4) by (auto simp: fun_eq_iff)
  ultimately show ?thesis using t l by (auto simp: brest_def)
qed

section \<open>Recovery\<close>

text \<open>The blocks of the header are installed, and the header on the disk is cleared.\<close>

lemma clean_view:
  assumes "cache_inv d {} s" "rc d s b = 0"
  shows "view d s b = disk s b"
proof (cases "slot d s b")
  case (Some c)
  then have c: "c < NBUF" "b_blockno (bufs s c) = b" "b_refcnt (bufs s c) = 0"
    using slot_Some [OF assms(1), of b c] assms(2) by (simp_all add: rc_def holds_block_def unat_eq_0)
  show ?thesis using cache_invD(4) [OF assms(1) c(1)] c Some by (simp add: view_def)
qed (simp add: view_def)

lemma log_blockno_lh [simp]: "log_blockno i (l\<lparr>log_lh := h\<rparr>) = log_blockno i l"
  by (simp add: log_blockno_def)

lemma recover_law:
  assumes "binv d p {} r" "log_dev (logs r) = d" "\<And>b. rc d r b = 0"
  defines "st \<equiv> log_start (logs r)"
  defines "l \<equiv> (logs r)\<lparr>log_lh := read_lh (disk r st) (log_lh (logs r))\<rparr>"
  defines "n \<equiv> nat (sint (get32 (disk r st) 0))"
  defines "D \<equiv> puts n (home_at (r\<lparr>logs := l\<rparr>)) (\<lambda>i. disk r (log_at r i)) (disk r)"
  assumes "n \<le> LOGSIZE" "log_layout (r\<lparr>logs := l\<rparr>) n"
  shows "\<exists>t f. recover_from_log r = (Ret (), t) \<and> binv d p {} t \<and> disk t = D(st := head_bytes 0 f (disk r st)) \<and> (\<forall>b. rc d t b = 0)"
proof -
  have ci: "cache_inv d {} r" using assms(1) by (simp add: binv_def)
  have v: "view d r = disk r" using clean_view [OF ci assms(3)] by auto
  obtain t where t: "read_head r = (Ret (), t)" "binv d p {} t" "view d t = disk r" "disk t = disk r" "rc d t = rc d r" "logs t = l"
    using read_head_law [OF assms(1,2)] assms(3,8) v by (auto simp: n_def st_def l_def NBUF_def MAXOPBLOCKS_def)
  have la: "log_at t = log_at r" by (simp add: t(6) l_def log_blockno_def fun_eq_iff)
  have ly: "log_layout t n" using assms(9) t(6) by (simp add: log_layout_def)
  obtain u where u: "kfor [0..<n] (install_one True) t = (Ret (), u)" "binv d p {} u" "view d u = D" "disk u = D" "rc d u = rc d t" "brest t u"
  proof -
    have "puts n (home_at t) (\<lambda>i. rc d t (home_at t i) - (if True then 0 else 1)) (rc d t) = rc d t"
      by (rule ext, induction n) (auto simp: t(5) assms(3))
    then show ?thesis
      using install_loop [OF t(2), of True n n] ly that la t assms(2,3) by (auto simp: l_def D_def NBUF_def MAXOPBLOCKS_def)
  qed
  have lu: "logs u = l" using u(6) t(6) by (simp add: brest_def)
  let ?l = "l\<lparr>log_lh := (log_lh l)\<lparr>lh_n := 0\<rparr>\<rparr>" and ?h = "head_bytes 0 (home_at u) (D st)"
  have Dst: "D st = disk r st" unfolding D_def
    by (rule puts_other, rule not_sym) (use log_layoutD(4) [OF assms(9)] in \<open>simp add: st_def l_def\<close>)
  obtain w where w: "write_head (u\<lparr>logs := ?l\<rparr>) = (Ret (), w)" "binv d p {} w" "disk w = D(st := ?h)" "rc d w = rc d u"
    using write_head_law [of d p "u\<lparr>logs := ?l\<rparr>"] u t(5) assms(2,3) lu by (auto simp: l_def st_def NBUF_def MAXOPBLOCKS_def)
  have "nat (lh_n (log_lh l)) = n" by (simp add: l_def read_lh_def Let_def n_def)
  then have "recover_from_log r = write_head (u\<lparr>logs := ?l\<rparr>)"
    unfolding recover_from_log_def install_trans_def using t(1,6) u(1) lu by simp
  then show ?thesis using w u(5) t(5) assms(3) Dst by auto
qed

section \<open>Commit\<close>

text \<open>
  A transaction of \<open>n\<close> blocks that is ready to commit: no buffer is held, the blocks of the transaction are pinned,
  the log blocks and the header are not in use and the header on the disk is empty; only the blocks of the
  transaction differ between the cache and the disk.
\<close>

definition commit_ready :: "u32 \<Rightarrow> nat \<Rightarrow> nat \<Rightarrow> kstate \<Rightarrow> bool" where
  "commit_ready d p n s \<longleftrightarrow> binv d p {} s \<and> log_dev (logs s) = d \<and> lh_n (log_lh (logs s)) = int n \<and> 0 < n \<and> n \<le> LOGSIZE
     \<and> card {b. rc d s b \<noteq> 0} < NBUF \<and> log_layout s n \<and> rc d s (log_start (logs s)) = 0
     \<and> length (disk s (log_start (logs s))) = 1024 \<and> get32 (disk s (log_start (logs s))) 0 = 0
     \<and> (\<forall>i < n. rc d s (log_at s i) = 0 \<and> 1 \<le> rc d s (home_at s i) \<and> rc d s (home_at s i) < 2 ^ 31)
     \<and> (\<forall>b. b \<notin> home_at s ` {..<n} \<longrightarrow> view d s b = disk s b)"

text \<open>The disk once the log blocks and the header are written.\<close>

definition logged :: "u32 \<Rightarrow> nat \<Rightarrow> kstate \<Rightarrow> u32 \<Rightarrow> u8 list" where
  "logged d n s = (puts n (log_at s) (\<lambda>i. view d s (home_at s i)) (disk s))
     (log_start (logs s) := head_bytes (int n) (home_at s) (disk s (log_start (logs s))))"

lemma commit_readyD:
  assumes "commit_ready d p n s"
  shows "binv d p {} s" "log_dev (logs s) = d" "lh_n (log_lh (logs s)) = int n" "0 < n" "n \<le> LOGSIZE" "card {b. rc d s b \<noteq> 0} < NBUF"
    "log_layout s n" "rc d s (log_start (logs s)) = 0" "length (disk s (log_start (logs s))) = 1024" "get32 (disk s (log_start (logs s))) 0 = 0"
    "i < n \<Longrightarrow> rc d s (log_at s i) = 0 \<and> 1 \<le> rc d s (home_at s i) \<and> rc d s (home_at s i) < 2 ^ 31"
    "b \<notin> home_at s ` {..<n} \<Longrightarrow> view d s b = disk s b"
  using assms by (simp_all add: commit_ready_def)

lemma log_written:
  assumes "commit_ready d p n s"
  shows "\<exists>t. kthen write_log write_head s = (Ret (), t) \<and> binv d p {} t \<and> disk t = logged d n s
    \<and> view d t = (\<lambda>b. if b \<in> home_at s ` {..<n} then view d s b else logged d n s b) \<and> rc d t = rc d s \<and> brest s t"
proof -
  note R = commit_readyD [OF assms]
  note L = log_layoutD [OF R(7)]
  let ?st = "log_start (logs s)" and ?V = "\<lambda>i. view d s (home_at s i)"
  obtain t where t: "kfor [0..<n] write_log_one s = (Ret (), t)" "binv d p {} t" "view d t = puts n (log_at s) ?V (view d s)"
    "disk t = puts n (log_at s) ?V (disk s)" "rc d t = rc d s" "brest s t"
    using write_log_loop [OF R(1,2,6,7) le_refl R(11)] by auto
  have l: "logs t = logs s" using t(6) by (simp add: brest_def)
  have "view d t ?st = view d s ?st" unfolding t(3) by (rule puts_other, rule not_sym) (rule L(3))
  then have vs: "view d t ?st = disk s ?st" using clean_view [of d s ?st] R(1,8) by (simp add: binv_def)
  obtain u where u: "write_head t = (Ret (), u)" "binv d p {} u" "view d u = (view d t)(?st := head_bytes (int n) (home_at s) (disk s ?st))"
    "disk u = logged d n s" "rc d u = rc d t" "brest t u"
    using write_head_law [OF t(2)] l t(4,5) vs R(2,3,6,8) by (auto simp: logged_def)
  have "view d u = (\<lambda>b. if b \<in> home_at s ` {..<n} then view d s b else logged d n s b)"
  proof
    fix b
    show "view d u b = (if b \<in> home_at s ` {..<n} then view d s b else logged d n s b)"
    proof (cases "b \<in> home_at s ` {..<n}")
      case True
      then have "view d t b = view d s b" unfolding t(3) by (intro puts_other) (use L(5) in auto)
      then show ?thesis using True u(3) L(4) by auto
    next
      case False
      then have "puts k (log_at s) ?V (view d s) b = puts k (log_at s) ?V (disk s) b" for k
        using R(12) by (induction k) auto
      then show ?thesis using False u(3) t(3) by (simp add: logged_def)
    qed
  qed
  moreover have "kthen write_log write_head s = (Ret (), u)" using t(1) u(1) R(3) by (simp add: write_log_def)
  ultimately show ?thesis using u t(5) brest_trans [OF t(6) u(6)] by auto
qed

text \<open>The steps of \<open>commit\<close>, each of which writes one block to the disk.\<close>

definition commit_steps :: "nat \<Rightarrow> unit op list" where
  "commit_steps n = map write_log_one [0..<n] @ write_head # map (install_one False) [0..<n]
     @ [kthen (modlog (\<lambda>l. l\<lparr>log_lh := (log_lh l)\<lparr>lh_n := 0\<rparr>\<rparr>)) write_head]"

abbreviation run :: "unit op list \<Rightarrow> unit op" where
  "run ops \<equiv> kfor ops (\<lambda>m. m)"

lemma run_map: "run (map f xs) = kfor xs f"
  by (induction xs) simp_all

lemma take_steps:
  "k \<le> n \<Longrightarrow> take k (commit_steps n) = map write_log_one [0..<k]"
  "j \<le> n \<Longrightarrow> take (n + 1 + j) (commit_steps n) = map write_log_one [0..<n] @ write_head # map (install_one False) [0..<j]"
  "2 * n + 1 < k \<Longrightarrow> take k (commit_steps n) = commit_steps n"
  by (simp_all add: commit_steps_def take_map)

text \<open>The disk after each step.\<close>

definition steps_disk :: "u32 \<Rightarrow> nat \<Rightarrow> nat \<Rightarrow> kstate \<Rightarrow> u32 \<Rightarrow> u8 list" where
  "steps_disk d n k s = (let V = (\<lambda>i. view d s (home_at s i)) in
     if k \<le> n then puts k (log_at s) V (disk s) else puts (k - n - 1) (home_at s) V (logged d n s))"

lemma logged_at:
  assumes "commit_ready d p n s"
  shows "i < n \<Longrightarrow> logged d n s (log_at s i) = view d s (home_at s i)"
    "b \<noteq> log_start (logs s) \<Longrightarrow> b \<notin> log_at s ` {..<n} \<Longrightarrow> logged d n s b = disk s b"
proof -
  note L = log_layoutD [OF commit_readyD(7) [OF assms]]
  show "logged d n s (log_at s i) = view d s (home_at s i)" if "i < n" using that L(3) puts_at [OF L(1) that] by (simp add: logged_def)
  show "logged d n s b = disk s b" if "b \<noteq> log_start (logs s)" "b \<notin> log_at s ` {..<n}"
    using that puts_other [of n b "log_at s"] by (auto simp: logged_def)
qed

lemma installed:
  assumes "commit_ready d p n s" "j \<le> n"
  shows "\<exists>t. run (map write_log_one [0..<n] @ write_head # map (install_one False) [0..<j]) s = (Ret (), t) \<and> binv d p {} t
    \<and> disk t = puts j (home_at s) (\<lambda>i. view d s (home_at s i)) (logged d n s) \<and> view d t (log_start (logs s)) = disk t (log_start (logs s))
    \<and> rc d t (log_start (logs s)) = 0 \<and> card {b. rc d t b \<noteq> 0} < NBUF \<and> logs t = logs s"
proof -
  note R = commit_readyD [OF assms(1)]
  note L = log_layoutD [OF R(7)]
  let ?st = "log_start (logs s)" and ?V = "\<lambda>i. view d s (home_at s i)"
  obtain u where u: "kthen write_log write_head s = (Ret (), u)" "binv d p {} u" "disk u = logged d n s"
    "view d u = (\<lambda>b. if b \<in> home_at s ` {..<n} then view d s b else logged d n s b)" "rc d u = rc d s" "brest s u"
    using log_written [OF assms(1)] by auto
  have l: "logs u = logs s" using u(6) by (simp add: brest_def)
  have va: "view d u (log_at s i) = logged d n s (log_at s i)" if "i < n" for i using L(5) that u(4) by fastforce
  have vi: "view d u (log_at s i) = ?V i" if "i < n" for i using va [OF that] logged_at(1) [OF assms(1) that] by simp
  have eq: "puts j (home_at s) (\<lambda>i. view d u (log_at s i)) f = puts j (home_at s) ?V f" for f
    using assms(2) by (induction j) (simp_all add: vi)
  have ly: "log_layout u n" using R(7) by (simp add: log_layout_def l)
  let ?r = "puts j (home_at s) (\<lambda>i. rc d s (home_at s i) - 1) (rc d s)"
  obtain t where t: "kfor [0..<j] (install_one False) u = (Ret (), t)" "binv d p {} t"
    "view d t = puts j (home_at s) ?V (view d u)" "disk t = puts j (home_at s) ?V (logged d n s)" "rc d t = ?r" "brest u t"
  proof -
    have "card {b. rc d u b \<noteq> 0} + (if False then 1 else 0) < NBUF" using R(6) u(5) by simp
    from install_loop [OF u(2) _ this ly assms(2)] show ?thesis using that R(2,11) va u(3,5) l eq by simp blast
  qed
  have le: "?r b \<le> rc d s b" for b by (induction j) auto
  have "{b. rc d t b \<noteq> 0} \<subseteq> {b. rc d s b \<noteq> 0}" unfolding t(5)
  proof (rule Collect_mono, rule impI)
    fix b assume "?r b \<noteq> 0"
    then show "rc d s b \<noteq> 0" using le [of b] by simp
  qed
  then have "card {b. rc d t b \<noteq> 0} \<le> card {b. rc d s b \<noteq> 0}" using finite_used R(1) by (intro card_mono) (auto simp: binv_def)
  moreover have "rc d t ?st = 0" by (simp only: t(5) puts_home_start [OF R(7) assms(2)] R(8))
  moreover have "view d t ?st = disk t ?st"
  proof -
    have "?st \<notin> home_at s ` {..<n}" using L(4) by force
    then show ?thesis by (simp only: t(3,4) puts_home_start [OF R(7) assms(2)] u(4) if_False)
  qed
  moreover have "run (map write_log_one [0..<n] @ write_head # map (install_one False) [0..<j]) s = (Ret (), t)"
  proof -
    have "run (map write_log_one [0..<n] @ write_head # map (install_one False) [0..<j]) s
        = kthen (kthen write_log write_head) (kfor [0..<j] (install_one False)) s"
      using R(3) by (simp add: kfor_append run_map write_log_def)
    then show ?thesis by (simp only: kthen_Ret [of "kthen write_log write_head", OF u(1)] t(1))
  qed
  ultimately show ?thesis using t(1,2,4,6) u(1) R(6) l by (auto simp: brest_def)
qed

lemma crash_disk:
  assumes "commit_ready d p n s"
  defines "V \<equiv> \<lambda>i. view d s (home_at s i)" and "st \<equiv> log_start (logs s)"
  shows "\<exists>u f. run (take k (commit_steps n)) s = (Ret (), u)
    \<and> disk u = (if k \<le> n then puts k (log_at s) V (disk s) else if k \<le> 2 * n + 1 then puts (k - n - 1) (home_at s) V (logged d n s)
        else (puts n (home_at s) V (logged d n s))(st := head_bytes 0 f (logged d n s st)))"
proof -
  note R = commit_readyD [OF assms(1)]
  have "k \<le> n \<or> k = n + 1 + (k - n - 1) \<and> k - n - 1 \<le> n \<or> 2 * n + 1 < k" by linarith
  then consider "k \<le> n" | j where "k = n + 1 + j" "j \<le> n" | "2 * n + 1 < k" by blast
  then show ?thesis
  proof cases
    case 1
    then show ?thesis using write_log_loop [OF R(1,2,6,7) 1 R(11)] by (auto simp: take_steps run_map V_def)
  next
    case (2 j)
    then show ?thesis using installed [OF assms(1) 2(2)] unfolding 2(1) take_steps(2) [OF 2(2)] by (auto simp: V_def)
  next
    case 3
    obtain t where t: "run (map write_log_one [0..<n] @ write_head # map (install_one False) [0..<n]) s = (Ret (), t)" "binv d p {} t"
      "disk t = puts n (home_at s) V (logged d n s)" "view d t st = disk t st" "rc d t st = 0" "card {b. rc d t b \<noteq> 0} < NBUF" "logs t = logs s"
      using installed [OF assms(1) le_refl] by (auto simp: V_def st_def)
    let ?t = "t\<lparr>logs := (logs s)\<lparr>log_lh := (log_lh (logs s))\<lparr>lh_n := 0\<rparr>\<rparr>\<rparr>"
    obtain u where u: "write_head ?t = (Ret (), u)" "disk u = (disk t)(st := head_bytes 0 (home_at s) (disk t st))"
      using write_head_law [of d p ?t] t(2,4-6) R(2) by (auto simp: st_def)
    have "disk t st = logged d n s st" unfolding t(3) st_def by (rule puts_home_start [OF R(7) le_refl])
    moreover have "run (commit_steps n) s = (Ret (), u)"
    proof -
      have "run (commit_steps n) s = kthen (run (map write_log_one [0..<n] @ write_head # map (install_one False) [0..<n]))
          (run [kthen (modlog (\<lambda>l. l\<lparr>log_lh := (log_lh l)\<lparr>lh_n := 0\<rparr>\<rparr>)) write_head]) s"
        unfolding kfor_append [symmetric] by (simp add: commit_steps_def)
      then show ?thesis using t(1,7) u(1) by (simp add: kthen_unit)
    qed
    ultimately show ?thesis using 3 u(2) t(3) by (auto simp: take_steps)
  qed
qed

lemma commit_is_steps:
  assumes "commit_ready d p n s"
  shows "commit s = run (commit_steps n) s"
proof -
  note R = commit_readyD [OF assms]
  obtain t where t: "kthen write_log write_head s = (Ret (), t)" "brest s t" using log_written [OF assms] by auto
  have l: "lh_n (log_lh (logs t)) = int n" using t(2) R(3) by (simp add: brest_def)
  let ?rest = "kthen (kfor [0..<n] (install_one False)) (kthen (modlog (\<lambda>l. l\<lparr>log_lh := (log_lh l)\<lparr>lh_n := 0\<rparr>\<rparr>)) write_head)"
  have "commit s = kthen (kthen write_log write_head) (kthen (install_trans False) (kthen (modlog (\<lambda>l. l\<lparr>log_lh := (log_lh l)\<lparr>lh_n := 0\<rparr>\<rparr>)) write_head)) s"
    using R(3,4) by (simp add: commit_def kwhen_def)
  also have "\<dots> = ?rest t" unfolding kthen_Ret [of "kthen write_log write_head", OF t(1)] by (simp add: install_trans_def l)
  also have "\<dots> = kthen (kthen write_log write_head) ?rest s" by (simp only: kthen_Ret [of "kthen write_log write_head", OF t(1)])
  also have "\<dots> = run (commit_steps n) s" using R(3) by (simp add: commit_steps_def kfor_append run_map write_log_def kthen_unit)
  finally show ?thesis .
qed

section \<open>A crash at any point\<close>

text \<open>After a reboot the caches are empty, and the disk is what it was.\<close>

definition rebooted :: "u32 \<Rightarrow> nat \<Rightarrow> kstate \<Rightarrow> bool" where
  "rebooted d q r \<longleftrightarrow> binv d q {} r \<and> (\<forall>b. rc d r b = 0)"

definition log_area :: "nat \<Rightarrow> kstate \<Rightarrow> u32 set" where
  "log_area n s = insert (log_start (logs s)) (log_at s ` {..<n})"

lemma puts_cong: "(\<And>i. i < n \<Longrightarrow> N i = N' i) \<Longrightarrow> (\<And>i. i < n \<Longrightarrow> f i = f' i) \<Longrightarrow> puts n N f g = puts n N' f' g"
  by (induction n) simp_all

lemma puts_in: "b \<in> N ` {..<n} \<Longrightarrow> puts n N f g b = puts n N f g' b"
  by (induction n) (auto simp: less_Suc_eq lessThan_Suc)

lemma puts_twice:
  assumes "j \<le> n"
  shows "puts n N f (puts j N f g) = puts n N f g"
proof
  fix b
  show "puts n N f (puts j N f g) b = puts n N f g b"
  proof (cases "b \<in> N ` {..<n}")
    case True
    then show ?thesis by (rule puts_in)
  next
    case False
    then have "puts n N f h b = h b" "puts j N f h b = h b" for h using assms by (auto intro!: puts_other)
    then show ?thesis by simp
  qed
qed

lemma lk_frame:
  assumes "quiet k" "c_proc (mycpu_of k) = c_proc (mycpu_of (lk s))"
  shows "binv d p H s \<Longrightarrow> binv d p H (s\<lparr>lk := k\<rparr>)" "rc d (s\<lparr>lk := k\<rparr>) = rc d s"
proof -
  have sl: "slot d (s\<lparr>lk := k\<rparr>) = slot d s" by (simp add: slot_def fun_eq_iff)
  show "binv d p H s \<Longrightarrow> binv d p H (s\<lparr>lk := k\<rparr>)" using assms by (simp add: binv_def cache_inv_def slks_inv_def)
  show "rc d (s\<lparr>lk := k\<rparr>) = rc d s" by (auto simp: rc_def sl fun_eq_iff split: option.splits)
qed

text \<open>\<open>initlog\<close> on a disk whose header has \<open>n\<close> blocks \<open>B\<close>.\<close>

lemma initlog_law:
  assumes "rebooted d q r" "sb_logstart sb' = st" "sint (get32 (disk r st) 0) = int n" "n \<le> LOGSIZE" "length (disk r st) = 1024"
    and "\<And>i. i < n \<Longrightarrow> get32 (disk r st) (4 + 4 * i) = home_at s i" "log_start (logs s) = st" "log_layout s n"
  shows "\<exists>t. initlog d sb' r = (Ret (), t) \<and> get32 (disk t st) 0 = 0
    \<and> (\<forall>b. b \<noteq> st \<longrightarrow> disk t b = puts n (home_at s) (\<lambda>i. disk r (log_at s i)) (disk r) b)"
proof -
  let ?k = "(lk r)\<lparr>locks := (locks (lk r))(L_log := (locks (lk r) L_log)\<lparr>lk_name := ''log'', locked := 0, lk_cpu := None\<rparr>)\<rparr>"
  let ?l = "(logs r)\<lparr>log_start := st, log_size := sint (sb_nlog sb'), log_dev := d\<rparr>"
  let ?r = "r\<lparr>lk := ?k, logs := ?l\<rparr>"
  let ?m = "?l\<lparr>log_lh := read_lh (disk r st) (log_lh (logs r))\<rparr>"
  have q: "quiet ?k" using assms(1) by (auto simp: rebooted_def binv_def quiet_def cpu_ok_def lk_free_def mycpu_of_def)
  have cp: "c_proc (mycpu_of ?k) = c_proc (mycpu_of (lk r))" by (simp add: mycpu_of_def)
  have r: "binv d q {} ?r" "rc d ?r b = 0" for b
    using assms(1) lk_frame [OF q cp] by (auto simp: rebooted_def)
  have home: "home_at (?r\<lparr>logs := ?m\<rparr>) i = home_at s i" if "i < n" for i
    using that assms(3,6) by (simp add: read_lh_def Let_def puts_at [of "\<lambda>i. i" n i])
  have at: "log_at (?r\<lparr>logs := ?m\<rparr>) i = log_at s i" "log_at ?r i = log_at s i" for i using assms(7) by (simp_all add: log_blockno_def)
  have ly: "log_layout (?r\<lparr>logs := ?m\<rparr>) n"
  proof -
    have "inj_on (home_at (?r\<lparr>logs := ?m\<rparr>)) {..<n}" using log_layoutD(2) [OF assms(8)] home by (auto simp: inj_on_def)
    then show ?thesis using assms(7,8) home at by (auto simp: log_layout_def)
  qed
  have D: "puts n (home_at (?r\<lparr>logs := ?m\<rparr>)) (\<lambda>i. disk r (log_at ?r i)) (disk r) = puts n (home_at s) (\<lambda>i. disk r (log_at s i)) (disk r)"
    by (rule puts_cong) (use home at in simp_all)
  obtain t f where t: "recover_from_log ?r = (Ret (), t)"
    "disk t = (puts n (home_at s) (\<lambda>i. disk r (log_at s i)) (disk r))(st := head_bytes 0 f (disk r st))"
    using recover_law [OF r(1) _ r(2)] assms(3,4) ly D by auto
  have "initlog d sb' r = (Ret (), t)" using t(1) assms(2) by (simp add: initlog_def initlock_def modlock_def)
  moreover have "get32 (head_bytes 0 f (disk r st)) 0 = 0" using assms(5) by (simp add: head_bytes_def get32_put32_same)
  ultimately show ?thesis using t(2) by auto
qed

lemma installed_view:
  assumes "commit_ready d p n s" "b \<notin> log_area n s"
  shows "puts n (home_at s) (\<lambda>i. view d s (home_at s i)) (logged d n s) b = view d s b"
proof (cases "b \<in> home_at s ` {..<n}")
  case True
  then show ?thesis using puts_at [OF log_layoutD(2) [OF commit_readyD(7) [OF assms(1)]]] by auto
next
  case False
  then have "puts n (home_at s) (\<lambda>i. view d s (home_at s i)) (logged d n s) b = logged d n s b" by (intro puts_other) auto
  then show ?thesis using False assms(2) logged_at(2) [OF assms(1), of b] commit_readyD(12) [OF assms(1), of b] by (simp add: log_area_def)
qed

lemma recover_logged:
  assumes "commit_ready d p n s" "rebooted d q r" "sb_logstart sb' = log_start (logs s)" "j \<le> n"
    and D: "disk r = puts j (home_at s) (\<lambda>i. view d s (home_at s i)) (logged d n s)"
  shows "\<exists>t. initlog d sb' r = (Ret (), t) \<and> get32 (disk t (log_start (logs s))) 0 = 0 \<and> (\<forall>b. b \<notin> log_area n s \<longrightarrow> disk t b = view d s b)"
proof -
  note R = commit_readyD [OF assms(1)]
  note L = log_layoutD [OF R(7)]
  let ?V = "\<lambda>i. view d s (home_at s i)" and ?st = "log_start (logs s)"
  have hb: "int n < 2 ^ 31" "4 + 4 * nat (int n) \<le> length (disk s ?st)" using R(5,9) by (simp_all add: LOGSIZE_def MAXOPBLOCKS_def)
  have st: "disk r ?st = head_bytes (int n) (home_at s) (disk s ?st)"
    unfolding D puts_home_start [OF R(7) assms(4)] by (simp add: logged_def)
  have at: "disk r (log_at s i) = ?V i" if i: "i < n" for i
  proof -
    have "disk r (log_at s i) = logged d n s (log_at s i)" unfolding D
    proof (rule puts_other)
      fix i' assume "i' < j"
      then show "log_at s i \<noteq> home_at s i'" using L(5) [of i' i] i assms(4) by auto
    qed
    then show ?thesis using logged_at(1) [OF assms(1) i] by simp
  qed
  obtain t where t: "initlog d sb' r = (Ret (), t)" "get32 (disk t ?st) 0 = 0"
    "\<And>b. b \<noteq> ?st \<Longrightarrow> disk t b = puts n (home_at s) (\<lambda>i. disk r (log_at s i)) (disk r) b"
    using initlog_law [OF assms(2,3), of n s] R(5,7,9) st head_round_trip [OF _ hb, where f = "home_at s"] by auto
  have "disk t b = view d s b" if "b \<notin> log_area n s" for b
  proof -
    have "disk t b = puts n (home_at s) (\<lambda>i. disk r (log_at s i)) (disk r) b" using t(3) that by (simp add: log_area_def)
    also have "\<dots> = puts n (home_at s) ?V (disk r) b" by (rule arg_cong [where f = "\<lambda>g. g b"], rule puts_cong) (simp_all add: at)
    also have "\<dots> = view d s b" using installed_view [OF assms(1) that] by (simp only: D puts_twice [OF assms(4)])
    finally show ?thesis .
  qed
  then show ?thesis using t(1,2) by blast
qed

lemma recover_clear:
  assumes "rebooted d q r" "sb_logstart sb' = st" "get32 (disk r st) 0 = 0" "length (disk r st) = 1024"
  shows "\<exists>t. initlog d sb' r = (Ret (), t) \<and> get32 (disk t st) 0 = 0 \<and> (\<forall>b. b \<noteq> st \<longrightarrow> disk t b = disk r b)"
  using initlog_law [OF assms(1,2), of 0 "r\<lparr>logs := (logs r)\<lparr>log_start := st\<rparr>\<rparr>"] assms(3,4) by (simp add: log_layout_def)

text \<open>
  C1. A commit is atomic across crashes. \<open>commit\<close> writes the log blocks, the header, the blocks themselves and the header
  again, one block after the other. If the machine stops after any number \<open>k\<close> of these writes and reboots, \<open>initlog\<close>
  returns, and outside the log the disk is the one before the transaction if the header was not yet written, and otherwise has
  every block of the transaction; the log is empty.
\<close>

theorem commit_crash_atomic:
  assumes "commit_ready d p n s"
  shows "commit s = run (commit_steps n) s \<and>
    (\<exists>u. run (take k (commit_steps n)) s = (Ret (), u) \<and>
      (\<forall>q r sb'. rebooted d q r \<and> disk r = disk u \<and> sb_logstart sb' = log_start (logs s) \<longrightarrow>
        (\<exists>t. initlog d sb' r = (Ret (), t) \<and> get32 (disk t (log_start (logs s))) 0 = 0 \<and>
          (\<forall>b. b \<notin> log_area n s \<longrightarrow> disk t b = (if k \<le> n then disk s b else view d s b)))))"
proof (rule conjI [OF commit_is_steps [OF assms]])
  note R = commit_readyD [OF assms]
  let ?V = "\<lambda>i. view d s (home_at s i)" and ?st = "log_start (logs s)"
  let ?ok = "\<lambda>sb' r. \<exists>t. initlog d sb' r = (Ret (), t) \<and> get32 (disk t ?st) 0 = 0 \<and> (\<forall>b. b \<notin> log_area n s \<longrightarrow> disk t b = (if k \<le> n then disk s b else view d s b))"
  obtain u f where u: "run (take k (commit_steps n)) s = (Ret (), u)"
    "disk u = (if k \<le> n then puts k (log_at s) ?V (disk s) else if k \<le> 2 * n + 1 then puts (k - n - 1) (home_at s) ?V (logged d n s)
        else (puts n (home_at s) ?V (logged d n s))(?st := head_bytes 0 f (logged d n s ?st)))"
    using crash_disk [OF assms, of k] by blast
  have "?ok sb' r" if r: "rebooted d q r" "disk r = disk u" "sb_logstart sb' = ?st" for q r sb'
  proof -
    consider "k \<le> n" | "n < k" "k \<le> 2 * n + 1" | "2 * n + 1 < k" by linarith
    then show ?thesis
    proof cases
      case 1
      then have D: "disk r = puts k (log_at s) ?V (disk s)" using u(2) r(2) by simp
      have "b \<notin> log_area n s \<or> b = ?st \<Longrightarrow> disk r b = disk s b" for b
        unfolding D using 1 log_layoutD(3) [OF R(7)] by (intro puts_other) (auto simp: log_area_def)
      then show ?thesis using recover_clear [OF r(1,3)] 1 R(9,10) by (auto simp: log_area_def)
    next
      case 2
      then show ?thesis using recover_logged [OF assms r(1,3), of "k - n - 1"] u(2) r(2) by simp
    next
      case 3
      let ?h = "head_bytes 0 f (logged d n s ?st)"
      have D: "disk r = (puts n (home_at s) ?V (logged d n s))(?st := ?h)" using 3 u(2) r(2) by simp
      have "length (logged d n s ?st) = 1024"
        using R(5,9) head_round_trip(3) [of "int n" "disk s ?st" "home_at s"] by (simp add: logged_def LOGSIZE_def MAXOPBLOCKS_def)
      then have "get32 ?h 0 = 0" "length ?h = 1024" by (simp_all add: head_bytes_def [of 0] get32_put32_same)
      then show ?thesis using recover_clear [OF r(1,3)] 3 D installed_view [OF assms] by (auto simp: log_area_def)
    qed
  qed
  then show "\<exists>u. run (take k (commit_steps n)) s = (Ret (), u) \<and> (\<forall>q r sb'. rebooted d q r \<and> disk r = disk u \<and> sb_logstart sb' = ?st \<longrightarrow> ?ok sb' r)"
    using u(1) by blast
qed

text \<open>A transaction that has changed block 50, in a buffer of its own, while the log starts at block 2.\<close>

definition commit_bufs :: "nat \<Rightarrow> buf" where
  "commit_bufs b = zero_buf\<lparr>b_prev := (if b = 0 then BHEAD else b - 1), b_next := (if b = BHEAD then 0 else b + 1)\<rparr>"

definition commit_state :: kstate where
  "commit_state = zero_state\<lparr>lk := setcur (Some 0) (lk zero_state),
     bufs := commit_bufs(0 := (commit_bufs 0)\<lparr>b_valid := True, b_dev := 1, b_blockno := 50, b_refcnt := 1, b_data := replicate 1024 7\<rparr>),
     logs := \<lparr>log_start = 2, log_size = 30, log_outstanding = 0, log_committing = True, log_dev = 1, log_lh = \<lparr>lh_n = 1, lh_block = (\<lambda>_. 50)\<rparr>\<rparr>\<rparr>"

lemma commit_cache: "cache_inv 1 {} commit_state"
proof -
  have "linked (bufs commit_state) [0..<NBUF]"
    by (simp add: linked_def commit_state_def commit_bufs_def nx_def pv_def NBUF_def MAXOPBLOCKS_def upt_rec)
  moreover have "set [0..<NBUF] = {..<NBUF}" by auto
  ultimately have "\<exists>xs. linked (bufs commit_state) xs \<and> set xs = {..<NBUF}" by blast
  then show ?thesis by (auto simp: cache_inv_def commit_state_def commit_bufs_def zero_defs)
qed

lemma le_word_zeros: "le_word (replicate n 0) = 0"
  by (induction n) (simp_all add: le_word_def)

lemma commit_slot: "slot 1 commit_state b = (if b = 50 then Some 0 else None)"
proof -
  have h: "holds_block 1 b (bufs commit_state c) \<longleftrightarrow> c = 0 \<and> b = 50" for c
    by (auto simp: holds_block_def commit_state_def commit_bufs_def zero_buf_def)
  have n: "0 < NBUF" by (simp add: NBUF_def MAXOPBLOCKS_def)
  show ?thesis using slot_Some [OF commit_cache, of b] unfolding h by (cases "slot 1 commit_state b") (use n in auto)
qed

lemma commit_rc: "rc 1 commit_state b = (if b = 50 then 1 else 0)"
  by (simp add: rc_def commit_slot) (simp add: commit_state_def)

lemma commit_state_ready: "commit_ready 1 0 1 commit_state" "view 1 commit_state 50 = replicate 1024 7"
proof -
  show v: "view 1 commit_state 50 = replicate 1024 7" by (simp add: view_def commit_slot) (simp add: commit_state_def)
  have "view 1 commit_state b = disk commit_state b" if "b \<noteq> 50" for b using that by (simp add: view_def commit_slot)
  moreover have "binv 1 0 {} commit_state"
  proof -
    have "quiet (lk commit_state)" "c_proc (mycpu_of (lk commit_state)) = Some 0" by (simp_all add: commit_state_def zero_quiet)
    moreover have "sl_locked (slks commit_state x) = 0" for x by (simp add: commit_state_def zero_state_def)
    ultimately show ?thesis using commit_cache by (simp add: binv_def slks_inv_def)
  qed
  moreover have "get32 (replicate 1024 0) 0 = 0" by (simp add: get32_def le_word_zeros)
  moreover have "log_start (logs commit_state) = 2" "log_dev (logs commit_state) = 1" "log_lh (logs commit_state) = \<lparr>lh_n = 1, lh_block = (\<lambda>_. 50)\<rparr>"
    "disk commit_state = (\<lambda>_. replicate 1024 0)" by (simp_all add: commit_state_def zero_state_def)
  moreover have "card {b. rc 1 commit_state b \<noteq> 0} < NBUF" by (simp add: commit_rc NBUF_def MAXOPBLOCKS_def)
  moreover have "log_layout commit_state 1" using calculation by (simp add: log_layout_def log_blockno_def lessThan_Suc)
  ultimately show "commit_ready 1 0 1 commit_state" by (simp add: commit_ready_def commit_rc LOGSIZE_def MAXOPBLOCKS_def log_blockno_def lessThan_Suc)
qed

theorem commit_crash_atomic_witness:
  "commit_ready 1 0 1 commit_state \<and> (\<exists>u r t. run (take 2 (commit_steps 1)) commit_state = (Ret (), u) \<and> rebooted 1 0 r \<and> disk r = disk u
     \<and> initlog 1 (zero_superblock\<lparr>sb_logstart := 2\<rparr>) r = (Ret (), t) \<and> disk t 50 = replicate 1024 7)"
proof -
  obtain u where u: "run (take 2 (commit_steps 1)) commit_state = (Ret (), u)"
    "\<And>q r sb'. rebooted 1 q r \<and> disk r = disk u \<and> sb_logstart sb' = log_start (logs commit_state) \<Longrightarrow>
      \<exists>t. initlog 1 sb' r = (Ret (), t) \<and> (\<forall>b. b \<notin> log_area 1 commit_state \<longrightarrow> disk t b = view 1 commit_state b)"
    using commit_crash_atomic [OF commit_state_ready(1), of 2] by simp blast
  have "quiet (lk (commit_state\<lparr>disk := disk u, bufs := (\<lambda>_. zero_buf)\<rparr>))" "c_proc (mycpu_of (lk (commit_state\<lparr>disk := disk u, bufs := (\<lambda>_. zero_buf)\<rparr>))) = Some 0"
    using commit_readyD(1) [OF commit_state_ready(1)] by (simp_all add: binv_def)
  from binit_law [OF this, of 1] obtain r where r: "rebooted 1 0 r" "disk r = disk u" by (auto simp: zero_buf_def rebooted_def)
  have c: "50 \<notin> log_area 1 commit_state" "log_start (logs commit_state) = 2" by (auto simp: log_area_def log_blockno_def commit_state_def)
  obtain t where "initlog 1 (zero_superblock\<lparr>sb_logstart := 2\<rparr>) r = (Ret (), t)" "disk t 50 = replicate 1024 7"
    using u(2) [of 0 r "zero_superblock\<lparr>sb_logstart := 2\<rparr>"] r c commit_state_ready(2) by auto
  then show ?thesis using u(1) r commit_state_ready(1) by blast
qed

section \<open>The cache is transparent\<close>

text \<open>How the file system writes a block: read it into a buffer, change the buffer, write it, release it.\<close>

definition write_block :: "u32 \<Rightarrow> u32 \<Rightarrow> u8 list \<Rightarrow> unit op" where
  "write_block d bn v = kbind (bread d bn) (\<lambda>b. kthen (modbuf b (\<lambda>x. x\<lparr>b_data := v\<rparr>)) (kthen (bwrite b) (brelse b)))"



end
