(* ===== verification/Xv6_Ulib.thy ===== *)
theory Xv6_Ulib
  imports Xv6_Syscall
begin

text \<open>
  \<^verbatim>\<open>user/ulib.c\<close> and \<^verbatim>\<open>user/printf.c\<close>.

  A user program is an operation on the state \<open>'w\<close> of the rest of the machine. The system calls reach the kernel through
  the stubs in \<^verbatim>\<open>usys.S\<close>, a file that \<^verbatim>\<open>usys.pl\<close> generates; they are the fields of the record \<open>os\<close>, a parameter of
  every program. \<open>exit\<close> and a successful \<open>exec\<close> do not come back and end a run with \<open>Exit\<close> and \<open>Replaced\<close>; a run follows
  one process, so \<open>fork\<close> returns once, as the process that is followed sees it.

  The string functions work on memory. In the programs, a string that is only read is the list of its bytes
  before the NUL, and a pointer into it is the rest of that list.
\<close>

section \<open>System calls (user.h)\<close>

record ustat =
  us_dev :: int
  us_ino :: u32
  us_type :: int
  us_nlink :: int
  us_size :: u64

record uinfo =
  ui_state :: "u8 list"
  ui_parent_pid :: int
  ui_mem_size :: int
  ui_files_count :: int
  ui_proc_name :: "u8 list"
  ui_proc_ticks :: int
  ui_run_time :: int
  ui_context_switches :: int
  ui_user_ticks :: int
  ui_kernel_ticks :: int
  ui_waiting_ticks :: int
  ui_bytes_read :: int
  ui_bytes_write :: int
  ui_pages_count :: int

text \<open>
  A call that fills a buffer returns what it stored together with its result: \<open>os_read\<close> the bytes, \<open>os_wait\<close> the status,
  \<open>os_pipe\<close> the two descriptors, the \<open>ps\<close> calls the pids and the information.
\<close>

record 'w os =
  os_fork :: "('w, int) km"
  os_wait :: "('w, int \<times> int) km"
  os_pipe :: "('w, int \<times> int \<times> int) km"
  os_write :: "int \<Rightarrow> u8 list \<Rightarrow> ('w, int) km"
  os_read :: "int \<Rightarrow> nat \<Rightarrow> ('w, int \<times> u8 list) km"
  os_close :: "int \<Rightarrow> ('w, int) km"
  os_kill :: "int \<Rightarrow> ('w, int) km"
  os_exec :: "u8 list \<Rightarrow> u8 list list \<Rightarrow> ('w, int) km"
  os_open :: "u8 list \<Rightarrow> int \<Rightarrow> ('w, int) km"
  os_mknod :: "u8 list \<Rightarrow> int \<Rightarrow> int \<Rightarrow> ('w, int) km"
  os_unlink :: "u8 list \<Rightarrow> ('w, int) km"
  os_fstat :: "int \<Rightarrow> ('w, int \<times> ustat) km"
  os_link :: "u8 list \<Rightarrow> u8 list \<Rightarrow> ('w, int) km"
  os_mkdir :: "u8 list \<Rightarrow> ('w, int) km"
  os_chdir :: "u8 list \<Rightarrow> ('w, int) km"
  os_dup :: "int \<Rightarrow> ('w, int) km"
  os_sbrk :: "int \<Rightarrow> ('w, u64) km"
  os_sleep :: "int \<Rightarrow> ('w, int) km"
  os_poweroff :: "('w, unit) km"
  os_ps_list :: "int \<Rightarrow> ('w, int \<times> int list) km"
  os_ps_list_global :: "int \<Rightarrow> ('w, int \<times> int list) km"
  os_ps_info :: "int \<Rightarrow> ('w, int \<times> uinfo) km"

definition uexit :: "int \<Rightarrow> ('w, 'a) km" where
  "uexit n = kexc (Exit n)"

abbreviation lit :: "string \<Rightarrow> u8 list" where
  "lit s \<equiv> map of_char s"

section \<open>Strings in memory (ulib.c)\<close>

partial_function (option) ustrcpy :: "memory \<Rightarrow> u64 \<Rightarrow> u64 \<Rightarrow> memory option" where
  "ustrcpy m s t = (let c = m t; m' = m(s := c) in if c \<noteq> 0 then ustrcpy m' (s + 1) (t + 1) else Some m')"

partial_function (option) ustrcmp :: "memory \<Rightarrow> u64 \<Rightarrow> u64 \<Rightarrow> int option" where
  "ustrcmp m p q = (if m p \<noteq> 0 \<and> m p = m q then ustrcmp m (p + 1) (q + 1) else Some (uint (m p) - uint (m q)))"

partial_function (option) ustrlen_from :: "memory \<Rightarrow> u64 \<Rightarrow> nat \<Rightarrow> nat option" where
  "ustrlen_from m s n = (if m (s + of_nat n) \<noteq> 0 then ustrlen_from m s (Suc n) else Some n)"

definition ustrlen :: "memory \<Rightarrow> u64 \<Rightarrow> u32 option" where
  "ustrlen m s = map_option of_nat (ustrlen_from m s 0)"

primrec umemset_n :: "memory \<Rightarrow> u64 \<Rightarrow> u8 \<Rightarrow> nat \<Rightarrow> memory" where
  "umemset_n m dst c 0 = m"
| "umemset_n m dst c (Suc i) = (umemset_n m dst c i)(dst + of_nat i := c)"

definition umemset :: "memory \<Rightarrow> u64 \<Rightarrow> int \<Rightarrow> u32 \<Rightarrow> memory" where
  "umemset m dst c n = umemset_n m dst (of_int c) (unat n)"

partial_function (option) ustrchr :: "memory \<Rightarrow> u64 \<Rightarrow> u8 \<Rightarrow> u64 option option" where
  "ustrchr m s c = (if m s \<noteq> 0 then if m s = c then Some (Some s) else ustrchr m (s + 1) c else Some None)"

primrec ucopy_up :: "memory \<Rightarrow> u64 \<Rightarrow> u64 \<Rightarrow> nat \<Rightarrow> memory" where
  "ucopy_up m dst src 0 = m"
| "ucopy_up m dst src (Suc n) = ucopy_up (m(dst := m src)) (dst + 1) (src + 1) n"

primrec ucopy_down :: "memory \<Rightarrow> u64 \<Rightarrow> u64 \<Rightarrow> nat \<Rightarrow> memory" where
  "ucopy_down m dst src 0 = m"
| "ucopy_down m dst src (Suc n) = ucopy_down (m(dst - 1 := m (src - 1))) (dst - 1) (src - 1) n"

definition umemmove :: "memory \<Rightarrow> u64 \<Rightarrow> u64 \<Rightarrow> int \<Rightarrow> memory" where
  "umemmove m dst src n =
     (if src > dst then ucopy_up m dst src (nat n)
      else ucopy_down m (dst + of_int n) (src + of_int n) (nat n))"

primrec umemcmp_n :: "memory \<Rightarrow> u64 \<Rightarrow> u64 \<Rightarrow> nat \<Rightarrow> int" where
  "umemcmp_n m p1 p2 0 = 0"
| "umemcmp_n m p1 p2 (Suc n) =
     (if m p1 \<noteq> m p2 then uint (m p1) - uint (m p2) else umemcmp_n m (p1 + 1) (p2 + 1) n)"

definition umemcmp :: "memory \<Rightarrow> u64 \<Rightarrow> u64 \<Rightarrow> u32 \<Rightarrow> int" where
  "umemcmp m s1 s2 n = umemcmp_n m s1 s2 (unat n)"

definition umemcpy :: "memory \<Rightarrow> u64 \<Rightarrow> u64 \<Rightarrow> u32 \<Rightarrow> memory" where
  "umemcpy m dst src n = umemmove m dst src (sint n)"

text \<open>\<open>strchr\<close> on a list: the position of the byte.\<close>

primrec strchr_l :: "u8 list \<Rightarrow> u8 \<Rightarrow> nat option" where
  "strchr_l [] c = None"
| "strchr_l (x # s) c = (if x = c then Some 0 else map_option Suc (strchr_l s c))"

section \<open>Input and numbers (ulib.c)\<close>

text \<open>
  \<open>fgets\<close> returns the bytes that it puts in front of the NUL in the buffer.
\<close>

primrec fgets_loop :: "'w os \<Rightarrow> int \<Rightarrow> nat \<Rightarrow> ('w, u8 list) km" where
  "fgets_loop os fd 0 = kret []"
| "fgets_loop os fd (Suc n) =
     kbind (os_read os fd 1) (\<lambda>(cc, bs).
     if cc < 1 then kret [] else
     case bs of [] \<Rightarrow> kexc (Fault ''read'') | c # _ \<Rightarrow>
     if c = 10 \<or> c = 13 then kret [c] else
     kbind (fgets_loop os fd n) (\<lambda>r. kret (c # r)))"

definition fgets :: "'w os \<Rightarrow> int \<Rightarrow> int \<Rightarrow> ('w, u8 list) km" where
  "fgets os fd sz = fgets_loop os fd (nat (sz - 1))"

definition gets :: "'w os \<Rightarrow> int \<Rightarrow> ('w, u8 list) km" where
  "gets os sz = fgets os 0 sz"

definition ustat_of :: "'w os \<Rightarrow> u8 list \<Rightarrow> ('w, int \<times> ustat option) km" where
  "ustat_of os n =
     kbind (os_open os n O_RDONLY) (\<lambda>fd.
     if fd < 0 then kret (- 1, None) else
     kbind (os_fstat os fd) (\<lambda>(r, st).
     kthen (os_close os fd)
     (kret (r, Some st))))"

primrec atoi_loop :: "u32 \<Rightarrow> u8 list \<Rightarrow> u32" where
  "atoi_loop n [] = n"
| "atoi_loop n (c # s) = (if 48 \<le> c \<and> c \<le> 57 then atoi_loop (n * 10 + ucast c - 48) s else n)"

definition atoi :: "u8 list \<Rightarrow> int" where
  "atoi s = sint (atoi_loop 0 s)"

text \<open>The start code of every program.\<close>

definition umain :: "('w, unit) km \<Rightarrow> ('w, unit) km" where
  "umain main' = kthen main' (uexit 0)"

section \<open>Formatted output (printf.c)\<close>

definition uputc :: "'w os \<Rightarrow> int \<Rightarrow> u8 \<Rightarrow> ('w, unit) km" where
  "uputc os fd c = kthen (os_write os fd [c]) (kret ())"

definition udigit :: "nat \<Rightarrow> u8" where
  "udigit i = (if i < 10 then of_nat (48 + i) else of_nat (55 + i))"

text \<open>The digits of \<open>x\<close>, least significant first; the bases are 10 and 16.\<close>

function udigits_rev :: "nat \<Rightarrow> nat \<Rightarrow> u8 list" where
  "udigits_rev base x =
     udigit (x mod base) # (if x div base = 0 \<or> base < 2 then [] else udigits_rev base (x div base))"
  by auto
termination
  by (relation "measure snd") (auto simp: div_eq_0_iff)

definition uprintint_bytes :: "int \<Rightarrow> nat \<Rightarrow> bool \<Rightarrow> u8 list" where
  "uprintint_bytes xx base sg =
     (let neg = (sg \<and> xx < 0);
          x = (if neg then of_int (- xx) else of_int xx) :: u32
      in rev (udigits_rev base (unat x) @ (if neg then [45] else [])))"

definition uprintint :: "'w os \<Rightarrow> int \<Rightarrow> int \<Rightarrow> nat \<Rightarrow> bool \<Rightarrow> ('w, unit) km" where
  "uprintint os fd xx base sg = kfor (uprintint_bytes xx base sg) (uputc os fd)"

primrec uptr_digits :: "nat \<Rightarrow> u64 \<Rightarrow> u8 list" where
  "uptr_digits 0 x = []"
| "uptr_digits (Suc n) x = udigit (unat (drop_bit 60 x)) # uptr_digits n (push_bit 4 x)"

definition uprintptr :: "'w os \<Rightarrow> int \<Rightarrow> u64 \<Rightarrow> ('w, unit) km" where
  "uprintptr os fd x =
     kthen (uputc os fd 48) (kthen (uputc os fd 120) (kfor (uptr_digits 16 x) (uputc os fd)))"

text \<open>
  A variable argument is a string or the contents of a 64-bit register; \<open>va_arg(ap, int)\<close> is its lower half. Taking a
  number for a string or an argument that is not there is a \<open>Fault\<close>.
\<close>

datatype uarg = Aval u64 | Astr "u8 list option"

definition aint :: "int \<Rightarrow> uarg" where
  "aint n = Aval (of_int n)"

definition va_int :: "u64 \<Rightarrow> int" where
  "va_int w = sint (ucast w :: u32)"

text \<open>The conversion \<open>c\<close> after a percent sign.\<close>

definition vconv :: "'w os \<Rightarrow> int \<Rightarrow> u8 \<Rightarrow> uarg list \<Rightarrow> ('w, uarg list) km" where
  "vconv os fd c ap =
     (if c \<in> {100, 108, 120, 112, 99} then
        (case ap of Aval w # rest \<Rightarrow>
           kthen (if c = 100 then uprintint os fd (va_int w) 10 True
                  else if c = 108 then uprintint os fd (va_int w) 10 False
                  else if c = 120 then uprintint os fd (va_int w) 16 False
                  else if c = 112 then uprintptr os fd w
                  else uputc os fd (ucast w))
           (kret rest)
         | _ \<Rightarrow> kexc (Fault ''va_arg''))
      else if c = 115 then
        (case ap of Astr s # rest \<Rightarrow>
           kthen (kfor (case s of None \<Rightarrow> lit ''(null)'' | Some bs \<Rightarrow> bs) (uputc os fd)) (kret rest)
         | _ \<Rightarrow> kexc (Fault ''va_arg''))
      else if c = 37 then kthen (uputc os fd c) (kret ap)
      else kthen (uputc os fd 37) (kthen (uputc os fd c) (kret ap)))"

primrec vprintf_loop :: "'w os \<Rightarrow> int \<Rightarrow> u8 list \<Rightarrow> bool \<Rightarrow> uarg list \<Rightarrow> ('w, unit) km" where
  "vprintf_loop os fd [] pct ap = kret ()"
| "vprintf_loop os fd (c # fmt) pct ap =
     (if \<not> pct then
        if c = 37 then vprintf_loop os fd fmt True ap
        else kthen (uputc os fd c) (vprintf_loop os fd fmt False ap)
      else kbind (vconv os fd c ap) (vprintf_loop os fd fmt False))"

definition vprintf :: "'w os \<Rightarrow> int \<Rightarrow> string \<Rightarrow> uarg list \<Rightarrow> ('w, unit) km" where
  "vprintf os fd fmt ap = vprintf_loop os fd (lit fmt) False ap"

definition ufprintf :: "'w os \<Rightarrow> int \<Rightarrow> string \<Rightarrow> uarg list \<Rightarrow> ('w, unit) km" where
  "ufprintf os fd fmt ap = vprintf os fd fmt ap"

definition uprintf :: "'w os \<Rightarrow> string \<Rightarrow> uarg list \<Rightarrow> ('w, unit) km" where
  "uprintf os fmt ap = vprintf os 1 fmt ap"

section \<open>Files as the programs see them\<close>

text \<open>
  What the programs rely on: \<open>fd\<close> is open for reading and \<open>rem\<close> is what is left to be read from it; \<open>read\<close> delivers
  some of it, in order, and nothing only if there is nothing left or nothing was asked for. \<open>write\<close> to the standard output
  appends all it is given to \<open>out\<close>.
\<close>

definition stdio :: "'w os \<Rightarrow> int \<Rightarrow> ('w \<Rightarrow> u8 list) \<Rightarrow> ('w \<Rightarrow> u8 list) \<Rightarrow> bool" where
  "stdio os fd rem out \<longleftrightarrow>
     (\<forall>n s. \<exists>k t. os_read os fd n s = (Ret (int k, take k (rem s)), t) \<and> k \<le> n \<and> k \<le> length (rem s)
        \<and> (k = 0 \<longrightarrow> n = 0 \<or> rem s = []) \<and> rem t = drop k (rem s) \<and> out t = out s)
   \<and> (\<forall>bs s. \<exists>t. os_write os 1 bs s = (Ret (int (length bs)), t) \<and> rem t = rem s \<and> out t = out s @ bs)"

lemma stdio_read:
  assumes "stdio os fd rem out"
  obtains k t where "os_read os fd n s = (Ret (int k, take k (rem s)), t)" "k \<le> n" "k \<le> length (rem s)" "k = 0 \<Longrightarrow> n = 0 \<or> rem s = []"
    "rem t = drop k (rem s)" "out t = out s"
  using assms unfolding stdio_def by blast

lemma stdio_write:
  assumes "stdio os fd rem out"
  obtains t where "os_write os 1 bs s = (Ret (int (length bs)), t)" "rem t = rem s" "out t = out s @ bs"
  using assms unfolding stdio_def by blast

text \<open>
  A machine on which that holds: the state is the input that is left and the output so far; a read delivers at most
  \<open>c + 1\<close> bytes at a time.
\<close>

definition file_os :: "nat \<Rightarrow> (u8 list \<times> u8 list) os" where
  "file_os c = \<lparr>os_fork = kret (- 1), os_wait = kret (- 1, 0), os_pipe = kret (- 1, 0, 0),
     os_write = (\<lambda>fd bs (i, ob). (Ret (int (length bs)), (i, ob @ bs))),
     os_read = (\<lambda>fd n (i, ob). let k = min (min n (c + 1)) (length i) in (Ret (int k, take k i), (drop k i, ob))),
     os_close = (\<lambda>fd. kret 0), os_kill = (\<lambda>pid. kret (- 1)), os_exec = (\<lambda>p a. kret (- 1)), os_open = (\<lambda>p m. kret 3),
     os_mknod = (\<lambda>p a b. kret (- 1)), os_unlink = (\<lambda>p. kret (- 1)),
     os_fstat = (\<lambda>fd. kret (- 1, \<lparr>us_dev = 0, us_ino = 0, us_type = 0, us_nlink = 0, us_size = 0\<rparr>)),
     os_link = (\<lambda>p q. kret (- 1)), os_mkdir = (\<lambda>p. kret (- 1)), os_chdir = (\<lambda>p. kret (- 1)), os_dup = (\<lambda>fd. kret (- 1)),
     os_sbrk = (\<lambda>n. kret (- 1)), os_sleep = (\<lambda>n. kret 0), os_poweroff = kret (), os_ps_list = (\<lambda>n. kret (- 1, [])),
     os_ps_list_global = (\<lambda>n. kret (- 1, [])),
     os_ps_info = (\<lambda>pid. kret (- 1, \<lparr>ui_state = [], ui_parent_pid = 0, ui_mem_size = 0, ui_files_count = 0, ui_proc_name = [],
       ui_proc_ticks = 0, ui_run_time = 0, ui_context_switches = 0, ui_user_ticks = 0, ui_kernel_ticks = 0, ui_waiting_ticks = 0,
       ui_bytes_read = 0, ui_bytes_write = 0, ui_pages_count = 0\<rparr>))\<rparr>"

lemma file_os_stdio: "stdio (file_os c) fd fst snd"
  unfolding stdio_def by (auto simp: file_os_def Let_def min_def split: if_splits)

section \<open>Searching a string\<close>

lemma strchr_l_less: "strchr_l s c = Some i \<Longrightarrow> i < length s"
  by (induction s arbitrary: i) (auto split: if_splits)

lemma strchr_l_None: "strchr_l s c = None \<longleftrightarrow> c \<notin> set s"
  by (induction s) auto

lemma strchr_l_Some: "strchr_l s c = Some i \<Longrightarrow> s = take i s @ c # drop (Suc i) s \<and> c \<notin> set (take i s)"
  by (induction s arbitrary: i) (auto split: if_splits)

end
