(* ===== verification/Xv6_Utils.thy ===== *)
theory Xv6_Utils
  imports Xv6_Ulib
begin

text \<open>
  The programs \<^verbatim>\<open>cat\<close>, \<^verbatim>\<open>echo\<close>, \<^verbatim>\<open>wc\<close>, \<^verbatim>\<open>kill\<close>, \<^verbatim>\<open>ln\<close>, \<^verbatim>\<open>mkdir\<close>, \<^verbatim>\<open>rm\<close>, \<^verbatim>\<open>ls\<close>, \<^verbatim>\<open>ps\<close>, \<^verbatim>\<open>shutdown\<close>, \<^verbatim>\<open>zombie\<close> and \<^verbatim>\<open>init\<close> of
  \<^verbatim>\<open>src/user\<close>. \<open>argv\<close> is the list of the arguments with the name of the program first. A loop that ends with its input has a
  fuel; running out of it is the outcome \<open>Spin\<close>.
\<close>

section \<open>cat.c\<close>

primrec cat :: "nat \<Rightarrow> 'w os \<Rightarrow> int \<Rightarrow> ('w, unit) km" where
  "cat 0 os fd = kexc Spin"
| "cat (Suc k) os fd =
     kbind (os_read os fd 512) (\<lambda>(n, bs).
     if n > 0 then
       kbind (os_write os 1 bs) (\<lambda>w.
       if w \<noteq> n then kthen (ufprintf os 2 (''cat: write error'' @ [CHR 0x0A]) []) (uexit 1)
       else cat k os fd)
     else if n < 0 then kthen (ufprintf os 2 (''cat: read error'' @ [CHR 0x0A]) []) (uexit 1)
     else kret ())"

definition cat_main :: "nat \<Rightarrow> 'w os \<Rightarrow> u8 list list \<Rightarrow> ('w, unit) km" where
  "cat_main k os argv =
     (if length argv \<le> 1 then kthen (cat k os 0) (uexit 0) else
      kthen (kfor (tl argv) (\<lambda>a.
        kbind (os_open os a 0) (\<lambda>fd.
        if fd < 0 then kthen (ufprintf os 2 (''cat: cannot open %s'' @ [CHR 0x0A]) [Astr (Some a)]) (uexit 1)
        else kthen (cat k os fd) (kthen (os_close os fd) (kret ())))))
      (uexit 0))"

section \<open>echo.c\<close>

definition echo_main :: "'w os \<Rightarrow> u8 list list \<Rightarrow> ('w, unit) km" where
  "echo_main os argv =
     kthen (kfor [1..<length argv] (\<lambda>i.
       kthen (os_write os 1 (argv ! i))
       (if i + 1 < length argv then kthen (os_write os 1 [32]) (kret ())
        else kthen (os_write os 1 [10]) (kret ()))))
     (uexit 0)"

section \<open>wc.c\<close>

record wcst =
  wc_l :: int
  wc_w :: int
  wc_c :: int
  wc_inword :: bool

definition wc_byte :: "u8 \<Rightarrow> wcst \<Rightarrow> wcst" where
  "wc_byte b x =
     (let x = x\<lparr>wc_c := wc_c x + 1\<rparr>;
          x = (if b = 10 then x\<lparr>wc_l := wc_l x + 1\<rparr> else x)
      in if strchr_l [32, 13, 9, 10, 11] b \<noteq> None then x\<lparr>wc_inword := False\<rparr>
         else if \<not> wc_inword x then x\<lparr>wc_w := wc_w x + 1, wc_inword := True\<rparr>
         else x)"

primrec wc_loop :: "nat \<Rightarrow> 'w os \<Rightarrow> int \<Rightarrow> wcst \<Rightarrow> ('w, int \<times> wcst) km" where
  "wc_loop 0 os fd x = kexc Spin"
| "wc_loop (Suc k) os fd x =
     kbind (os_read os fd 512) (\<lambda>(n, bs).
     if n > 0 then wc_loop k os fd (fold wc_byte bs x) else kret (n, x))"

definition wc :: "nat \<Rightarrow> 'w os \<Rightarrow> int \<Rightarrow> u8 list \<Rightarrow> ('w, unit) km" where
  "wc k os fd name =
     kbind (wc_loop k os fd \<lparr>wc_l = 0, wc_w = 0, wc_c = 0, wc_inword = False\<rparr>) (\<lambda>(n, x).
     if n < 0 then kthen (uprintf os (''wc: read error'' @ [CHR 0x0A]) []) (uexit 1)
     else uprintf os (''%d %d %d %s'' @ [CHR 0x0A]) [aint (wc_l x), aint (wc_w x), aint (wc_c x), Astr (Some name)])"

definition wc_main :: "nat \<Rightarrow> 'w os \<Rightarrow> u8 list list \<Rightarrow> ('w, unit) km" where
  "wc_main k os argv =
     (if length argv \<le> 1 then kthen (wc k os 0 []) (uexit 0) else
      kthen (kfor (tl argv) (\<lambda>a.
        kbind (os_open os a 0) (\<lambda>fd.
        if fd < 0 then kthen (uprintf os (''wc: cannot open %s'' @ [CHR 0x0A]) [Astr (Some a)]) (uexit 1)
        else kthen (wc k os fd a) (kthen (os_close os fd) (kret ())))))
      (uexit 0))"

section \<open>kill.c, ln.c, mkdir.c, rm.c, shutdown.c, zombie.c\<close>

definition kill_main :: "'w os \<Rightarrow> u8 list list \<Rightarrow> ('w, unit) km" where
  "kill_main os argv =
     (if length argv < 2 then kthen (ufprintf os 2 (''usage: kill pid...'' @ [CHR 0x0A]) []) (uexit 1) else
      kthen (kfor (tl argv) (\<lambda>a. kthen (os_kill os (atoi a)) (kret ()))) (uexit 0))"

definition ln_main :: "'w os \<Rightarrow> u8 list list \<Rightarrow> ('w, unit) km" where
  "ln_main os argv =
     (if length argv \<noteq> 3 then kthen (ufprintf os 2 (''Usage: ln old new'' @ [CHR 0x0A]) []) (uexit 1) else
      kbind (os_link os (argv ! 1) (argv ! 2)) (\<lambda>r.
      kthen (kwhen (r < 0) (ufprintf os 2 (''link %s %s: failed'' @ [CHR 0x0A]) [Astr (Some (argv ! 1)), Astr (Some (argv ! 2))]))
      (uexit 0)))"

text \<open>The loop of \<open>mkdir\<close> and \<open>rm\<close>, which stops at the first failure.\<close>

primrec mkdir_loop :: "'w os \<Rightarrow> u8 list list \<Rightarrow> ('w, unit) km" where
  "mkdir_loop os [] = kret ()"
| "mkdir_loop os (a # as) =
     kbind (os_mkdir os a) (\<lambda>r.
     if r < 0 then ufprintf os 2 (''mkdir: %s failed to create'' @ [CHR 0x0A]) [Astr (Some a)]
     else mkdir_loop os as)"

definition mkdir_main :: "'w os \<Rightarrow> u8 list list \<Rightarrow> ('w, unit) km" where
  "mkdir_main os argv =
     (if length argv < 2 then kthen (ufprintf os 2 (''Usage: mkdir files...'' @ [CHR 0x0A]) []) (uexit 1) else
      kthen (mkdir_loop os (tl argv)) (uexit 0))"

primrec rm_loop :: "'w os \<Rightarrow> u8 list list \<Rightarrow> ('w, unit) km" where
  "rm_loop os [] = kret ()"
| "rm_loop os (a # as) =
     kbind (os_unlink os a) (\<lambda>r.
     if r < 0 then ufprintf os 2 (''rm: %s failed to delete'' @ [CHR 0x0A]) [Astr (Some a)]
     else rm_loop os as)"

definition rm_main :: "'w os \<Rightarrow> u8 list list \<Rightarrow> ('w, unit) km" where
  "rm_main os argv =
     (if length argv < 2 then kthen (ufprintf os 2 (''Usage: rm files...'' @ [CHR 0x0A]) []) (uexit 1) else
      kthen (rm_loop os (tl argv)) (uexit 0))"

definition shutdown_main :: "'w os \<Rightarrow> ('w, unit) km" where
  "shutdown_main os = kthen (os_poweroff os) (uexit 0)"

definition zombie_main :: "'w os \<Rightarrow> ('w, unit) km" where
  "zombie_main os =
     kbind (os_fork os) (\<lambda>pid.
     kthen (kwhen (pid > 0) (kthen (os_sleep os 5) (kret ())))
     (uexit 0))"

section \<open>init.c\<close>

definition init_console :: "'w os \<Rightarrow> ('w, unit) km" where
  "init_console os =
     kbind (os_open os (lit ''console'') O_RDWR) (\<lambda>fd.
     kthen (kwhen (fd < 0) (
       kthen (os_mknod os (lit ''console'') 1 0)
       (kthen (os_open os (lit ''console'') O_RDWR) (kret ())))) (
     kthen (os_dup os 0) (
     kthen (os_dup os 0)
     (kret ()))))"

primrec init_wait :: "nat \<Rightarrow> 'w os \<Rightarrow> int \<Rightarrow> ('w, unit) km" where
  "init_wait 0 os pid = kexc Spin"
| "init_wait (Suc k) os pid =
     kbind (os_wait os) (\<lambda>(wpid, _).
     if wpid = pid then kret ()
     else if wpid < 0 then kthen (uprintf os (''init: wait returned an error'' @ [CHR 0x0A]) []) (uexit 1)
     else init_wait k os pid)"

primrec init_loop :: "nat \<Rightarrow> nat \<Rightarrow> 'w os \<Rightarrow> ('w, unit) km" where
  "init_loop 0 k os = kexc Spin"
| "init_loop (Suc j) k os =
     kthen (uprintf os (''init: starting sh'' @ [CHR 0x0A]) []) (
     kbind (os_fork os) (\<lambda>pid.
     if pid < 0 then kthen (uprintf os (''init: fork failed'' @ [CHR 0x0A]) []) (uexit 1)
     else if pid = 0 then
       kthen (os_exec os (lit ''sh'') [lit ''sh'']) (
       kthen (uprintf os (''init: exec sh failed'' @ [CHR 0x0A]) [])
       (uexit 1))
     else kthen (init_wait k os pid) (init_loop j k os)))"

definition init_main :: "nat \<Rightarrow> nat \<Rightarrow> 'w os \<Rightarrow> ('w, unit) km" where
  "init_main j k os = kthen (init_console os) (init_loop j k os)"

section \<open>ls.c\<close>

definition fmtname :: "u8 list \<Rightarrow> u8 list" where
  "fmtname path =
     (let p = rev (takeWhile (\<lambda>c. c \<noteq> 47) (rev path))
      in if length p \<ge> DIRSIZ then p else p @ replicate (DIRSIZ - length p) 32)"

text \<open>One directory entry of 16 bytes, read into \<open>de\<close>.\<close>

definition ls_entry :: "'w os \<Rightarrow> u8 list \<Rightarrow> u8 list \<Rightarrow> ('w, unit) km" where
  "ls_entry os path de =
     (if get16 de 0 = 0 then kret () else
      let buf = path @ [47] @ cstr (take DIRSIZ (drop 2 de)) in
      kbind (ustat_of os buf) (\<lambda>(r, st).
      case st of
        Some st \<Rightarrow>
          if r < 0 then uprintf os (''ls: cannot stat %s'' @ [CHR 0x0A]) [Astr (Some buf)]
          else uprintf os (''%s %d %d %d'' @ [CHR 0x0A])
            [Astr (Some (fmtname buf)), aint (us_type st), Aval (ucast (us_ino st)), Aval (us_size st)]
      | None \<Rightarrow> uprintf os (''ls: cannot stat %s'' @ [CHR 0x0A]) [Astr (Some buf)]))"

primrec ls_dir :: "nat \<Rightarrow> 'w os \<Rightarrow> int \<Rightarrow> u8 list \<Rightarrow> ('w, unit) km" where
  "ls_dir 0 os fd path = kexc Spin"
| "ls_dir (Suc k) os fd path =
     kbind (os_read os fd 16) (\<lambda>(n, de).
     if n = 16 then kthen (ls_entry os path de) (ls_dir k os fd path) else kret ())"

definition ls :: "nat \<Rightarrow> 'w os \<Rightarrow> u8 list \<Rightarrow> ('w, unit) km" where
  "ls k os path =
     kbind (os_open os path 0) (\<lambda>fd.
     if fd < 0 then ufprintf os 2 (''ls: cannot open %s'' @ [CHR 0x0A]) [Astr (Some path)] else
     kbind (os_fstat os fd) (\<lambda>(r, st).
     if r < 0 then
       kthen (ufprintf os 2 (''ls: cannot stat %s'' @ [CHR 0x0A]) [Astr (Some path)]) (kthen (os_close os fd) (kret ()))
     else
       kthen (if us_type st = T_DEVICE \<or> us_type st = T_FILE then
                uprintf os (''%s %d %d %l'' @ [CHR 0x0A])
                  [Astr (Some (fmtname path)), aint (us_type st), Aval (ucast (us_ino st)), Aval (us_size st)]
              else if us_type st = T_DIR then
                if length path + 1 + DIRSIZ + 1 > 512 then uprintf os (''ls: path too long'' @ [CHR 0x0A]) []
                else ls_dir k os fd path
              else kret ())
       (kthen (os_close os fd) (kret ()))))"

definition ls_main :: "nat \<Rightarrow> 'w os \<Rightarrow> u8 list list \<Rightarrow> ('w, unit) km" where
  "ls_main k os argv =
     (if length argv < 2 then kthen (ls k os [46]) (uexit 0) else kthen (kfor (tl argv) (ls k os)) (uexit 0))"

section \<open>ps.c\<close>

definition process_count :: "'w os \<Rightarrow> ('w, unit) km" where
  "process_count os =
     kbind (os_ps_list os (- 1)) (\<lambda>(count_ps, _).
     if count_ps = - 1 then kthen (uprintf os (''Error count'' @ [CHR 0x0A]) []) (uexit (- 1))
     else uprintf os (''%d'' @ [CHR 0x0A]) [aint count_ps])"

text \<open>What an array of \<open>n\<close> integers, filled with -1, holds after a call has stored \<open>xs\<close>.\<close>

definition filled :: "nat \<Rightarrow> int list \<Rightarrow> int list" where
  "filled n xs = take n xs @ replicate (n - length xs) (- 1)"

definition process_pids :: "'w os \<Rightarrow> ('w, unit) km" where
  "process_pids os =
     kbind (os_ps_list os (- 1)) (\<lambda>(limit, _).
     if limit < 0 then kexc (Fault ''pids[limit]'') else
     kbind (os_ps_list os limit) (\<lambda>(count_ps, xs).
     if count_ps = - 1 then kthen (uprintf os (''ps_list: internal error'' @ [CHR 0x0A]) []) (uexit (- 1))
     else
       kthen (uprintf os (''Total: %d'' @ [CHR 0x0A]) [aint count_ps]) (
       kthen (uprintf os ([CHR 0x0A] @ ''Pids:'' @ [CHR 0x0A]) []) (
       kthen (kfor (filled (nat limit) xs) (\<lambda>p. uprintf os ''%d '' [aint p]))
       (uprintf os [CHR 0x0A] [])))))"

definition ps_format :: string where
  "ps_format =
     ''info about pid = %d in namespace %d:'' @ [CHR 0x0A] @ ''state -> %s'' @ [CHR 0x0A] @ ''PPID -> %d'' @ [CHR 0x0A] @
     ''mem -> %d bytes'' @ [CHR 0x0A] @ ''files_count -> %d'' @ [CHR 0x0A] @ ''name -> %s'' @ [CHR 0x0A] @
     ''/////TIME/////:'' @ [CHR 0x0A] @ ''proc_ticks -> %d'' @ [CHR 0x0A] @ ''run_time -> %d'' @ [CHR 0x0A] @
     ''context_switches -> %d'' @ [CHR 0x0A] @ ''user -> %d'' @ [CHR 0x0A] @ ''kernel -> %d'' @ [CHR 0x0A] @
     ''waiting -> %d'' @ [CHR 0x0A] @ ''/////MEMINFO/////:'' @ [CHR 0x0A] @ ''read -> %d'' @ [CHR 0x0A] @
     ''write -> %d'' @ [CHR 0x0A] @ ''pages -> %d'' @ [CHR 0x0A] @ ''ps_info return value -> %d'' @ [CHR 0x0A, CHR 0x0A]"

definition process_show :: "'w os \<Rightarrow> int \<Rightarrow> int \<Rightarrow> ('w, unit) km" where
  "process_show os pid pid_ns =
     kbind (os_ps_info os pid) (\<lambda>(res, x).
     if res = - 1 then uprintf os (''ps_info: cannot get info about global pid = %d'' @ [CHR 0x0A, CHR 0x0A]) [aint pid]
     else uprintf os ps_format
       [aint pid, aint pid_ns, Astr (Some (cstr (ui_state x))), aint (ui_parent_pid x), aint (ui_mem_size x),
        aint (ui_files_count x), Astr (Some (cstr (ui_proc_name x))), aint (ui_proc_ticks x), aint (ui_run_time x),
        aint (ui_context_switches x), aint (ui_user_ticks x), aint (ui_kernel_ticks x), aint (ui_waiting_ticks x),
        aint (ui_bytes_read x), aint (ui_bytes_write x), aint (ui_pages_count x), aint res])"

definition process_list :: "'w os \<Rightarrow> ('w, unit) km" where
  "process_list os =
     kbind (os_ps_list_global os 100) (\<lambda>(count_ps, xs).
     kthen (kwhen (count_ps < 0) (uprintf os (''ps_list (global): internal error'' @ [CHR 0x0A]) [])) (
     if count_ps > 100 then kthen (uprintf os (''ps_list: too many processes'' @ [CHR 0x0A]) []) (uexit (- 1)) else
     kbind (os_ps_list os 100) (\<lambda>(res, ys).
     kthen (kwhen (res < 0) (uprintf os (''ps_list (namespace): internal error'' @ [CHR 0x0A]) []))
     (kfor [0..<nat count_ps] (\<lambda>i. process_show os (filled 100 xs ! i) (filled 100 ys ! i))))))"

definition ps_main :: "'w os \<Rightarrow> u8 list list \<Rightarrow> ('w, unit) km" where
  "ps_main os argv =
     (if length argv \<noteq> 2 then
        kthen (uprintf os (''Argument_ERROR: use '' @ [CHR 0x22] @ ''ps count'' @ [CHR 0x22] @ '', '' @ [CHR 0x22] @ ''ps pids'' @ [CHR 0x22]
          @ '' or '' @ [CHR 0x22] @ ''ps list'' @ [CHR 0x22, CHR 0x0A]) []) (uexit 0)
      else
        kthen (if argv ! 1 = lit ''count'' then process_count os
               else if argv ! 1 = lit ''pids'' then process_pids os
               else if argv ! 1 = lit ''list'' then process_list os
               else kthen (uprintf os (''Unknown command: ps %s'' @ [CHR 0x0A]) [Astr (Some (argv ! 1))]) (uexit 1))
        (uexit 0))"

end
