(* ===== verification/Xv6_UtilProps.thy ===== *)
theory Xv6_UtilProps
  imports Xv6_Utils
begin

text \<open>
  What the user's \<open>printf\<close> writes, that \<open>atoi\<close> reads it back, and what \<open>wc\<close> and \<open>cat\<close> do with their input.
\<close>

declare udigits_rev.simps [simp del]

section \<open>Output\<close>

definition prints :: "('w \<Rightarrow> u8 list) \<Rightarrow> ('w \<Rightarrow> u8 list) \<Rightarrow> u8 list \<Rightarrow> ('w, 'a) km \<Rightarrow> bool" where
  "prints rem out bs m \<longleftrightarrow> (\<forall>s. \<exists>a t. m s = (Ret a, t) \<and> rem t = rem s \<and> out t = out s @ bs)"

lemma prints_kret: "prints rem out [] (kret a)"
  by (simp add: prints_def)

lemma prints_kthen: "prints rem out bs m \<Longrightarrow> prints rem out cs n \<Longrightarrow> prints rem out (bs @ cs) (kthen m n)"
  unfolding prints_def by (metis append.assoc kthen_Ret)

lemma prints_uputc: "stdio os fd rem out \<Longrightarrow> prints rem out [c] (uputc os 1 c)"
  unfolding prints_def uputc_def using stdio_write [of os fd rem out "[c]"] by (metis kret_apply kthen_Ret)

lemma prints_kfor: "stdio os fd rem out \<Longrightarrow> prints rem out bs (kfor bs (uputc os 1))"
proof (induction bs)
  case (Cons b bs)
  then show ?case using prints_kthen [OF prints_uputc [OF Cons.prems, of b] Cons.IH [OF Cons.prems]] by simp
qed (simp add: prints_kret)

text \<open>The text of a conversion with the arguments that are left, and of a format.\<close>

definition uconv :: "u8 \<Rightarrow> uarg list \<Rightarrow> (u8 list \<times> uarg list) option" where
  "uconv c ap =
     (if c \<in> {100, 108, 120, 112, 99} then
        (case ap of Aval w # rest \<Rightarrow>
           Some (if c = 100 then uprintint_bytes (va_int w) 10 True
                 else if c = 108 then uprintint_bytes (va_int w) 10 False
                 else if c = 120 then uprintint_bytes (va_int w) 16 False
                 else if c = 112 then [48, 120] @ uptr_digits 16 w
                 else [ucast w], rest)
         | _ \<Rightarrow> None)
      else if c = 115 then
        (case ap of Astr s # rest \<Rightarrow> Some (case s of None \<Rightarrow> lit ''(null)'' | Some bs \<Rightarrow> bs, rest) | _ \<Rightarrow> None)
      else if c = 37 then Some ([c], ap)
      else Some ([37, c], ap))"

primrec uformat :: "u8 list \<Rightarrow> bool \<Rightarrow> uarg list \<Rightarrow> u8 list option" where
  "uformat [] pct ap = Some []"
| "uformat (c # fmt) pct ap =
     (if \<not> pct then if c = 37 then uformat fmt True ap else map_option ((#) c) (uformat fmt False ap)
      else case uconv c ap of None \<Rightarrow> None | Some (bs, rest) \<Rightarrow> map_option ((@) bs) (uformat fmt False rest))"

lemma prints_uprintptr: "stdio os fd rem out \<Longrightarrow> prints rem out ([48, 120] @ uptr_digits 16 w) (uprintptr os 1 w)"
  using prints_kthen [OF prints_uputc [of os fd rem out 48] prints_kthen [OF prints_uputc [of os fd rem out 120] prints_kfor [of os fd rem out "uptr_digits 16 w"]]]
  by (simp add: uprintptr_def del: uptr_digits.simps)

lemma vconv_eq:
  assumes "stdio os fd rem out" "uconv c ap = Some (bs, rest)"
  shows "\<exists>t. vconv os 1 c ap s = (Ret rest, t) \<and> rem t = rem s \<and> out t = out s @ bs"
proof -
  have go: "\<exists>t. kthen m (kret rest) s = (Ret rest, t) \<and> rem t = rem s \<and> out t = out s @ bs" if pr: "prints rem out bs m" for m :: "('a, unit) km"
  proof -
    obtain a t where "m s = (Ret a, t)" "rem t = rem s" "out t = out s @ bs" using pr unfolding prints_def by blast
    then show ?thesis by simp
  qed
  consider (val) "c \<in> {100, 108, 120, 112, 99}" | (str) "c = 115" | (pct) "c = 37" | (other) "c \<notin> {100, 108, 120, 112, 99, 115, 37}" by auto
  then show ?thesis
  proof cases
    case val
    then obtain w where ap: "ap = Aval w # rest" using assms(2) by (auto simp: uconv_def split: list.splits uarg.splits)
    define m where "m = (if c = 100 then uprintint os 1 (va_int w) 10 True else if c = 108 then uprintint os 1 (va_int w) 10 False
      else if c = 120 then uprintint os 1 (va_int w) 16 False else if c = 112 then uprintptr os 1 w else uputc os 1 (ucast w))"
    have "prints rem out bs m" using val assms(2) ap prints_kfor [OF assms(1)] prints_uputc [OF assms(1)] prints_uprintptr [OF assms(1), of w]
      by (auto simp: m_def uconv_def uprintint_def simp del: uptr_digits.simps)
    moreover have "vconv os 1 c ap = kthen m (kret rest)" using val ap by (simp add: vconv_def m_def)
    ultimately show ?thesis using go by simp
  next
    case str
    then obtain x where ap: "ap = Astr x # rest" "bs = (case x of None \<Rightarrow> lit ''(null)'' | Some bs \<Rightarrow> bs)"
      using assms(2) by (auto simp: uconv_def split: list.splits uarg.splits)
    then show ?thesis using str go [OF prints_kfor [OF assms(1)]] by (simp add: vconv_def)
  next
    case pct
    then show ?thesis using assms(2) go [of "uputc os 1 c"] prints_uputc [OF assms(1), of c] by (simp add: vconv_def uconv_def)
  next
    case other
    then show ?thesis using assms(2) go [of "kthen (uputc os 1 37) (uputc os 1 c)"]
        prints_kthen [OF prints_uputc [OF assms(1), of 37] prints_uputc [OF assms(1), of c]] by (simp add: vconv_def uconv_def)
  qed
qed

lemma vprintf_loop_eq:
  assumes "stdio os fd rem out"
  shows "uformat fmt pct ap = Some bs \<Longrightarrow> \<exists>t. vprintf_loop os 1 fmt pct ap s = (Ret (), t) \<and> rem t = rem s \<and> out t = out s @ bs"
proof (induction fmt arbitrary: pct ap bs s)
  case (Cons c fmt)
  show ?case
  proof (cases pct)
    case True
    then obtain cs rest ds where c: "uconv c ap = Some (cs, rest)" "uformat fmt False rest = Some ds" "bs = cs @ ds"
      using Cons.prems by (auto split: option.splits)
    obtain t where t: "vconv os 1 c ap s = (Ret rest, t)" "rem t = rem s" "out t = out s @ cs" using vconv_eq [OF assms c(1)] by blast
    show ?thesis using Cons.IH [OF c(2), of t] t c(3) True by auto
  next
    case False
    show ?thesis
    proof (cases "c = 37")
      case True
      then show ?thesis using Cons.IH [of True ap bs s] Cons.prems False by simp
    next
      case c: False
      then obtain ds where d: "uformat fmt False ap = Some ds" "bs = c # ds" using Cons.prems False by auto
      obtain a t where t: "uputc os 1 c s = (Ret a, t)" "rem t = rem s" "out t = out s @ [c]"
        using prints_uputc [OF assms, of c] unfolding prints_def by blast
      show ?thesis using Cons.IH [OF d(1), of t] t d(2) c False by auto
    qed
  qed
qed simp

lemma uprintf_eq:
  assumes "stdio os fd rem out" "uformat (lit fmt) False ap = Some bs"
  shows "\<exists>t. uprintf os fmt ap s = (Ret (), t) \<and> rem t = rem s \<and> out t = out s @ bs"
  using vprintf_loop_eq [OF assms] by (simp add: uprintf_def vprintf_def)

section \<open>Decimal numbers\<close>

fun dec :: "nat \<Rightarrow> u8 list" where
  "dec n = (if n < 10 then [of_nat (48 + n)] else dec (n div 10) @ [of_nat (48 + n mod 10)])"

declare dec.simps [simp del]

lemma udigits_dec: "rev (udigits_rev 10 n) = dec n"
proof (induction n rule: dec.induct)
  case (1 n)
  show ?case
  proof (cases "n < 10")
    case True
    then show ?thesis by (simp add: udigits_rev.simps dec.simps [of n] udigit_def)
  next
    case False
    then have "n div 10 \<noteq> 0" by (simp add: div_eq_0_iff)
    then show ?thesis using 1 [OF False] False by (simp add: udigits_rev.simps [of 10 n] dec.simps [of n] udigit_def)
  qed
qed

lemma uprintint_dec: "n < 2147483648 \<Longrightarrow> uprintint_bytes (int n) 10 True = dec n"
  by (simp add: uprintint_bytes_def udigits_dec)

lemma va_int_aint: "n < 2147483648 \<Longrightarrow> va_int (of_int (int n)) = int n"
proof -
  assume n: "n < 2147483648"
  have "(ucast (of_int (int n) :: u64) :: u32) = of_int (int n)" using n by (simp add: unsigned_of_nat take_bit_nat_eq_self)
  then show ?thesis using n by (simp add: va_int_def signed_of_nat signed_take_bit_int_eq_self)
qed

lemma atoi_digit:
  assumes "d < 10"
  shows "atoi_loop a (of_nat (48 + d) # r) = atoi_loop (a * 10 + of_nat d) r"
proof -
  define e where "e = 48 + d"
  have e: "e < 256" "48 \<le> e" "e \<le> 57" using assms by (simp_all add: e_def)
  have "unat (of_nat e :: u8) = e" using e(1) by (simp add: unat_of_nat)
  then have "48 \<le> (of_nat e :: u8)" "(of_nat e :: u8) \<le> 57" using e by (simp_all add: word_le_nat_alt)
  moreover have "(ucast (of_nat e :: u8) :: u32) = of_nat e" using e(1) by (simp add: unsigned_of_nat take_bit_nat_eq_self)
  ultimately have "atoi_loop a (of_nat e # r) = atoi_loop (a * 10 + of_nat e - 48) r" by simp
  then show ?thesis by (simp add: e_def)
qed

lemma atoi_dec: "atoi_loop a (dec n @ r) = atoi_loop (a * 10 ^ length (dec n) + of_nat n) r"
proof (induction n arbitrary: a r rule: dec.induct)
  case (1 n)
  show ?case
  proof (cases "n < 10")
    case True
    then show ?thesis by (simp add: dec.simps [of n] atoi_digit del: of_nat_add atoi_loop.simps)
  next
    case False
    have n: "of_nat n = of_nat (n div 10) * 10 + (of_nat (n mod 10) :: u32)"
      by (metis div_mult_mod_eq of_nat_add of_nat_mult of_nat_numeral)
    have e: "(a * 10 ^ k + of_nat (n div 10)) * 10 + of_nat (n mod 10) = a * 10 ^ Suc k + (of_nat n :: u32)" for k
      unfolding n by (simp add: algebra_simps)
    have "atoi_loop a (dec n @ r) = atoi_loop ((a * 10 ^ length (dec (n div 10)) + of_nat (n div 10)) * 10 + of_nat (n mod 10)) r"
      using 1 [OF False] False by (simp add: dec.simps [of n] atoi_digit del: of_nat_add atoi_loop.simps)
    then show ?thesis unfolding e using False by (simp add: dec.simps [of n])
  qed
qed

text \<open>
  C31. \<open>atoi\<close> reads back what \<open>printf\<close> writes for \<open>%d\<close>: for every non-negative C \<open>int\<close>, whatever follows the digits, as
  long as it is not a digit itself.
\<close>

theorem atoi_reads_printint:
  assumes "n < 2147483648" "r = [] \<or> \<not> (48 \<le> hd r \<and> hd r \<le> 57)"
  shows "atoi (uprintint_bytes (int n) 10 True @ r) = int n"
proof -
  have "atoi_loop m r = m" for m using assms(2) by (cases r) auto
  then show ?thesis using assms(1) atoi_dec [of 0 n r] by (simp add: atoi_def uprintint_dec signed_of_nat signed_take_bit_int_eq_self)
qed

theorem atoi_reads_printint_witness:
  "uprintint_bytes 2147483647 10 True = lit ''2147483647'' \<and> atoi (lit ''2147483647 x'') = 2147483647"
proof -
  have u: "uprintint_bytes 2147483647 10 True = lit ''2147483647''" by (simp add: uprintint_bytes_def udigits_rev.simps udigit_def)
  then show ?thesis using atoi_reads_printint [of 2147483647 "lit '' x''"] by simp
qed

section \<open>Counting\<close>

definition blank :: "u8 \<Rightarrow> bool" where
  "blank b \<longleftrightarrow> b \<in> {32, 13, 9, 10, 11}"

text \<open>The number of places where a word starts.\<close>

definition word_count :: "u8 list \<Rightarrow> nat" where
  "word_count cs = card {i. i < length cs \<and> \<not> blank (cs ! i) \<and> (i = 0 \<or> blank (cs ! (i - 1)))}"

lemma word_count_snoc:
  "word_count (cs @ [b]) = word_count cs + (if \<not> blank b \<and> (cs = [] \<or> blank (last cs)) then 1 else 0)"
proof -
  let ?S = "\<lambda>cs. {i. i < length cs \<and> \<not> blank (cs ! i) \<and> (i = 0 \<or> blank (cs ! (i - 1)))}"
  have "?S (cs @ [b]) = ?S cs \<union> (if \<not> blank b \<and> (cs = [] \<or> blank (last cs)) then {length cs} else {})"
  proof (cases "cs = []")
    case False
    then have "last cs = cs ! (length cs - 1)" "length cs - 1 < length cs" by (simp_all add: last_conv_nth)
    then show ?thesis using False by (auto simp: nth_append less_Suc_eq split: if_splits)
  qed auto
  then show ?thesis by (auto simp: word_count_def card_insert_if)
qed

lemma word_count_le: "word_count cs \<le> length cs"
proof -
  have "{i. i < length cs \<and> \<not> blank (cs ! i) \<and> (i = 0 \<or> blank (cs ! (i - 1)))} \<subseteq> {..<length cs}" by auto
  from card_mono [OF finite_lessThan this] show ?thesis by (simp add: word_count_def)
qed

lemma wc_fold:
  "fold wc_byte cs \<lparr>wc_l = 0, wc_w = 0, wc_c = 0, wc_inword = False\<rparr>
    = \<lparr>wc_l = int (count_list cs 10), wc_w = int (word_count cs), wc_c = int (length cs), wc_inword = (cs \<noteq> [] \<and> \<not> blank (last cs))\<rparr>"
proof (induction cs rule: rev_induct)
  case Nil
  show ?case by (simp add: word_count_def)
next
  case (snoc b cs)
  have "strchr_l [32, 13, 9, 10, 11] b \<noteq> None \<longleftrightarrow> blank b" by (auto simp: blank_def)
  then show ?case using snoc by (auto simp: wc_byte_def Let_def word_count_snoc blank_def)
qed

lemma wc_loop_eq:
  assumes io: "stdio os fd rem out"
  shows "length (rem s) < k \<Longrightarrow> \<exists>t. wc_loop k os fd x s = (Ret (0, fold wc_byte (rem s) x), t) \<and> out t = out s"
proof (induction k arbitrary: s x)
  case (Suc k)
  obtain j t where t: "os_read os fd 512 s = (Ret (int j, take j (rem s)), t)" "j \<le> length (rem s)" "j = 0 \<Longrightarrow> rem s = []"
      "rem t = drop j (rem s)" "out t = out s"
    using stdio_read [OF io, of 512 s] by (metis zero_neq_numeral)
  show ?case
  proof (cases "j = 0")
    case True
    then show ?thesis using t by simp
  next
    case False
    have "length (rem t) = length (rem s) - j" using t(4) by simp
    then have "length (rem t) < k" using Suc.prems t(2) False by linarith
    moreover have "fold wc_byte (rem t) (fold wc_byte (take j (rem s)) x) = fold wc_byte (rem s) x"
      unfolding t(4) by (metis append_take_drop_id comp_apply fold_append)
    ultimately show ?thesis using Suc.IH [of t "fold wc_byte (take j (rem s)) x"] t(1,5) False by auto
  qed
qed simp

text \<open>
  C30. \<open>wc\<close> counts: for an input of less than 2 GiB, however the reads cut it into pieces, it prints the number of newlines, the number
  of words, which are the places where a byte that is not blank is first or follows a blank, and the number of bytes.
\<close>

theorem wc_counts:
  assumes "stdio os fd rem out" "length (rem s) < k" "length (rem s) < 2147483648"
  shows "\<exists>t. wc k os fd name s = (Ret (), t) \<and> out t = out s @ dec (count_list (rem s) 10) @ [32] @ dec (word_count (rem s)) @ [32]
    @ dec (length (rem s)) @ [32] @ name @ [10]"
proof -
  let ?l = "count_list (rem s) 10" and ?w = "word_count (rem s)" and ?c = "length (rem s)"
  obtain t where t: "wc_loop k os fd \<lparr>wc_l = 0, wc_w = 0, wc_c = 0, wc_inword = False\<rparr> s
      = (Ret (0, \<lparr>wc_l = int ?l, wc_w = int ?w, wc_c = int ?c, wc_inword = (rem s \<noteq> [] \<and> \<not> blank (last (rem s)))\<rparr>), t)" "out t = out s"
    using wc_loop_eq [OF assms(1,2), of "\<lparr>wc_l = 0, wc_w = 0, wc_c = 0, wc_inword = False\<rparr>"] unfolding wc_fold by blast
  have "?l \<le> ?c" by (rule count_le_length)
  moreover have "?w \<le> ?c" by (rule word_count_le)
  ultimately have n: "?l < 2147483648" "?w < 2147483648" using assms(3) by simp_all
  have "uformat (lit (''%d %d %d %s'' @ [CHR 0x0A])) False [aint (int ?l), aint (int ?w), aint (int ?c), Astr (Some name)]
      = Some (dec ?l @ [32] @ dec ?w @ [32] @ dec ?c @ [32] @ name @ [10])"
    using n assms(3) va_int_aint [of ?l] va_int_aint [of ?w] va_int_aint [of ?c] uprintint_dec [of ?l] uprintint_dec [of ?w] uprintint_dec [of ?c]
    by (simp add: uconv_def aint_def)
  from uprintf_eq [OF assms(1) this, of t] show ?thesis using t by (auto simp: wc_def)
qed

theorem wc_counts_witness:
  "stdio (file_os 2) 0 fst snd \<and> (\<exists>t. wc 20 (file_os 2) 0 (lit ''f'') (lit ''ab  c'' @ [10] @ lit ''d'', []) = (Ret (), t) \<and> snd t = lit ''1 3 7 f'' @ [10])"
proof -
  let ?i = "lit ''ab  c'' @ [10] @ lit ''d''"
  have w: "word_count ?i = 3" using wc_fold [of ?i] by (simp add: wc_byte_def Let_def)
  have i: "count_list ?i 10 = 1" "length ?i = 7" by simp_all
  have d: "dec 1 = lit ''1''" "dec 3 = lit ''3''" "dec 7 = lit ''7''" by (simp_all add: dec.simps)
  have "\<exists>t. wc 20 (file_os 2) 0 (lit ''f'') (?i, []) = (Ret (), t) \<and> snd t = lit ''1 3 7 f'' @ [10]"
    using wc_counts [OF file_os_stdio [of 2 0], of "(?i, [])" 20 "lit ''f''"] unfolding fst_conv snd_conv i w d by simp
  then show ?thesis using file_os_stdio by blast
qed

section \<open>Copying\<close>

text \<open>\<open>cat\<close> copies what is left of its input to the standard output.\<close>

lemma cat_copies:
  assumes io: "stdio os fd rem out"
  shows "length (rem s) < k \<Longrightarrow> \<exists>t. cat k os fd s = (Ret (), t) \<and> out t = out s @ rem s \<and> rem t = []"
proof (induction k arbitrary: s)
  case (Suc k)
  obtain j t where t: "os_read os fd 512 s = (Ret (int j, take j (rem s)), t)" "j \<le> length (rem s)" "j = 0 \<Longrightarrow> rem s = []"
      "rem t = drop j (rem s)" "out t = out s"
    using stdio_read [OF io, of 512 s] by (metis zero_neq_numeral)
  show ?case
  proof (cases "j = 0")
    case True
    then show ?thesis using t by simp
  next
    case False
    obtain u where u: "os_write os 1 (take j (rem s)) t = (Ret (int (length (take j (rem s)))), u)" "rem u = rem t" "out u = out t @ take j (rem s)"
      using stdio_write [OF io, of "take j (rem s)" t] by auto
    have "length (rem u) = length (rem s) - j" using t(4) u(2) by simp
    then have "length (rem u) < k" using Suc.prems t(2) False by linarith
    from Suc.IH [OF this] show ?thesis using t u False by auto
  qed
qed simp

end
