(* ===== verification/Xv6_Grep.thy ===== *)
theory Xv6_Grep
  imports Xv6_Ulib
begin

text \<open>
  \<^verbatim>\<open>user/grep.c\<close>: the matcher, against the language of a pattern, and the loop over the lines of the input.
\<close>

section \<open>The code\<close>

function matchhere :: "u8 list \<Rightarrow> u8 list \<Rightarrow> bool" and matchstar :: "u8 \<Rightarrow> u8 list \<Rightarrow> u8 list \<Rightarrow> bool" where
  "matchhere [] line = True"
| "matchhere [c] line =
     (if c = 36 then line = []
      else case line of [] \<Rightarrow> False | t # ts \<Rightarrow> (c = 46 \<or> c = t) \<and> matchhere [] ts)"
| "matchhere (c # d # re) line =
     (if d = 42 then matchstar c re line
      else case line of [] \<Rightarrow> False | t # ts \<Rightarrow> (c = 46 \<or> c = t) \<and> matchhere (d # re) ts)"
| "matchstar c re line =
     (matchhere re line \<or> (case line of [] \<Rightarrow> False | t # ts \<Rightarrow> (t = c \<or> c = 46) \<and> matchstar c re ts))"
  by pat_completeness auto
termination
  by (relation "inv_image (less_than <*lex*> less_than <*lex*> less_than)
      (\<lambda>x. case x of Inl (re, line) \<Rightarrow> (length re, length line, 0 :: nat) | Inr (c, re, line) \<Rightarrow> (length re, length line, 1))") auto

primrec match_from :: "u8 list \<Rightarrow> u8 list \<Rightarrow> bool" where
  "match_from re [] = matchhere re []"
| "match_from re (t # ts) = (matchhere re (t # ts) \<or> match_from re ts)"

definition match :: "u8 list \<Rightarrow> u8 list \<Rightarrow> bool" where
  "match re line = (case re of c # re' \<Rightarrow> if c = 94 then matchhere re' line else match_from re line | [] \<Rightarrow> match_from re line)"

text \<open>
  The inner loop of \<open>grep\<close> on the bytes \<open>p\<close> that are left in the buffer; it returns what remains after the last newline.
\<close>

function grep_lines :: "'w os \<Rightarrow> u8 list \<Rightarrow> u8 list \<Rightarrow> ('w, u8 list) km" where
  "grep_lines os pat p =
     (case strchr_l (cstr p) 10 of
        None \<Rightarrow> kret p
      | Some i \<Rightarrow>
          kthen (if match pat (take i p) then kthen (os_write os 1 (take (i + 1) p)) (kret ()) else kret ())
          (grep_lines os pat (drop (i + 1) p)))"
  by auto
termination
proof (relation "measure (\<lambda>(os, pat, p). length p)", goal_cases)
  case (2 os pat p i)
  then have "i < length (cstr p)" by (simp add: strchr_l_less)
  also have "\<dots> \<le> length p" by (simp add: cstr_def length_takeWhile_le)
  finally show ?case by simp
qed simp

primrec grep :: "nat \<Rightarrow> 'w os \<Rightarrow> u8 list \<Rightarrow> int \<Rightarrow> u8 list \<Rightarrow> ('w, unit) km" where
  "grep 0 os pat fd b = kexc Spin"
| "grep (Suc k) os pat fd b =
     kbind (os_read os fd (1024 - length b - 1)) (\<lambda>(n, bs).
     if n > 0 then kbind (grep_lines os pat (b @ bs)) (grep k os pat fd) else kret ())"

definition grep_main :: "nat \<Rightarrow> 'w os \<Rightarrow> u8 list list \<Rightarrow> ('w, unit) km" where
  "grep_main k os argv =
     (if length argv \<le> 1 then kthen (ufprintf os 2 (''usage: grep pattern [file ...]'' @ [CHR 0x0A]) []) (uexit 1)
      else if length argv \<le> 2 then kthen (grep k os (argv ! 1) 0 []) (uexit 0)
      else
        kthen (kfor (drop 2 argv) (\<lambda>a.
          kbind (os_open os a 0) (\<lambda>fd.
          if fd < 0 then kthen (uprintf os (''grep: cannot open %s'' @ [CHR 0x0A]) [Astr (Some a)]) (uexit 1)
          else kthen (grep k os (argv ! 1) fd []) (kthen (os_close os fd) (kret ())))))
        (uexit 0))"

declare grep_lines.simps [simp del] matchhere.simps [simp del] matchstar.simps [simp del]

section \<open>The language of a pattern\<close>

datatype rx = One u8 | Many u8

text \<open>A dot stands for any byte.\<close>

definition fits :: "u8 \<Rightarrow> u8 \<Rightarrow> bool" where
  "fits c x \<longleftrightarrow> c = 46 \<or> c = x"

fun items :: "u8 list \<Rightarrow> rx list" where
  "items [] = []"
| "items [c] = (if c = 36 then [] else [One c])"
| "items (c # d # re) = (if d = 42 then Many c # items re else One c # items (d # re))"

text \<open>Whether the pattern ends in a dollar sign that is not itself repeated.\<close>

fun at_end :: "u8 list \<Rightarrow> bool" where
  "at_end [] = False"
| "at_end [c] = (c = 36)"
| "at_end (c # d # re) = (if d = 42 then at_end re else at_end (d # re))"

primrec lang :: "rx list \<Rightarrow> u8 list set" where
  "lang [] = {[]}"
| "lang (r # rs) = (case r of
     One c \<Rightarrow> {x # w | x w. fits c x \<and> w \<in> lang rs}
   | Many c \<Rightarrow> {v @ w | v w. (\<forall>x \<in> set v. fits c x) \<and> w \<in> lang rs})"

definition matches :: "u8 list \<Rightarrow> u8 list \<Rightarrow> bool" where
  "matches re line \<longleftrightarrow> (\<exists>u v. line = u @ v \<and> u \<in> lang (items re) \<and> (at_end re \<longrightarrow> v = []))"

lemma matchesI: "line = u @ v \<Longrightarrow> u \<in> lang (items re) \<Longrightarrow> (at_end re \<Longrightarrow> v = []) \<Longrightarrow> matches re line"
  unfolding matches_def by blast

lemma ex_split: "(\<exists>u v. t # ts = u @ v \<and> P u v) \<longleftrightarrow> P [] (t # ts) \<or> (\<exists>u v. ts = u @ v \<and> P (t # u) v)"
proof -
  have "t # ts = u @ v \<longleftrightarrow> u = [] \<and> v = t # ts \<or> (\<exists>w. u = t # w \<and> ts = w @ v)" for u v by (cases u) auto
  then show ?thesis by (simp only:) auto
qed

lemma matchstar_eq:
  assumes "\<And>t. matchhere re t = matches re t"
  shows "matchstar c re line \<longleftrightarrow> (\<exists>u v. line = u @ v \<and> (\<forall>x \<in> set u. fits c x) \<and> matches re v)"
proof (induction line)
  case Nil
  show ?case by (simp add: matchstar.simps assms)
next
  case (Cons t ts)
  then show ?case by (subst matchstar.simps) (auto simp: assms fits_def ex_split)
qed

lemma matches_Many: "matches (c # 42 # re) line \<longleftrightarrow> (\<exists>u v. line = u @ v \<and> (\<forall>x \<in> set u. fits c x) \<and> matches re v)"
proof
  assume "matches (c # 42 # re) line"
  then obtain y w where y: "line = y @ w" "y \<in> lang (items (c # 42 # re))" "at_end re \<longrightarrow> w = []" unfolding matches_def by auto
  then obtain u v where "y = u @ v" "\<forall>x \<in> set u. fits c x" "v \<in> lang (items re)" by auto
  then have "line = u @ v @ w" "\<forall>x \<in> set u. fits c x" "v \<in> lang (items re)" "at_end re \<longrightarrow> w = []" using y by simp_all
  then show "\<exists>u v. line = u @ v \<and> (\<forall>x \<in> set u. fits c x) \<and> matches re v" unfolding matches_def by blast
next
  assume "\<exists>u v. line = u @ v \<and> (\<forall>x \<in> set u. fits c x) \<and> matches re v"
  then obtain u v w where w: "line = (u @ v) @ w" "\<forall>x \<in> set u. fits c x" "v \<in> lang (items re)" "at_end re \<longrightarrow> w = []"
    unfolding matches_def by auto
  then have "u @ v \<in> lang (items (c # 42 # re))" by auto
  then show "matches (c # 42 # re) line" by (rule matchesI [OF w(1)]) (use w(4) in simp)
qed

lemma matches_One: "d \<noteq> 42 \<Longrightarrow> matches (c # d # re) line \<longleftrightarrow> (\<exists>t ts. line = t # ts \<and> fits c t \<and> matches (d # re) ts)"
proof
  assume d: "d \<noteq> 42" and "matches (c # d # re) line"
  then obtain y v where y: "line = y @ v" "y \<in> lang (items (c # d # re))" "at_end (d # re) \<longrightarrow> v = []" unfolding matches_def by auto
  then obtain x u where "y = x # u" "fits c x" "u \<in> lang (items (d # re))" using d by auto
  then have "line = x # u @ v" "fits c x" "u \<in> lang (items (d # re))" "at_end (d # re) \<longrightarrow> v = []" using y by simp_all
  then show "\<exists>t ts. line = t # ts \<and> fits c t \<and> matches (d # re) ts" unfolding matches_def by blast
next
  assume d: "d \<noteq> 42" and "\<exists>t ts. line = t # ts \<and> fits c t \<and> matches (d # re) ts"
  then obtain x u v where x: "line = (x # u) @ v" "fits c x" "u \<in> lang (items (d # re))" "at_end (d # re) \<longrightarrow> v = []"
    unfolding matches_def by auto
  then have "x # u \<in> lang (items (c # d # re))" using d by simp
  then show "matches (c # d # re) line" by (rule matchesI [OF x(1)]) (use x(4) d in simp)
qed

lemma matchhere_eq: "matchhere re line = matches re line"
proof (induction re arbitrary: line rule: items.induct)
  case 1
  show ?case by (simp add: matchhere.simps matches_def)
next
  case (2 c)
  show ?case by (cases line) (auto simp: matchhere.simps matches_def ex_split fits_def)
next
  case (3 c d re)
  show ?case
  proof (cases "d = 42")
    case True
    then show ?thesis using matchstar_eq [OF 3(1) [OF True]] by (simp add: matchhere.simps matches_Many)
  next
    case False
    then show ?thesis using 3(2) [OF False] by (cases line) (auto simp: matchhere.simps matches_One fits_def)
  qed
qed

lemma match_from_eq: "match_from re line \<longleftrightarrow> (\<exists>u v. line = u @ v \<and> matches re v)"
proof (induction line)
  case (Cons t ts)
  then show ?case by (simp add: matchhere_eq ex_split)
qed (simp add: matchhere_eq)

text \<open>
  C27. The matcher of \<open>grep\<close> decides membership in the language of the pattern: a byte stands for itself, a dot for any byte, a
  byte or dot followed by a star for any number of them; a leading circumflex ties the match to the start of the text and
  a final dollar sign to its end.
\<close>

theorem match_decides:
  "match re line \<longleftrightarrow> (if re \<noteq> [] \<and> hd re = 94 then matches (tl re) line else \<exists>u v. line = u @ v \<and> matches re v)"
  by (cases re) (auto simp: match_def matchhere_eq match_from_eq)

section \<open>The lines of the input\<close>

text \<open>The lines that end in \<open>cs\<close> after \<open>acc\<close> has been read, and what follows the last of them.\<close>

primrec lines_from :: "u8 list \<Rightarrow> u8 list \<Rightarrow> u8 list list" where
  "lines_from acc [] = []"
| "lines_from acc (c # cs) = (if c = 10 then acc # lines_from [] cs else lines_from (acc @ [c]) cs)"

primrec rest_from :: "u8 list \<Rightarrow> u8 list \<Rightarrow> u8 list" where
  "rest_from acc [] = acc"
| "rest_from acc (c # cs) = (if c = 10 then rest_from [] cs else rest_from (acc @ [c]) cs)"

text \<open>No line is longer than the buffer.\<close>

primrec short_lines :: "u8 list \<Rightarrow> u8 list \<Rightarrow> bool" where
  "short_lines acc [] = True"
| "short_lines acc (c # cs) = (if c = 10 then short_lines [] cs else length acc < 1022 \<and> short_lines (acc @ [c]) cs)"

definition selected :: "u8 list \<Rightarrow> u8 list list \<Rightarrow> u8 list" where
  "selected pat ls = concat (map (\<lambda>l. l @ [10]) (filter (match pat) ls))"

lemma lines_append:
  "lines_from acc (xs @ ys) = lines_from acc xs @ lines_from (rest_from acc xs) ys"
  "rest_from acc (xs @ ys) = rest_from (rest_from acc xs) ys"
  "short_lines acc (xs @ ys) \<longleftrightarrow> short_lines acc xs \<and> short_lines (rest_from acc xs) ys"
  by (induction xs arbitrary: acc) auto

lemma lines_partial: "10 \<notin> set xs \<Longrightarrow> lines_from acc xs = [] \<and> rest_from acc xs = acc @ xs"
  by (induction xs arbitrary: acc) auto

lemma rest_no_newline: "10 \<notin> set acc \<Longrightarrow> 10 \<notin> set (rest_from acc xs)"
  by (induction xs arbitrary: acc) auto

lemma rest_subset: "set (rest_from acc xs) \<subseteq> set acc \<union> set xs"
proof (induction xs arbitrary: acc)
  case (Cons c cs)
  show ?case using Cons [of "[]"] Cons [of "acc @ [c]"] by auto
qed simp

lemma rest_short: "short_lines acc xs \<Longrightarrow> length acc \<le> 1022 \<Longrightarrow> length (rest_from acc xs) \<le> 1022"
  by (induction xs arbitrary: acc) (simp_all split: if_splits)

lemma selected_simps [simp]:
  "selected pat [] = []" "selected pat (l # ls) = (if match pat l then l @ [10] else []) @ selected pat ls"
  "selected pat (ls @ ms) = selected pat ls @ selected pat ms"
  by (simp_all add: selected_def)

lemma grep_lines_eq:
  assumes "stdio os fd rem out" "0 \<notin> set p"
  shows "\<exists>t. grep_lines os pat p s = (Ret (rest_from [] p), t) \<and> rem t = rem s \<and> out t = out s @ selected pat (lines_from [] p)"
  using assms(2)
proof (induction "length p" arbitrary: p s rule: less_induct)
  case less
  have c: "cstr p = p" using less.prems by (auto simp: cstr_def takeWhile_eq_all_conv)
  show ?case
  proof (cases "strchr_l p 10")
    case None
    then have "10 \<notin> set p" by (simp add: strchr_l_None)
    then show ?thesis using None c lines_partial [of p "[]"] by (simp add: grep_lines.simps)
  next
    case (Some i)
    define l q where "l = take i p" "q = drop (Suc i) p"
    have p: "p = l @ 10 # q" "10 \<notin> set l" using strchr_l_Some [OF Some] by (simp_all add: l_q_def)
    have li: "length l = i" using strchr_l_less [OF Some] by (simp add: l_q_def)
    have ti: "take (i + 1) p = l @ [10]" by (subst p(1)) (simp add: li [symmetric])
    obtain t where t: "os_write os 1 (l @ [10]) s = (Ret (int (length (l @ [10]))), t)" "rem t = rem s" "out t = out s @ l @ [10]"
      using stdio_write [OF assms(1), of "l @ [10]" s] by auto
    have q: "length q < length p" "0 \<notin> set q" using p less.prems by auto
    note IH = less.hyps [OF q]
    have ls: "lines_from [] p = l # lines_from [] q" "rest_from [] p = rest_from [] q"
      using lines_partial [OF p(2), of "[]"] by (simp_all add: p(1) lines_append)
    have "grep_lines os pat p s = (if match pat l then grep_lines os pat q t else grep_lines os pat q s)"
      using Some c t(1) ti by (subst grep_lines.simps) (simp add: l_q_def)
    then show ?thesis using IH [of t] IH [of s] t(2,3) ls by (cases "match pat l") auto
  qed
qed

lemma grep_eq:
  assumes io: "stdio os fd rem out"
  shows "length (rem s) < k \<Longrightarrow> 10 \<notin> set b \<Longrightarrow> 0 \<notin> set (b @ rem s) \<Longrightarrow> length b \<le> 1022 \<Longrightarrow> short_lines b (rem s) \<Longrightarrow>
    \<exists>t. grep k os pat fd b s = (Ret (), t) \<and> out t = out s @ selected pat (lines_from b (rem s))"
proof (induction k arbitrary: b s)
  case (Suc k)
  obtain j t where t: "os_read os fd (1024 - length b - 1) s = (Ret (int j, take j (rem s)), t)" "j \<le> length (rem s)"
      "j = 0 \<Longrightarrow> 1024 - length b - 1 = 0 \<or> rem s = []" "rem t = drop j (rem s)" "out t = out s"
    using stdio_read [OF io, of "1024 - length b - 1" s] by metis
  show ?case
  proof (cases "j = 0")
    case True
    then have "rem s = []" using t(3) Suc.prems(4) by auto
    then show ?thesis using t True by auto
  next
    case False
    define bs r where "bs = take j (rem s)" "r = rest_from b bs"
    have rs: "rem s = bs @ rem t" using t(4) by (simp add: bs_r_def(1))
    have z: "0 \<notin> set (b @ bs)" using Suc.prems(3) rs by auto
    obtain u where u: "grep_lines os pat (b @ bs) t = (Ret (rest_from [] (b @ bs)), u)" "rem u = rem t"
        "out u = out t @ selected pat (lines_from [] (b @ bs))"
      using grep_lines_eq [OF io z, of pat t] by auto
    have lb: "rest_from [] (b @ bs) = r" "lines_from [] (b @ bs) = lines_from b bs"
      using lines_partial [OF Suc.prems(2), of "[]"] by (simp_all add: lines_append bs_r_def(2))
    have sh: "short_lines b bs" "short_lines r (rem t)" using Suc.prems(5) unfolding rs lines_append bs_r_def(2) by simp_all
    have r: "10 \<notin> set r" "0 \<notin> set (r @ rem t)" "length r \<le> 1022"
      using rest_no_newline [OF Suc.prems(2)] rest_subset [of b bs] rest_short [OF sh(1)] Suc.prems(3,4) unfolding rs bs_r_def(2) by auto
    have "length (rem t) = length (rem s) - j" using t(4) by simp
    then have lt: "length (rem t) < k" using Suc.prems(1) t(2) False by linarith
    obtain w where w: "grep k os pat fd r u = (Ret (), w)" "out w = out u @ selected pat (lines_from r (rem t))"
      using Suc.IH [of u r] r sh(2) u(2) lt by auto
    have "lines_from b (rem s) = lines_from b bs @ lines_from r (rem t)" unfolding rs lines_append bs_r_def(2) by simp
    moreover have "grep (Suc k) os pat fd b s = (Ret (), w)"
      using t(1) False u(1) w(1) lb by (simp add: bs_r_def(1) [symmetric])
    ultimately show ?thesis using w(2) u(3) t(5) lb by auto
  qed
qed simp

text \<open>
  C28. \<open>grep\<close> prints the lines that match. If the input has no NUL and no line longer than 1022 bytes, then, however the reads cut
  it into pieces, \<open>grep\<close> ends and has written exactly the lines that match the pattern, each with its newline, in order; bytes
  after the last newline are never looked at.
\<close>

theorem grep_prints_matching:
  assumes "stdio os fd rem out" "0 \<notin> set (rem s)" "short_lines [] (rem s)" "length (rem s) < k"
  shows "\<exists>t. grep k os pat fd [] s = (Ret (), t) \<and> out t = out s @ concat (map (\<lambda>l. l @ [10]) (filter (match pat) (lines_from [] (rem s))))"
  using grep_eq [OF assms(1,4), of "[]" pat] assms(2,3) by (simp add: selected_def)

theorem grep_prints_matching_witness:
  "stdio (file_os 2) 0 fst snd \<and> (\<exists>t. grep 12 (file_os 2) (lit ''a*b$'') 0 [] (lit ''aab'' @ [10] @ lit ''c'' @ [10] @ lit ''b'' @ [10] @ lit ''ab'', []) = (Ret (), t)
     \<and> snd t = lit ''aab'' @ [10] @ lit ''b'' @ [10])"
proof -
  let ?i = "lit ''aab'' @ [10] @ lit ''c'' @ [10] @ lit ''b'' @ [10] @ lit ''ab''"
  have l: "lines_from [] ?i = [lit ''aab'', lit ''c'', lit ''b'']" by simp
  have "match (lit ''a*b$'') (lit ''aab'')" "\<not> match (lit ''a*b$'') (lit ''c'')" "match (lit ''a*b$'') (lit ''b'')"
    by (simp_all add: match_def matchhere.simps matchstar.simps)
  then show ?thesis
    using grep_prints_matching [OF file_os_stdio, of "(?i, [])" 12 2 "lit ''a*b$''" 0] file_os_stdio l by auto
qed

end
