(* ===== verification/Xv6_Sh.thy ===== *)
theory Xv6_Sh
  imports Xv6_Ulib
begin

text \<open>
  \<^verbatim>\<open>user/sh.c\<close>: the parser, the interpreter and the main loop.

  The line is the list \<open>s\<close> of its bytes before the NUL; the pointers \<open>*ps\<close>, \<open>q\<close>, \<open>eq\<close> are positions in it, and a word of a
  command is a pair of positions until \<open>nulterminate\<close> has put NULs behind the words. The nodes of a command that
  \<open>malloc\<close> provides are values of \<open>cmd\<close>; a command always exists, so the tests for a null command have no counterpart.
  \<open>parseexec\<close> collects redirections before it has all the arguments; as the node of the command is in place from the start
  in the code, the redirections are kept in a list here and put around the node at the end.
  The recursive descent has a fuel, of which \<open>parsecmd\<close> provides four units per byte.
\<close>

section \<open>Commands\<close>

definition MAXARGS :: nat where "MAXARGS = 10"

datatype cmd =
    EXEC "(nat \<times> nat) list"
  | REDIR cmd nat nat int int
  | PIPE cmd cmd
  | LIST cmd cmd
  | BACK cmd

definition upanic :: "'w os \<Rightarrow> string \<Rightarrow> ('w, 'a) km" where
  "upanic os msg = kthen (ufprintf os 2 (''%s'' @ [CHR 0x0A]) [Astr (Some (lit msg))]) (uexit 1)"

definition fork1 :: "'w os \<Rightarrow> ('w, int) km" where
  "fork1 os = kbind (os_fork os) (\<lambda>pid. if pid = - 1 then upanic os ''fork'' else kret pid)"

section \<open>Tokens\<close>

definition whitespace :: "u8 list" where "whitespace = [32, 9, 13, 10, 11]"

definition symbols :: "u8 list" where "symbols = [60, 124, 62, 38, 59, 40, 41]"

definition char_at :: "u8 list \<Rightarrow> nat \<Rightarrow> u8" where
  "char_at s i = (if i < length s then s ! i else 0)"

definition skip_white :: "u8 list \<Rightarrow> nat \<Rightarrow> nat" where
  "skip_white s i = i + length (takeWhile (\<lambda>c. strchr_l whitespace c \<noteq> None) (drop i s))"

definition skip_word :: "u8 list \<Rightarrow> nat \<Rightarrow> nat" where
  "skip_word s i = i + length (takeWhile (\<lambda>c. strchr_l whitespace c = None \<and> strchr_l symbols c = None) (drop i s))"

text \<open>The token, its start and end, and the position behind it.\<close>

definition gettoken :: "u8 list \<Rightarrow> nat \<Rightarrow> u8 \<times> nat \<times> nat \<times> nat" where
  "gettoken s i =
     (let q = skip_white s i;
          c = char_at s q;
          (ret, eq) =
            (if c = 0 then (c, q)
             else if c \<in> {124, 40, 41, 59, 38, 60} then (c, q + 1)
             else if c = 62 then if char_at s (q + 1) = 62 then (43, q + 2) else (c, q + 1)
             else (97, skip_word s q))
      in (ret, q, eq, skip_white s eq))"

definition peek :: "u8 list \<Rightarrow> nat \<Rightarrow> u8 list \<Rightarrow> bool \<times> nat" where
  "peek s i toks = (let i = skip_white s i; c = char_at s i in (c \<noteq> 0 \<and> strchr_l toks c \<noteq> None, i))"

section \<open>The parser\<close>

type_synonym redir = "nat \<times> nat \<times> int \<times> int"

definition redirect :: "cmd \<Rightarrow> redir list \<Rightarrow> cmd" where
  "redirect c rs = foldl (\<lambda>c (q, eq, mode, fd). REDIR c q eq mode fd) c rs"

text \<open>The mode and the descriptor of a redirection.\<close>

definition redir_mode :: "u8 \<Rightarrow> int \<times> int" where
  "redir_mode tok =
     (if tok = 60 then (O_RDONLY, 0)
      else if tok = 62 then (O_WRONLY + O_CREATE + O_TRUNC, 1)
      else (O_WRONLY + O_CREATE, 1))"

primrec parseredirs :: "nat \<Rightarrow> 'w os \<Rightarrow> u8 list \<Rightarrow> nat \<Rightarrow> ('w, redir list \<times> nat) km" where
  "parseredirs 0 os s i = kexc Spin"
| "parseredirs (Suc k) os s i =
     (case peek s i [60, 62] of (p, i) \<Rightarrow>
      if \<not> p then kret ([], i) else
      case gettoken s i of (tok, _, _, i) \<Rightarrow>
      case gettoken s i of (tok2, q, eq, i) \<Rightarrow>
      if tok2 \<noteq> 97 then upanic os ''missing file for redirection'' else
      kbind (parseredirs k os s i) (\<lambda>(rs, i).
      kret ((q, eq, fst (redir_mode tok), snd (redir_mode tok)) # rs, i)))"

text \<open>The loop of \<open>parseexec\<close>.\<close>

primrec parseargs ::
    "nat \<Rightarrow> 'w os \<Rightarrow> u8 list \<Rightarrow> nat \<Rightarrow> (nat \<times> nat) list \<Rightarrow> redir list \<Rightarrow> ('w, (nat \<times> nat) list \<times> redir list \<times> nat) km" where
  "parseargs 0 os s i args rs = kexc Spin"
| "parseargs (Suc k) os s i args rs =
     (case peek s i [124, 41, 38, 59] of (p, i) \<Rightarrow>
      if p then kret (args, rs, i) else
      case gettoken s i of (tok, q, eq, i) \<Rightarrow>
      if tok = 0 then kret (args, rs, i)
      else if tok \<noteq> 97 then upanic os ''syntax''
      else if length args + 1 \<ge> MAXARGS then upanic os ''too many args''
      else
        kbind (parseredirs (Suc (length s)) os s i) (\<lambda>(rs', i).
        parseargs k os s i (args @ [(q, eq)]) (rs @ rs')))"

text \<open>The loop of \<open>parseline\<close> over ampersands.\<close>

primrec parsebacks :: "nat \<Rightarrow> u8 list \<Rightarrow> cmd \<Rightarrow> nat \<Rightarrow> ('w, cmd \<times> nat) km" where
  "parsebacks 0 s c i = kexc Spin"
| "parsebacks (Suc k) s c i =
     (case peek s i [38] of (p, i) \<Rightarrow>
      if \<not> p then kret (c, i) else
      case gettoken s i of (_, _, _, i) \<Rightarrow> parsebacks k s (BACK c) i)"

text \<open>
  The functions of the recursive descent call each other through \<open>f\<close>; \<open>parse\<close> ties the knot.
\<close>

datatype pfun = Parseline | Parsepipe | Parseexec | Parseblock

definition parseline :: "(pfun \<Rightarrow> nat \<Rightarrow> ('w, cmd \<times> nat) km) \<Rightarrow> u8 list \<Rightarrow> nat \<Rightarrow> ('w, cmd \<times> nat) km" where
  "parseline f s i =
     kbind (f Parsepipe i) (\<lambda>(c, i).
     kbind (parsebacks (Suc (length s)) s c i) (\<lambda>(c, i).
     case peek s i [59] of (p, i) \<Rightarrow>
     if \<not> p then kret (c, i) else
     case gettoken s i of (_, _, _, i) \<Rightarrow>
     kbind (f Parseline i) (\<lambda>(r, i).
     kret (LIST c r, i))))"

definition parsepipe :: "(pfun \<Rightarrow> nat \<Rightarrow> ('w, cmd \<times> nat) km) \<Rightarrow> u8 list \<Rightarrow> nat \<Rightarrow> ('w, cmd \<times> nat) km" where
  "parsepipe f s i =
     kbind (f Parseexec i) (\<lambda>(c, i).
     case peek s i [124] of (p, i) \<Rightarrow>
     if \<not> p then kret (c, i) else
     case gettoken s i of (_, _, _, i) \<Rightarrow>
     kbind (f Parsepipe i) (\<lambda>(r, i).
     kret (PIPE c r, i)))"

definition parseblock :: "(pfun \<Rightarrow> nat \<Rightarrow> ('w, cmd \<times> nat) km) \<Rightarrow> 'w os \<Rightarrow> u8 list \<Rightarrow> nat \<Rightarrow> ('w, cmd \<times> nat) km" where
  "parseblock f os s i =
     (case peek s i [40] of (p, i) \<Rightarrow>
      if \<not> p then upanic os ''parseblock'' else
      case gettoken s i of (_, _, _, i) \<Rightarrow>
      kbind (f Parseline i) (\<lambda>(c, i).
      case peek s i [41] of (p, i) \<Rightarrow>
      if \<not> p then upanic os ''syntax - missing )'' else
      case gettoken s i of (_, _, _, i) \<Rightarrow>
      kbind (parseredirs (Suc (length s)) os s i) (\<lambda>(rs, i).
      kret (redirect c rs, i))))"

definition parseexec :: "(pfun \<Rightarrow> nat \<Rightarrow> ('w, cmd \<times> nat) km) \<Rightarrow> 'w os \<Rightarrow> u8 list \<Rightarrow> nat \<Rightarrow> ('w, cmd \<times> nat) km" where
  "parseexec f os s i =
     (case peek s i [40] of (p, i) \<Rightarrow>
      if p then f Parseblock i else
      kbind (parseredirs (Suc (length s)) os s i) (\<lambda>(rs, i).
      kbind (parseargs (Suc (length s)) os s i [] rs) (\<lambda>(args, rs, i).
      kret (redirect (EXEC args) rs, i))))"

primrec parse :: "nat \<Rightarrow> 'w os \<Rightarrow> u8 list \<Rightarrow> pfun \<Rightarrow> nat \<Rightarrow> ('w, cmd \<times> nat) km" where
  "parse 0 os s nt i = kexc Spin"
| "parse (Suc n) os s nt i =
     (case nt of
        Parseline \<Rightarrow> parseline (parse n os s) s i
      | Parsepipe \<Rightarrow> parsepipe (parse n os s) s i
      | Parseexec \<Rightarrow> parseexec (parse n os s) os s i
      | Parseblock \<Rightarrow> parseblock (parse n os s) os s i)"

text \<open>The buffer after \<open>nulterminate\<close>.\<close>

primrec nulterminate :: "cmd \<Rightarrow> u8 list \<Rightarrow> u8 list" where
  "nulterminate (EXEC args) b = fold (\<lambda>(q, eq) b. b[eq := 0]) args b"
| "nulterminate (REDIR c q eq mode fd) b = (nulterminate c b)[eq := 0]"
| "nulterminate (PIPE l r) b = nulterminate r (nulterminate l b)"
| "nulterminate (LIST l r) b = nulterminate r (nulterminate l b)"
| "nulterminate (BACK c) b = nulterminate c b"

definition parsecmd :: "'w os \<Rightarrow> u8 list \<Rightarrow> ('w, cmd \<times> u8 list) km" where
  "parsecmd os s =
     kbind (parse (4 * Suc (length s)) os s Parseline 0) (\<lambda>(c, i).
     case peek s i [] of (_, i) \<Rightarrow>
     if i \<noteq> length s then
       kthen (ufprintf os 2 (''leftovers: %s'' @ [CHR 0x0A]) [Astr (Some (drop i s))]) (upanic os ''syntax'')
     else kret (c, nulterminate c (s @ [0])))"

section \<open>The interpreter\<close>

definition word_at :: "u8 list \<Rightarrow> nat \<Rightarrow> u8 list" where
  "word_at b q = cstr (drop q b)"

primrec runcmd :: "'w os \<Rightarrow> u8 list \<Rightarrow> cmd \<Rightarrow> ('w, unit) km" where
  "runcmd os b (EXEC args) =
     (case args of
        [] \<Rightarrow> uexit 1
      | (q, _) # _ \<Rightarrow>
          kthen (os_exec os (word_at b q) (map (\<lambda>(q, _). word_at b q) args)) (
          kthen (ufprintf os 2 (''exec %s failed'' @ [CHR 0x0A]) [Astr (Some (word_at b q))])
          (uexit 0)))"
| "runcmd os b (REDIR c q eq mode fd) =
     kthen (os_close os fd) (
     kbind (os_open os (word_at b q) mode) (\<lambda>r.
     if r < 0 then
       kthen (ufprintf os 2 (''open %s failed'' @ [CHR 0x0A]) [Astr (Some (word_at b q))]) (uexit 1)
     else kthen (runcmd os b c) (uexit 0)))"
| "runcmd os b (PIPE l r) =
     kbind (os_pipe os) (\<lambda>(res, p0, p1).
     if res < 0 then upanic os ''pipe'' else
     kbind (fork1 os) (\<lambda>pid.
     kthen (kwhen (pid = 0) (
       kthen (os_close os 1) (
       kthen (os_dup os p1) (
       kthen (os_close os p0) (
       kthen (os_close os p1)
       (runcmd os b l)))))) (
     kbind (fork1 os) (\<lambda>pid.
     kthen (kwhen (pid = 0) (
       kthen (os_close os 0) (
       kthen (os_dup os p0) (
       kthen (os_close os p0) (
       kthen (os_close os p1)
       (runcmd os b r)))))) (
     kthen (os_close os p0) (
     kthen (os_close os p1) (
     kthen (os_wait os) (
     kthen (os_wait os)
     (uexit 0)))))))))"
| "runcmd os b (LIST l r) =
     kbind (fork1 os) (\<lambda>pid.
     kthen (kwhen (pid = 0) (runcmd os b l)) (
     kthen (os_wait os) (
     kthen (runcmd os b r)
     (uexit 0))))"
| "runcmd os b (BACK c) =
     kbind (fork1 os) (\<lambda>pid.
     kthen (kwhen (pid = 0) (runcmd os b c))
     (uexit 0))"

section \<open>The main loop\<close>

text \<open>The line that is read, or \<open>None\<close> for -1.\<close>

definition readcmd :: "'w os \<Rightarrow> int \<Rightarrow> int \<Rightarrow> ('w, u8 list option) km" where
  "readcmd os fd nbuf =
     kbind (fgets os fd nbuf) (\<lambda>b. kret (if b = [] \<or> hd b = 0 then None else Some (cstr b)))"

definition getcmd :: "'w os \<Rightarrow> int \<Rightarrow> ('w, u8 list option) km" where
  "getcmd os nbuf =
     kthen (os_write os 2 [36, 32]) (
     kbind (gets os nbuf) (\<lambda>b. kret (if b = [] \<or> hd b = 0 then None else Some (cstr b))))"

definition run_line :: "'w os \<Rightarrow> u8 list \<Rightarrow> ('w, unit) km" where
  "run_line os line = kbind (parsecmd os line) (\<lambda>(c, b). runcmd os b c)"

primrec sh_console :: "nat \<Rightarrow> 'w os \<Rightarrow> ('w, unit) km" where
  "sh_console 0 os = kexc Spin"
| "sh_console (Suc k) os =
     kbind (os_open os (lit ''console'') O_RDWR) (\<lambda>fd.
     if fd \<ge> 0 then
       if fd \<ge> 3 then kthen (os_close os fd) (kret ()) else sh_console k os
     else kret ())"

primrec sh_profile :: "nat \<Rightarrow> 'w os \<Rightarrow> int \<Rightarrow> ('w, unit) km" where
  "sh_profile 0 os fd = kexc Spin"
| "sh_profile (Suc k) os fd =
     kbind (readcmd os fd 100) (\<lambda>r.
     case r of
       None \<Rightarrow> kret ()
     | Some line \<Rightarrow>
         kbind (fork1 os) (\<lambda>pid.
         kthen (kwhen (pid = 0) (run_line os line)) (
         kbind (os_wait os) (\<lambda>(pid, st).
         let status = (if pid < 0 then 0 else st) in
         if status \<noteq> 0 then kret () else sh_profile k os fd))))"

primrec sh_loop :: "nat \<Rightarrow> 'w os \<Rightarrow> ('w, unit) km" where
  "sh_loop 0 os = kexc Spin"
| "sh_loop (Suc k) os =
     kbind (getcmd os 100) (\<lambda>r.
     case r of
       None \<Rightarrow> kret ()
     | Some line \<Rightarrow>
         if take 3 line = lit ''cd '' then
           let dir = drop 3 (butlast line) in
           kbind (os_chdir os dir) (\<lambda>r.
           kthen (kwhen (r < 0) (ufprintf os 2 (''cannot cd %s'' @ [CHR 0x0A]) [Astr (Some dir)]))
           (sh_loop k os))
         else
           kbind (fork1 os) (\<lambda>pid.
           kthen (kwhen (pid = 0) (run_line os line)) (
           kthen (os_wait os)
           (sh_loop k os))))"

definition sh_main :: "nat \<Rightarrow> 'w os \<Rightarrow> ('w, unit) km" where
  "sh_main k os =
     kthen (sh_console k os) (
     kbind (os_open os (lit ''.profile'') O_RDWR) (\<lambda>fd.
     kthen (kwhen (fd \<ge> 0) (kthen (sh_profile k os fd) (kthen (os_close os fd) (kret ())))) (
     kthen (sh_loop k os)
     (uexit 0))))"

end
