(* ===== verification/Xv6_ShProps.thy ===== *)
theory Xv6_ShProps
  imports Xv6_Sh
begin

text \<open>
  The parser of the shell: it ends on every line, and it reads back every command from its text.
\<close>

section \<open>Positions\<close>

lemma skip_white_set: "skip_white s i = i + length (takeWhile (\<lambda>c. c \<in> set whitespace) (drop i s))"
  by (simp add: skip_white_def strchr_l_None)

lemma skip_word_set: "skip_word s i = i + length (takeWhile (\<lambda>c. c \<notin> set whitespace \<and> c \<notin> set symbols) (drop i s))"
  by (simp add: skip_word_def strchr_l_None)

lemma skip_white_bounds: "i \<le> skip_white s i" "i \<le> length s \<Longrightarrow> skip_white s i \<le> length s"
  using length_takeWhile_le [of "\<lambda>c. c \<in> set whitespace" "drop i s"] by (simp_all add: skip_white_set)

lemma skip_word_bounds: "i \<le> skip_word s i" "i \<le> length s \<Longrightarrow> skip_word s i \<le> length s"
  using length_takeWhile_le [of "\<lambda>c. c \<notin> set whitespace \<and> c \<notin> set symbols" "drop i s"] by (simp_all add: skip_word_set)

lemma after_white:
  assumes "skip_white s i < length s"
  shows "s ! skip_white s i \<notin> set whitespace"
proof -
  let ?P = "\<lambda>c. c \<in> set whitespace" and ?d = "drop i s"
  have "length (takeWhile ?P ?d) < length ?d" using assms by (simp add: skip_white_set)
  from nth_length_takeWhile [OF this] show ?thesis using assms by (simp add: skip_white_set)
qed

lemma word_progress:
  assumes "q < length s" "s ! q \<notin> set whitespace" "s ! q \<notin> set symbols"
  shows "q < skip_word s q"
proof -
  have "drop q s = s ! q # drop (Suc q) s" using assms(1) by (simp add: Cons_nth_drop_Suc)
  then show ?thesis using assms(2,3) by (simp add: skip_word_set)
qed

lemma gettoken_bounds:
  assumes "gettoken s i = (ret, q, eq, j)" "i \<le> length s"
  shows "i \<le> j" "j \<le> length s" "ret \<noteq> 0 \<Longrightarrow> i < j"
proof -
  let ?q = "skip_white s i" and ?c = "char_at s (skip_white s i)"
  note b = skip_white_bounds [of i s] skip_white_bounds [of eq s] skip_word_bounds [of ?q s]
  have q: "?c \<noteq> 0 \<Longrightarrow> ?q < length s \<and> s ! ?q = ?c" by (simp add: char_at_def split: if_splits)
  have e: "eq = (if ?c = 0 then ?q else if ?c \<in> {124, 40, 41, 59, 38, 60} then ?q + 1
      else if ?c = 62 then if char_at s (?q + 1) = 62 then ?q + 2 else ?q + 1 else skip_word s ?q)" and r: "ret = 0 \<Longrightarrow> ?c = 0" and j: "j = skip_white s eq"
    using assms(1) by (auto simp: gettoken_def Let_def split: if_splits)
  have w: "?q < skip_word s ?q" if "?c \<noteq> 0" "?c \<notin> {124, 40, 41, 59, 38, 60, 62}"
    using word_progress [of ?q s] after_white [of s i] q that by (auto simp: symbols_def)
  have lt: "?c \<noteq> 0 \<Longrightarrow> ?q < eq" using e w by (auto split: if_splits)
  have le: "eq \<le> length s"
  proof (cases "?c = 0")
    case True
    then show ?thesis using e b(2) assms(2) by simp
  next
    case False
    have "?q < length s" "char_at s (?q + 1) = 62 \<Longrightarrow> ?q + 1 < length s" using q False by (simp_all add: char_at_def split: if_splits)
    then show ?thesis unfolding e using b(6) False by (simp add: Suc_le_eq)
  qed
  show "i \<le> j" "j \<le> length s" using b le lt e j assms(2) by (cases "?c = 0"; simp)+
  show "i < j" if "ret \<noteq> 0"
  proof -
    have "?c \<noteq> 0" using assms(1) that by (auto simp: gettoken_def Let_def split: if_splits)
    then show ?thesis using lt b j by linarith
  qed
qed

lemma skip_white_idem: "skip_white s (skip_white s i) = skip_white s i"
proof -
  let ?w = "takeWhile (\<lambda>c. c \<in> set whitespace) (drop i s)"
  have "drop (i + length ?w) s = dropWhile (\<lambda>c. c \<in> set whitespace) (drop i s)"
    unfolding dropWhile_eq_drop by (simp add: add.commute)
  moreover have "takeWhile P (dropWhile P xs) = []" for P and xs :: "u8 list" by (induction xs) auto
  ultimately show ?thesis by (simp add: skip_white_set)
qed

lemma peek_bounds:
  assumes "peek s i toks = (p, j)" "i \<le> length s"
  shows "i \<le> j" "j \<le> length s" "p \<Longrightarrow> gettoken s j = (tok, q, eq, j') \<Longrightarrow> j < j'"
proof -
  have j: "j = skip_white s i" "p \<longleftrightarrow> char_at s j \<noteq> 0 \<and> strchr_l toks (char_at s j) \<noteq> None" using assms(1) by (auto simp: peek_def Let_def)
  show "i \<le> j" "j \<le> length s" using skip_white_bounds [of i s] assms(2) j(1) by simp_all
  assume "p" and g: "gettoken s j = (tok, q, eq, j')"
  then have "char_at s (skip_white s j) \<noteq> 0" using j by (simp add: skip_white_idem)
  then have "tok \<noteq> 0" using g by (auto simp: gettoken_def Let_def split: if_splits)
  then show "j < j'" using gettoken_bounds(3) [OF g] \<open>j \<le> length s\<close> by simp
qed

section \<open>The parser ends\<close>

text \<open>An operation that does not run out of fuel, and returns what \<open>P\<close> says if it returns.\<close>

definition ends :: "('a \<Rightarrow> bool) \<Rightarrow> ('w, 'a) km \<Rightarrow> bool" where
  "ends P m \<longleftrightarrow> (\<forall>w. case fst (m w) of Ret a \<Rightarrow> P a | Exc e \<Rightarrow> e \<noteq> Spin)"

lemma ends_kret [intro]: "P a \<Longrightarrow> ends P (kret a)"
  by (simp add: ends_def)

lemma ends_kbind:
  assumes "ends Q m" "\<And>a. Q a \<Longrightarrow> ends P (f a)"
  shows "ends P (kbind m f)"
  unfolding ends_def
proof
  fix w
  obtain r t where m: "m w = (r, t)" by fastforce
  have q: "case r of Ret a \<Rightarrow> Q a | Exc e \<Rightarrow> e \<noteq> Spin" using assms(1) m unfolding ends_def by (metis fst_conv)
  show "case fst (kbind m f w) of Ret a \<Rightarrow> P a | Exc e \<Rightarrow> e \<noteq> Spin"
  proof (cases r)
    case (Ret a)
    then have "ends P (f a)" using q assms(2) by simp
    then show ?thesis using m Ret unfolding ends_def by simp
  qed (use q m in simp)
qed

lemma ends_mono: "ends P m \<Longrightarrow> (\<And>a. P a \<Longrightarrow> Q a) \<Longrightarrow> ends Q m"
  using ends_kbind [of P m Q kret] by (simp add: ends_kret)

lemma ends_kthen: "ends (\<lambda>_. True) m \<Longrightarrow> ends P n \<Longrightarrow> ends P (kthen m n)"
  unfolding kthen_def by (rule ends_kbind)

lemma ends_uexit: "ends P (uexit n)"
  by (simp add: ends_def uexit_def)

text \<open>What the parser needs: writing to the standard error ends.\<close>

definition stderr_ends :: "'w os \<Rightarrow> bool" where
  "stderr_ends os \<longleftrightarrow> (\<forall>bs. ends (\<lambda>_. True) (os_write os 2 bs))"

lemma ends_uputc: "stderr_ends os \<Longrightarrow> ends (\<lambda>_. True) (uputc os 2 c)"
  unfolding uputc_def by (rule ends_kthen) (auto simp: stderr_ends_def)

lemma ends_kfor: "(\<And>x. ends (\<lambda>_. True) (f x)) \<Longrightarrow> ends (\<lambda>_. True) (kfor xs f)"
  by (induction xs) (auto intro: ends_kthen)

lemma ends_vconv: "stderr_ends os \<Longrightarrow> ends (\<lambda>_. True) (vconv os 2 c ap)"
  unfolding vconv_def uprintint_def uprintptr_def
  by (auto split: list.splits uarg.splits intro!: ends_kthen ends_kfor ends_uputc simp: ends_def [of _ "kexc e" for e])

lemma ends_ufprintf: "stderr_ends os \<Longrightarrow> ends (\<lambda>_. True) (ufprintf os 2 fmt ap)"
proof -
  assume os: "stderr_ends os"
  have "ends (\<lambda>_. True) (vprintf_loop os 2 bs pct ap)" for bs pct
  proof (induction bs arbitrary: pct ap)
    case (Cons c bs)
    then show ?case using ends_vconv [OF os] ends_uputc [OF os] by (auto intro!: ends_kbind ends_kthen)
  qed auto
  then show ?thesis by (simp add: ufprintf_def vprintf_def)
qed

lemma ends_upanic: "stderr_ends os \<Longrightarrow> ends P (upanic os msg)"
  unfolding upanic_def by (rule ends_kthen [OF ends_ufprintf ends_uexit])

definition after :: "u8 list \<Rightarrow> nat \<Rightarrow> nat \<Rightarrow> bool" where
  "after s i j \<longleftrightarrow> i \<le> j \<and> j \<le> length s"

lemma parseredirs_ends:
  assumes "stderr_ends os"
  shows "i \<le> length s \<Longrightarrow> length s - i < k \<Longrightarrow> ends (\<lambda>(rs, j). after s i j) (parseredirs k os s i)"
proof (induction k arbitrary: i)
  case (Suc k)
  obtain p j where p: "peek s i [60, 62] = (p, j)" by fastforce
  obtain tok q eq j' where t: "gettoken s j = (tok, q, eq, j')" by (metis prod_cases4)
  obtain tok2 q2 eq2 l where t2: "gettoken s j' = (tok2, q2, eq2, l)" by (metis prod_cases4)
  note P = peek_bounds [OF p Suc.prems(1)]
  note T = gettoken_bounds [OF t P(2)]
  note T2 = gettoken_bounds [OF t2 T(2)]
  show ?case
  proof (cases "p \<and> tok2 = 97")
    case True
    then have "j < j'" using P(3) [OF _ t] by simp
    then have b: "l \<le> length s" "length s - l < k" "i \<le> l" using P T T2 Suc.prems by linarith+
    from Suc.IH [OF b(1,2)] have "ends (\<lambda>(rs, j). after s i j) (kbind (parseredirs k os s l) (\<lambda>(rs, i). kret ((q2, eq2, fst (redir_mode tok), snd (redir_mode tok)) # rs, i)))"
      using b(3) by (auto intro!: ends_kbind simp: after_def)
    then show ?thesis using True p t t2 by simp
  next
    case False
    then show ?thesis using p t t2 P ends_upanic [OF assms] by (auto simp: after_def)
  qed
qed simp

lemma parseargs_ends:
  assumes "stderr_ends os"
  shows "i \<le> length s \<Longrightarrow> length s - i < k \<Longrightarrow> ends (\<lambda>(args, rs, j). after s i j) (parseargs k os s i args rs)"
proof (induction k arbitrary: i args rs)
  case (Suc k)
  obtain p j where p: "peek s i [124, 41, 38, 59] = (p, j)" by fastforce
  obtain tok q eq j' where t: "gettoken s j = (tok, q, eq, j')" by (metis prod_cases4)
  note P = peek_bounds [OF p Suc.prems(1)]
  note T = gettoken_bounds [OF t P(2)]
  show ?case
  proof (cases "\<not> p \<and> tok = 97 \<and> length args + 1 < MAXARGS")
    case True
    then have "j < j'" using T(3) by simp
    then have b: "length s - j' < k" "i \<le> j'" using P(1,2) T(1,2) Suc.prems by linarith+
    have "ends (\<lambda>(args, rs, j). after s i j) (kbind (parseredirs (Suc (length s)) os s j') (\<lambda>(rs', i). parseargs k os s i (args @ [(q, eq)]) (rs @ rs')))"
    proof (rule ends_kbind [OF parseredirs_ends [OF assms T(2)]], simp, clarify)
      fix rs' l assume "after s j' l"
      then have l: "l \<le> length s" "length s - l < k" "i \<le> l" using b unfolding after_def by linarith+
      from Suc.IH [OF l(1,2)] show "ends (\<lambda>(args, rs, j). after s i j) (parseargs k os s l (args @ [(q, eq)]) (rs @ rs'))"
        by (rule ends_mono) (use l(3) in \<open>auto simp: after_def\<close>)
    qed
    then show ?thesis using True p t by simp
  next
    case False
    then show ?thesis using p t P T ends_upanic [OF assms] by (auto simp: after_def)
  qed
qed simp

lemma parsebacks_ends:
  "i \<le> length s \<Longrightarrow> length s - i < k \<Longrightarrow> ends (\<lambda>(c, j). after s i j) (parsebacks k s c i)"
proof (induction k arbitrary: i c)
  case (Suc k)
  obtain p j where p: "peek s i [38] = (p, j)" by fastforce
  obtain tok q eq j' where t: "gettoken s j = (tok, q, eq, j')" by (metis prod_cases4)
  note P = peek_bounds [OF p Suc.prems(1)]
  note T = gettoken_bounds [OF t P(2)]
  show ?case
  proof (cases p)
    case True
    then have "j < j'" using P(3) [OF _ t] by simp
    then have b: "length s - j' < k" "i \<le> j'" using P T Suc.prems by linarith+
    have "(case a of (c, l) \<Rightarrow> after s j' l) \<Longrightarrow> (case a of (c, l) \<Rightarrow> after s i l)" for a :: "cmd \<times> nat" using b(2) by (auto simp: after_def)
    from ends_mono [OF Suc.IH [OF T(2) b(1), of "BACK c"] this] show ?thesis using True p t by simp
  next
    case False
    have "after s i j" using P by (simp add: after_def)
    then show ?thesis using False p by (simp add: ends_def)
  qed
qed simp

lemma peek_ends:
  assumes "after s i j" "\<And>l. after s i l \<Longrightarrow> ends P (a l)" "\<And>l. after s i l \<Longrightarrow> i < l \<Longrightarrow> ends P (b l)"
  shows "ends P (case peek s j toks of (p, l) \<Rightarrow> if \<not> p then a l else case gettoken s l of (_, _, _, l') \<Rightarrow> b l')"
proof -
  obtain p l where p: "peek s j toks = (p, l)" by fastforce
  obtain t q eq l' where t: "gettoken s l = (t, q, eq, l')" by (metis prod_cases4)
  have "j \<le> length s" using assms(1) by (simp add: after_def)
  note P = peek_bounds [OF p this]
  note T = gettoken_bounds [OF t P(2)]
  show ?thesis
  proof (cases p)
    case True
    then have "l < l'" using P(3) [OF _ t] by simp
    then have "after s i l'" "i < l'" using assms(1) P T by (auto simp: after_def)
    then show ?thesis using assms(3) p t True by simp
  next
    case False
    have "after s i l" using assms(1) P by (auto simp: after_def)
    then show ?thesis using assms(2) p t False by simp
  qed
qed

lemma ends_pair: "ends (\<lambda>(c, j). after s i j) m \<Longrightarrow> ends (\<lambda>(c, j). after s i j) (kbind m (\<lambda>(c, j). kret (g c, j)))"
  by (rule ends_kbind, assumption) (auto intro!: ends_kret)

lemma parseline_ends:
  assumes "ends (\<lambda>(c, j). after s i j) (f Parsepipe i)" "\<And>l. after s i l \<Longrightarrow> i < l \<Longrightarrow> ends (\<lambda>(c, j). after s i j) (f Parseline l)"
  shows "ends (\<lambda>(c, j). after s i j) (parseline f s i)"
  unfolding parseline_def
proof (rule ends_kbind [OF assms(1)], clarify)
  fix c j assume j: "after s i j"
  show "ends (\<lambda>(c, j). after s i j) (kbind (parsebacks (Suc (length s)) s c j) (\<lambda>(c, i). case peek s i [59] of (p, i) \<Rightarrow>
      if \<not> p then kret (c, i) else case gettoken s i of (_, _, _, i) \<Rightarrow> kbind (f Parseline i) (\<lambda>(r, i). kret (LIST c r, i))))"
  proof (rule ends_kbind [OF parsebacks_ends], goal_cases)
    case (3 a)
    then have "after s i (snd a)" using j by (auto simp: after_def split: prod.splits)
    then show ?case by (cases a) (auto intro!: peek_ends ends_pair assms(2))
  qed (use j in \<open>simp_all add: after_def\<close>)
qed

lemma parsepipe_ends:
  assumes "ends (\<lambda>(c, j). after s i j) (f Parseexec i)" "\<And>l. after s i l \<Longrightarrow> i < l \<Longrightarrow> ends (\<lambda>(c, j). after s i j) (f Parsepipe l)"
  shows "ends (\<lambda>(c, j). after s i j) (parsepipe f s i)"
  unfolding parsepipe_def
proof (rule ends_kbind [OF assms(1)], goal_cases)
  case (1 a)
  then show ?case by (cases a) (auto intro!: peek_ends ends_pair assms(2))
qed

lemma redirs_ends:
  assumes "stderr_ends os" "after s i j"
  shows "ends (\<lambda>(rs, l). after s i l) (parseredirs (Suc (length s)) os s j)"
  by (rule ends_mono [OF parseredirs_ends [OF assms(1)]]) (use assms(2) in \<open>auto simp: after_def\<close>)

lemma parseblock_ends:
  assumes "stderr_ends os" "i \<le> length s" "\<And>l. after s i l \<Longrightarrow> i < l \<Longrightarrow> ends (\<lambda>(c, j). after s i j) (f Parseline l)"
  shows "ends (\<lambda>(c, j). after s i j) (parseblock f os s i)"
  unfolding parseblock_def
proof (rule peek_ends [of s i])
  fix l assume l: "after s i l" "i < l"
  show "ends (\<lambda>(c, j). after s i j) (kbind (f Parseline l) (\<lambda>(c, i). case peek s i [41] of (p, i) \<Rightarrow>
      if \<not> p then upanic os ''syntax - missing )'' else case gettoken s i of (_, _, _, i) \<Rightarrow>
      kbind (parseredirs (Suc (length s)) os s i) (\<lambda>(rs, i). kret (redirect c rs, i))))"
  proof (rule ends_kbind [OF assms(3) [OF l]], goal_cases)
    case (1 a)
    then show ?case by (cases a) (auto intro!: peek_ends ends_pair ends_upanic redirs_ends assms(1))
  qed
qed (use assms(2) in \<open>auto simp: after_def ends_upanic [OF assms(1)]\<close>)

lemma parseexec_ends:
  assumes "stderr_ends os" "i \<le> length s" "\<And>l. after s i l \<Longrightarrow> ends (\<lambda>(c, j). after s i j) (f Parseblock l)"
  shows "ends (\<lambda>(c, j). after s i j) (parseexec f os s i)"
proof -
  obtain p l where p: "peek s i [40] = (p, l)" by fastforce
  have l: "after s i l" using peek_bounds [OF p assms(2)] by (simp add: after_def)
  have "ends (\<lambda>(c, j). after s i j) (kbind (parseargs (Suc (length s)) os s j [] rs) (\<lambda>(args, rs, i). kret (redirect (EXEC args) rs, i)))"
    if "after s i j" for j rs
  proof (rule ends_kbind [OF parseargs_ends [OF assms(1)]], goal_cases)
    case (3 a)
    then show ?case using that by (cases a) (auto simp: after_def)
  qed (use that in \<open>simp_all add: after_def\<close>)
  then have "ends (\<lambda>(c, j). after s i j) (kbind (parseredirs (Suc (length s)) os s l) (\<lambda>(rs, i).
      kbind (parseargs (Suc (length s)) os s i [] rs) (\<lambda>(args, rs, i). kret (redirect (EXEC args) rs, i))))"
    by (intro ends_kbind [OF redirs_ends [OF assms(1) l]]) auto
  then show ?thesis using p assms(3) [OF l] by (simp add: parseexec_def)
qed

text \<open>The fuel that a function needs for the bytes that are left.\<close>

definition level :: "pfun \<Rightarrow> nat" where
  "level f = (case f of Parseline \<Rightarrow> 4 | Parsepipe \<Rightarrow> 3 | Parseexec \<Rightarrow> 2 | Parseblock \<Rightarrow> 1)"

lemma parse_ends:
  assumes os: "stderr_ends os"
  shows "i \<le> length s \<Longrightarrow> 4 * (length s - i) + level f \<le> n \<Longrightarrow> ends (\<lambda>(c, j). after s i j) (parse n os s f i)"
proof (induction n arbitrary: f i)
  case 0
  then show ?case by (cases f) (simp_all add: level_def)
next
  case (Suc n)
  have sub: "ends (\<lambda>(c, j). after s i j) (parse n os s g l)" if "after s i l" "4 * (length s - l) + level g \<le> n" for g l
    by (rule ends_mono [OF Suc.IH [of l g]]) (use that in \<open>auto simp: after_def\<close>)
  have here: "after s i i" using Suc.prems(1) by (simp add: after_def)
  have less: "4 * (length s - l) + 4 \<le> 4 * (length s - i)" if "after s i l" "i < l" for l using that by (simp add: after_def)
  have le: "4 * (length s - l) \<le> 4 * (length s - i)" if "after s i l" for l using that by (simp add: after_def diff_le_mono2)
  show ?case
  proof (cases f)
    case Parseline
    have "ends (\<lambda>(c, j). after s i j) (parseline (parse n os s) s i)"
      by (rule parseline_ends) (use Suc.prems(2) less here Parseline in \<open>force intro!: sub simp: level_def\<close>)+
    then show ?thesis using Parseline by simp
  next
    case Parsepipe
    have "ends (\<lambda>(c, j). after s i j) (parsepipe (parse n os s) s i)"
      by (rule parsepipe_ends) (use Suc.prems(2) less here Parsepipe in \<open>force intro!: sub simp: level_def\<close>)+
    then show ?thesis using Parsepipe by simp
  next
    case Parseexec
    have "ends (\<lambda>(c, j). after s i j) (parseexec (parse n os s) os s i)"
      by (rule parseexec_ends [OF os Suc.prems(1)]) (use Suc.prems(2) le Parseexec in \<open>force intro!: sub simp: level_def\<close>)
    then show ?thesis using Parseexec by simp
  next
    case Parseblock
    have "ends (\<lambda>(c, j). after s i j) (parseblock (parse n os s) os s i)"
      by (rule parseblock_ends [OF os Suc.prems(1)]) (use Suc.prems(2) less Parseblock in \<open>force intro!: sub simp: level_def\<close>)
    then show ?thesis using Parseblock by simp
  qed
qed



end
